(* ===== verification/Prelude.thy ===== *)
theory Prelude
  imports Main "HOL-Library.Word" "HOL-Library.Stream" "HOL-Library.Signed_Division"
begin

text \<open>
  Shared vocabulary of the development: the faults a run of the simulator can end in,
  the C++ integer operations the sources use, checked element access, and the random
  number generator seen as the sequence of its outputs.

  Conventions. \<^verbatim>\<open>int\<close>, \<^verbatim>\<open>Addr_t\<close> and \<^verbatim>\<open>Clk_t\<close> values are HOL integers, \<^verbatim>\<open>size_t\<close>
  counters are naturals. Right shifts, bitwise and/or on HOL integers agree with the
  two's complement operations of the source; left shifts, which lose bits, are written
  with their width (\<open>shl_int\<close>, \<open>shl_i64\<close>, \<open>shl_u64\<close>).
\<close>

unbundle bit_operations_syntax

named_theorems c_arith \<open>rewriting of the C++ integer operations to arithmetic\<close>
named_theorems model_defs \<open>definitions unfolded when a model is evaluated\<close>


section \<open>Faults and results\<close>

text \<open>
  Every way a modelled operation can fail to produce a value: an access outside a vector
  or array, an integer division by zero, an exception of the given class, a call of
  \<^verbatim>\<open>std::exit\<close>, an invalidated iterator, and a loop that does not return.
\<close>

datatype fault =
    Out_Of_Bounds
  | Div_By_Zero
  | Invalid_Argument
  | Out_Of_Range
  | Configuration_Error
  | Runtime_Error
  | Logic_Error
  | Exit_Process
  | Invalid_Iterator
  | No_Return

type_synonym 'a result = "fault + 'a"

definition of_opt :: "fault \<Rightarrow> 'a option \<Rightarrow> 'a result" where
  "of_opt e x = (case x of None \<Rightarrow> Inl e | Some v \<Rightarrow> Inr v)"

lemma of_opt_simps [simp]:
  "of_opt e None = Inl e" "of_opt e (Some v) = Inr v"
  by (simp_all add: of_opt_def)

lemma of_opt_Inr [simp]: "of_opt e x = Inr v \<longleftrightarrow> x = Some v"
  by (cases x) simp_all

text \<open>Sequencing: the first fault ends the computation.\<close>

definition bindr :: "'a result \<Rightarrow> ('a \<Rightarrow> 'b result) \<Rightarrow> 'b result" where
  "bindr x f = (case x of Inl e \<Rightarrow> Inl e | Inr v \<Rightarrow> f v)"

lemma bindr_simps [simp]: "bindr (Inl e) f = Inl e" "bindr (Inr v) f = f v"
  by (simp_all add: bindr_def)

lemma bindr_Inr [simp]: "bindr x f = Inr y \<longleftrightarrow> (\<exists>v. x = Inr v \<and> f v = Inr y)"
  by (cases x) simp_all

lemma bindrE: "bindr x f = Inr y \<Longrightarrow> (\<And>v. x = Inr v \<Longrightarrow> f v = Inr y \<Longrightarrow> P) \<Longrightarrow> P"
  by (cases x) simp_all

lemma bindr_pairE: "bindr x (\<lambda>(a, b). f a b) = Inr y \<Longrightarrow> (\<And>a b. x = Inr (a, b) \<Longrightarrow> f a b = Inr y \<Longrightarrow> P) \<Longrightarrow> P"
  by (cases x) auto

lemma bindr_cong [fundef_cong]: "x = y \<Longrightarrow> (\<And>v. y = Inr v \<Longrightarrow> f v = g v) \<Longrightarrow> bindr x f = bindr y g"
  by (cases y) simp_all

fun map_result :: "('a \<Rightarrow> 'b result) \<Rightarrow> 'a list \<Rightarrow> 'b list result" where
  "map_result f [] = Inr []"
| "map_result f (x # xs) = bindr (f x) (\<lambda>y. bindr (map_result f xs) (\<lambda>ys. Inr (y # ys)))"

lemma map_result_Inr: "map_result f xs = Inr ys \<longleftrightarrow> list_all2 (\<lambda>x y. f x = Inr y) xs ys"
  by (induction xs arbitrary: ys) (auto simp: list_all2_Cons1)

text \<open>Element access of a \<^verbatim>\<open>std::vector\<close> or array by a signed index.\<close>

definition vec_at :: "'a list \<Rightarrow> int \<Rightarrow> 'a option" where
  "vec_at xs i = (if 0 \<le> i \<and> nat i < length xs then Some (xs ! nat i) else None)"

lemma vec_at_Some:
  "vec_at xs i = Some v \<longleftrightarrow> 0 \<le> i \<and> nat i < length xs \<and> v = xs ! nat i"
  by (auto simp: vec_at_def)

lemma vec_at_nat [simp]: "n < length xs \<Longrightarrow> vec_at xs (int n) = Some (xs ! n)"
  by (simp add: vec_at_def)

lemma vec_at_in_range: "0 \<le> i \<Longrightarrow> nat i < length xs \<Longrightarrow> vec_at xs i = Some (xs ! nat i)"
  by (simp add: vec_at_def)


section \<open>C++ integer operations\<close>

definition shl_int :: "int \<Rightarrow> nat \<Rightarrow> int" where
  "shl_int x n = signed_take_bit 31 (push_bit n x)"

definition shl_i64 :: "int \<Rightarrow> nat \<Rightarrow> int" where
  "shl_i64 x n = signed_take_bit 63 (push_bit n x)"

definition shl_u64 :: "nat \<Rightarrow> nat \<Rightarrow> nat" where
  "shl_u64 x n = take_bit 64 (push_bit n x)"

text \<open>The mask \<^verbatim>\<open>(1 << n) - 1\<close>, an \<^verbatim>\<open>int\<close> expression in the source.\<close>

definition low_mask :: "nat \<Rightarrow> int" where
  "low_mask n = shl_int 1 n - 1"

lemma low_mask_mask: "n < 31 \<Longrightarrow> low_mask n = mask n"
proof -
  assume "n < 31"
  then have "(2::int) ^ n < 2 ^ 31" by (intro power_strict_increasing) auto
  moreover have "(- (2 ^ 31) :: int) \<le> 2 ^ n"
    by (rule order_trans [of _ 0]) simp_all
  ultimately have "signed_take_bit 31 ((2::int) ^ n) = 2 ^ n"
    by (intro signed_take_bit_int_eq_self) auto
  then show ?thesis
    by (simp add: low_mask_def shl_int_def push_bit_eq_mult mask_eq_exp_minus_1)
qed

lemma and_low_mask [c_arith]: "n < 31 \<Longrightarrow> x AND low_mask n = x mod 2 ^ n"
  by (simp add: low_mask_mask take_bit_eq_mask [symmetric] take_bit_eq_mod)

lemma shl_i64_mult [c_arith]:
  "0 \<le> x \<Longrightarrow> x * 2 ^ n < 2 ^ 63 \<Longrightarrow> shl_i64 x n = x * 2 ^ n"
  unfolding shl_i64_def push_bit_eq_mult
  by (rule signed_take_bit_int_eq_self) (auto intro: order_trans [of _ 0])

lemma shl_u64_mult [c_arith]: "x * 2 ^ n < 2 ^ 64 \<Longrightarrow> shl_u64 x n = x * 2 ^ n"
  unfolding shl_u64_def push_bit_eq_mult take_bit_eq_mod by (rule mod_less)

lemma drop_bit_div [c_arith]: "drop_bit n (x::int) = x div 2 ^ n"
  by (rule drop_bit_eq_div)


section \<open>Random draws\<close>

text \<open>
  A \<^verbatim>\<open>std::mt19937_64\<close> is the stream of the values its successive calls return. \<open>draw\<close> is
  the loop the page allocators use: draw a value modulo \<open>n\<close> until it is acceptable. It has
  no result when no value of the stream is.
\<close>

partial_function (option) draw :: "(nat \<Rightarrow> bool) \<Rightarrow> nat \<Rightarrow> nat stream \<Rightarrow> (nat \<times> nat stream) option"
where
  "draw ok n r = (if ok (shd r mod n) then Some (shd r mod n, stl r) else draw ok n (stl r))"

lemma draw_first:
  "ok (r !! k mod n) \<Longrightarrow> (\<And>j. j < k \<Longrightarrow> \<not> ok (r !! j mod n)) \<Longrightarrow>
   draw ok n r = Some (r !! k mod n, sdrop (Suc k) r)"
proof (induction k arbitrary: r)
  case 0
  then show ?case by (subst draw.simps) simp
next
  case (Suc k)
  have "\<not> ok (shd r mod n)" using Suc.prems(2) [of 0] by simp
  moreover have "draw ok n (stl r) = Some (stl r !! k mod n, sdrop (Suc k) (stl r))"
  proof (rule Suc.IH)
    show "ok (stl r !! k mod n)" using Suc.prems(1) by simp
    show "\<not> ok (stl r !! j mod n)" if "j < k" for j
      using Suc.prems(2) [of "Suc j"] that by simp
  qed
  ultimately show ?case by (subst draw.simps) simp
qed

lemma draw_Some:
  assumes "draw ok n r = Some x"
  shows "\<exists>k. ok (fst x) \<and> x = (r !! k mod n, sdrop (Suc k) r)"
proof (rule draw.raw_induct [where P = "\<lambda>ok n r x. \<exists>k. ok (fst x) \<and> x = (r !! k mod n, sdrop (Suc k) r)", OF _ assms])
  fix f :: "(nat \<Rightarrow> bool) \<Rightarrow> nat \<Rightarrow> nat stream \<Rightarrow> (nat \<times> nat stream) option" and ok n r x
  assume IH: "\<And>ok n r x. f ok n r = Some x \<Longrightarrow> \<exists>k. ok (fst x) \<and> x = (r !! k mod n, sdrop (Suc k) r)"
    and eq: "(if ok (shd r mod n) then Some (shd r mod n, stl r) else f ok n (stl r)) = Some x"
  show "\<exists>k. ok (fst x) \<and> x = (r !! k mod n, sdrop (Suc k) r)"
  proof (cases "ok (shd r mod n)")
    case True
    with eq show ?thesis by (intro exI [of _ 0]) auto
  next
    case False
    with eq obtain k where "ok (fst x)" "x = (stl r !! k mod n, sdrop (Suc k) (stl r))"
      using IH [of ok n "stl r" x] by (metis (full_types))
    then show ?thesis by (intro exI [of _ "Suc k"]) simp
  qed
qed

lemma draw_returns: "ok (r !! k mod n) \<Longrightarrow> \<exists>p r'. draw ok n r = Some (p, r')"
proof -
  assume "ok (r !! k mod n)"
  then have "ok (r !! (LEAST k. ok (r !! k mod n)) mod n)" by (rule LeastI)
  moreover have "\<not> ok (r !! j mod n)" if "j < (LEAST k. ok (r !! k mod n))" for j
    using that by (rule not_less_Least)
  ultimately show ?thesis using draw_first [of ok r "LEAST k. ok (r !! k mod n)" n] by simp
qed

text \<open>A stream from which every residue modulo \<open>n\<close> is drawn again and again.\<close>

definition fair :: "nat \<Rightarrow> nat stream \<Rightarrow> bool" where
  "fair n r \<longleftrightarrow> (\<forall>p < n. \<forall>k. \<exists>j \<ge> k. r !! j mod n = p)"

lemma fair_sdrop: "fair n r \<Longrightarrow> fair n (sdrop k r)"
  unfolding fair_def
proof (intro allI impI)
  fix p i assume r: "\<forall>p<n. \<forall>k. \<exists>j\<ge>k. r !! j mod n = p" and "p < n"
  then obtain j where "k + i \<le> j" "r !! j mod n = p" by blast
  then show "\<exists>j\<ge>i. sdrop k r !! j mod n = p"
    by (intro exI [of _ "j - k"]) (simp add: sdrop_snth)
qed

lemma fair_stl: "fair n r \<Longrightarrow> fair n (stl r)"
  using fair_sdrop [of n r 1] by simp

lemma fair_draw: "fair n r \<Longrightarrow> p < n \<Longrightarrow> ok p \<Longrightarrow> \<exists>q r'. draw ok n r = Some (q, r')"
proof -
  assume "fair n r" "p < n" "ok p"
  then obtain j where "r !! j mod n = p" by (auto simp: fair_def)
  with \<open>ok p\<close> show ?thesis using draw_returns [of ok r j n] by simp
qed

lemma snth_siterate_Suc [simp]: "siterate Suc m !! k = m + k"
  by (induction k arbitrary: m) auto

lemma fair_siterate: "fair n (siterate Suc m)"
  unfolding fair_def
proof (intro allI impI)
  fix p k assume "p < n"
  show "\<exists>j\<ge>k. siterate Suc m !! j mod n = p"
  proof (intro exI [of _ "n * (m + k) + p - m"] conjI)
    have le: "m + k \<le> n * (m + k)" using \<open>p < n\<close> by (cases n) auto
    show "k \<le> n * (m + k) + p - m" using le by linarith
    have "m \<le> n * (m + k) + p" using le by linarith
    with \<open>p < n\<close> show "siterate Suc m !! (n * (m + k) + p - m) mod n = p" by simp
  qed
qed


section \<open>Counting marks in a bitmap\<close>

lemma count_marks_clear:
  "i < length xs \<Longrightarrow> xs ! i \<Longrightarrow> Suc (length (filter id (xs[i := False]))) = length (filter id xs)"
  by (induction xs arbitrary: i) (auto simp: less_Suc_eq_0_disj)

lemma count_marks_set:
  "i < length xs \<Longrightarrow> \<not> xs ! i \<Longrightarrow> length (filter id (xs[i := True])) = Suc (length (filter id xs))"
  by (induction xs arbitrary: i) (auto simp: less_Suc_eq_0_disj)

lemma count_marks_pos: "0 < length (filter id xs) \<longleftrightarrow> (\<exists>i < length xs. xs ! i)"
proof -
  have "0 < length (filter id xs) \<longleftrightarrow> (\<exists>x \<in> set xs. x)"
    by (auto simp: filter_empty_conv)
  then show ?thesis by (metis in_set_conv_nth)
qed

end
