(* ===== verification/Requests.thy ===== *)
theory Requests
  imports Prelude
begin

text \<open>
  Memory requests (\<^verbatim>\<open>struct Request\<close>) and the bounded request buffers of the memory
  controllers (\<^verbatim>\<open>struct ReqBuffer\<close>), from \<^verbatim>\<open>base/request.h\<close> and \<^verbatim>\<open>base/request.cpp\<close>.
  A list iterator is a position in the buffer. A callback is the identity of the object
  whose \<^verbatim>\<open>receive\<close> it calls, an empty \<^verbatim>\<open>std::function\<close> is \<open>None\<close>.
\<close>

section \<open>Requests\<close>

record Request =
  addr :: int
  addr_vec :: "int list"
  vpage :: int
  v_addr :: int
  type_id :: int
  source_id :: int
  command :: int
  final_command :: int
  is_stat_updated :: bool
  arrive :: int
  depart :: int
  is_cached :: bool
  scratchpad :: "int list"
  callback :: "nat option"
  m_payload :: "nat option"

abbreviation (input) Type_Read :: int where
  "Type_Read \<equiv> 0"

abbreviation (input) Type_Write :: int where
  "Type_Write \<equiv> 1"

text \<open>The member initialisers, and the four constructors.\<close>

definition default_Request :: Request where
  "default_Request =
     \<lparr>addr = -1, addr_vec = [], vpage = -1, v_addr = -1, type_id = -1, source_id = -1,
      command = -1, final_command = -1, is_stat_updated = False, arrive = -1, depart = -1,
      is_cached = False, scratchpad = [0, 0, 0, 0], callback = None, m_payload = None\<rparr>"

definition Request_addr :: "int \<Rightarrow> int \<Rightarrow> Request" where
  "Request_addr a type = default_Request\<lparr>addr := a, type_id := type\<rparr>"

definition Request_vec :: "int list \<Rightarrow> int \<Rightarrow> Request" where
  "Request_vec av type = default_Request\<lparr>addr_vec := av, type_id := type\<rparr>"

definition Request_core :: "int \<Rightarrow> int \<Rightarrow> int \<Rightarrow> Request" where
  "Request_core a type src = default_Request\<lparr>addr := a, type_id := type, source_id := src\<rparr>"

definition Request_callback :: "int \<Rightarrow> int \<Rightarrow> int \<Rightarrow> nat option \<Rightarrow> Request" where
  "Request_callback a type src cb =
     default_Request\<lparr>addr := a, type_id := type, source_id := src, callback := cb\<rparr>"


section \<open>Request buffers\<close>

record ReqBuffer =
  buffer :: "Request list"
  max_size :: nat

definition empty_ReqBuffer :: ReqBuffer where
  "empty_ReqBuffer = \<lparr>buffer = [], max_size = 32\<rparr>"

definition buf_size :: "ReqBuffer \<Rightarrow> nat" where
  "buf_size b = length (buffer b)"

definition enqueue :: "ReqBuffer \<Rightarrow> Request \<Rightarrow> bool \<times> ReqBuffer" where
  "enqueue b request =
     (if length (buffer b) \<le> max_size b then (True, b\<lparr>buffer := buffer b @ [request]\<rparr>)
      else (False, b))"

text \<open>Erasing at a position past the end is undefined for \<^verbatim>\<open>std::list\<close>; here it changes nothing.\<close>

definition buf_remove :: "ReqBuffer \<Rightarrow> nat \<Rightarrow> ReqBuffer" where
  "buf_remove b it = b\<lparr>buffer := take it (buffer b) @ drop (Suc it) (buffer b)\<rparr>"

lemma enqueue_simps:
  "length (buffer b) \<le> max_size b \<Longrightarrow> enqueue b r = (True, b\<lparr>buffer := buffer b @ [r]\<rparr>)"
  "\<not> length (buffer b) \<le> max_size b \<Longrightarrow> enqueue b r = (False, b)"
  by (simp_all add: enqueue_def)

lemma enqueue_accepts [simp]: "fst (enqueue b r) \<longleftrightarrow> length (buffer b) \<le> max_size b"
  by (simp add: enqueue_def)

lemma max_size_enqueue [simp]: "max_size (snd (enqueue b r)) = max_size b"
  by (simp add: enqueue_def)

lemma max_size_remove [simp]: "max_size (buf_remove b it) = max_size b"
  by (simp add: buf_remove_def)

lemma length_enqueue_le:
  "length (buffer b) \<le> Suc (max_size b) \<Longrightarrow> length (buffer (snd (enqueue b r))) \<le> Suc (max_size b)"
  by (simp add: enqueue_def)

lemma length_remove_le: "length (buffer (buf_remove b it)) \<le> length (buffer b)"
  by (simp add: buf_remove_def)

fun enqueue_all :: "ReqBuffer \<Rightarrow> Request list \<Rightarrow> ReqBuffer" where
  "enqueue_all b [] = b"
| "enqueue_all b (r # rs) = enqueue_all (snd (enqueue b r)) rs"

lemma enqueue_all_buffer:
  "length (buffer b) \<le> Suc (max_size b) \<Longrightarrow>
   buffer (enqueue_all b rs) = buffer b @ take (Suc (max_size b) - length (buffer b)) rs"
proof (induction rs arbitrary: b)
  case Nil
  then show ?case by simp
next
  case (Cons r rs)
  show ?case
  proof (cases "length (buffer b) \<le> max_size b")
    case True
    then show ?thesis
      using Cons.IH [of "b\<lparr>buffer := buffer b @ [r]\<rparr>"]
      by (simp add: enqueue_simps Suc_diff_le)
  next
    case False
    with Cons.prems have "length (buffer b) = Suc (max_size b)" by simp
    then show ?thesis using Cons.IH [of b] by (simp add: enqueue_simps)
  qed
qed

text \<open>
  C37. A request buffer is first-in first-out and keeps one request more than its declared
  \<^verbatim>\<open>max_size\<close>: of any sequence offered to an empty buffer it holds exactly the first
  \<^verbatim>\<open>max_size + 1\<close>, because \<^verbatim>\<open>enqueue\<close> tests \<^verbatim>\<open>size() <= max_size\<close>.
\<close>

theorem enqueue_capacity:
  "buffer (enqueue_all (empty_ReqBuffer\<lparr>max_size := m\<rparr>) rs) = take (Suc m) rs"
  using enqueue_all_buffer [of "empty_ReqBuffer\<lparr>max_size := m\<rparr>" rs]
  by (simp add: empty_ReqBuffer_def)

end
