(* ===== verification/Utils.thy ===== *)
theory Utils
  imports Prelude Complex_Main "HOL-Library.Sublist"
begin

text \<open>
  The helper functions of \<^verbatim>\<open>base/utils.h\<close> and \<^verbatim>\<open>base/utils.cpp\<close>: bit slicing, base-2
  logarithm, parsing of capacity and frequency strings, tokenising, the JEDEC rounding
  rules, and the core-to-channel latency matrix every NUMA-aware policy reads.
\<close>


section \<open>Bitwise helpers\<close>

text \<open>
  \<^verbatim>\<open>while ((val >>= 1)) n++;\<close> The shift of a negative value never reaches zero, so the loop
  is a partial function.
\<close>

partial_function (option) calc_log2_loop :: "int \<Rightarrow> nat \<Rightarrow> nat option" where
  "calc_log2_loop val n =
     (let val' = drop_bit 1 val
      in if val' \<noteq> 0 then calc_log2_loop val' (Suc n) else Some n)"

definition calc_log2 :: "int \<Rightarrow> nat option" where
  "calc_log2 val = calc_log2_loop val 0"

text \<open>Returns the sliced bits and the shifted address (the reference argument).\<close>

definition slice_lower_bits :: "int \<Rightarrow> nat \<Rightarrow> int \<times> int" where
  "slice_lower_bits a num_bits = (a AND low_mask num_bits, drop_bit num_bits a)"


section \<open>Strings and numbers\<close>

text \<open>\<^verbatim>\<open>std::string::find(sub, pos)\<close>: the least match position at or after \<open>pos\<close>.\<close>

fun find_at :: "string \<Rightarrow> string \<Rightarrow> nat option" where
  "find_at sub [] = (if sub = [] then Some 0 else None)"
| "find_at sub (c # cs) =
     (if prefix sub (c # cs) then Some 0 else map_option Suc (find_at sub cs))"

definition string_find :: "string \<Rightarrow> string \<Rightarrow> nat \<Rightarrow> nat option" where
  "string_find s sub pos =
     (if pos \<le> length s then map_option (\<lambda>i. pos + i) (find_at sub (drop pos s)) else None)"

definition is_digit :: "char \<Rightarrow> bool" where
  "is_digit c \<longleftrightarrow> 48 \<le> (of_char c :: nat) \<and> (of_char c :: nat) \<le> 57"

definition is_space :: "char \<Rightarrow> bool" where
  "is_space c \<longleftrightarrow> (of_char c :: nat) = 32 \<or> (9 \<le> (of_char c :: nat) \<and> (of_char c :: nat) \<le> 13)"

definition digits_value :: "string \<Rightarrow> nat" where
  "digits_value ds = foldl (\<lambda>acc c. acc * 10 + (of_char c - 48)) 0 ds"

text \<open>The common front of \<^verbatim>\<open>std::stoi\<close>, \<^verbatim>\<open>std::stoll\<close>, \<^verbatim>\<open>std::stoull\<close>: white space, sign, digits.\<close>

definition scan_number :: "string \<Rightarrow> (bool \<times> nat) result" where
  "scan_number s =
     (let t = dropWhile is_space s;
          neg = (t \<noteq> [] \<and> hd t = CHR ''-'');
          u = (if t \<noteq> [] \<and> (hd t = CHR ''-'' \<or> hd t = CHR ''+'') then tl t else t);
          ds = takeWhile is_digit u
      in if ds = [] then Inl Invalid_Argument else Inr (neg, digits_value ds))"

definition stoull :: "string \<Rightarrow> nat result" where
  "stoull s = (case scan_number s of Inl e \<Rightarrow> Inl e | Inr (neg, v) \<Rightarrow>
     if 2 ^ 64 \<le> v then Inl Out_Of_Range
     else Inr (if neg then (2 ^ 64 - v) mod 2 ^ 64 else v))"

definition sto_signed :: "nat \<Rightarrow> string \<Rightarrow> int result" where
  "sto_signed w s = (case scan_number s of Inl e \<Rightarrow> Inl e | Inr (neg, v) \<Rightarrow>
     (let i = (if neg then - int v else int v)
      in if - (2 ^ (w - 1)) \<le> i \<and> i < 2 ^ (w - 1) then Inr i else Inl Out_Of_Range))"

abbreviation stoll :: "string \<Rightarrow> int result" where
  "stoll \<equiv> sto_signed 64"

abbreviation stoi :: "string \<Rightarrow> int result" where
  "stoi \<equiv> sto_signed 32"

text \<open>The loop over the suffixes: \<open>i\<close> is the index of the head of \<open>sfx\<close>.\<close>

fun parse_suffixes :: "(nat \<Rightarrow> nat) \<Rightarrow> string list \<Rightarrow> nat \<Rightarrow> string \<Rightarrow> nat result" where
  "parse_suffixes sh [] i size_str = Inr 0"
| "parse_suffixes sh (sf # sfx) i size_str =
     (if string_find size_str sf 0 \<noteq> None
      then (case stoull size_str of Inl e \<Rightarrow> Inl e | Inr sz \<Rightarrow> Inr (shl_u64 sz (sh i)))
      else parse_suffixes sh sfx (Suc i) size_str)"

definition parse_capacity_str :: "string \<Rightarrow> nat result" where
  "parse_capacity_str size_str =
     parse_suffixes (\<lambda>i. 10 * (i + 1)) [''KB'', ''MB'', ''GB''] 0 size_str"

definition parse_frequency_str :: "string \<Rightarrow> nat result" where
  "parse_frequency_str size_str =
     parse_suffixes (\<lambda>i. 10 * i) [''MHz'', ''GHz''] 0 size_str"

text \<open>\<^verbatim>\<open>tokenize\<close>, with \<^verbatim>\<open>last_pos\<close> as the loop variable and \<^verbatim>\<open>tokens\<close> as the result.\<close>

function tokenize_from :: "string \<Rightarrow> string \<Rightarrow> nat \<Rightarrow> string list result" where
  "tokenize_from line delim last_pos =
     (case string_find line delim last_pos of
        Some pos \<Rightarrow>
          (case tokenize_from line delim (pos + 1) of
             Inl e \<Rightarrow> Inl e
           | Inr tokens \<Rightarrow> Inr (take (pos - last_pos) (drop last_pos line) # tokens))
      | None \<Rightarrow>
          if length line < last_pos then Inl Out_Of_Range else Inr [drop last_pos line])"
  by pat_completeness auto
termination
  by (relation "measure (\<lambda>(line, delim, last_pos). Suc (length line) - last_pos)")
    (auto simp: string_find_def split: if_splits)

definition tokenize :: "string \<Rightarrow> string \<Rightarrow> string list result" where
  "tokenize line delim = tokenize_from line delim 0"

declare tokenize_from.simps [simp del]


section \<open>JEDEC rounding\<close>

text \<open>
  \<^verbatim>\<open>t_ns\<close> is a \<^verbatim>\<open>float\<close>; the model takes its exact value, so the truncation to picoseconds is a
  floor. \<^verbatim>\<open>tCK_ps\<close> is converted to an unsigned 64-bit divisor.
\<close>

definition JEDEC_rounding :: "rat \<Rightarrow> int \<Rightarrow> nat result" where
  "JEDEC_rounding t_ns tCK_ps =
     (let t_ps = nat \<lfloor>t_ns * 1000\<rfloor>; c = nat (take_bit 64 tCK_ps)
      in if c = 0 then Inl Div_By_Zero
         else Inr ((take_bit 64 (t_ps * 1000) div c + 974) div 1000))"

definition JEDEC_rounding_DDR5 :: "rat \<Rightarrow> int \<Rightarrow> nat result" where
  "JEDEC_rounding_DDR5 t_ns tCK_ps =
     (let t_ps = nat \<lfloor>t_ns * 1000\<rfloor>; c = nat (take_bit 64 tCK_ps)
      in if c = 0 then Inl Div_By_Zero
         else Inr ((take_bit 64 (t_ps * 997) div c + 1000) div 1000))"


section \<open>The core-to-channel latency matrix\<close>

definition latency_pattern :: "int list" where
  "latency_pattern = [20, 30, 60, 100, 130]"

definition core_channel_latency_entry :: "int \<Rightarrow> int \<Rightarrow> int" where
  "core_channel_latency_entry core ch =
     (let offset = \<bar>core - ch\<bar>
      in if offset < 5 then latency_pattern ! nat offset
         else (let mirrored_offset = 8 - offset in latency_pattern ! nat mirrored_offset))"

definition initialize_core_channel_latency :: "int list list" where
  "initialize_core_channel_latency =
     map (\<lambda>core. map (\<lambda>ch. core_channel_latency_entry (int core) (int ch)) [0..<8]) [0..<8]"


section \<open>Lemmas: bit helpers\<close>

lemma calc_log2_loop_pow:
  "2 ^ k \<le> v \<Longrightarrow> v < 2 ^ Suc k \<Longrightarrow> calc_log2_loop v n = Some (n + k)"
proof (induction k arbitrary: v n)
  case 0
  then have "v = 1" by simp
  then show ?case by (simp add: calc_log2_loop.simps)
next
  case (Suc k)
  then have "2 ^ k \<le> v div 2" and "v div 2 < 2 ^ Suc k" by auto
  then have "calc_log2_loop (v div 2) (Suc n) = Some (Suc n + k)" by (rule Suc.IH)
  moreover have "v div 2 \<noteq> 0" using \<open>2 ^ k \<le> v div 2\<close>
    by (metis not_less zero_less_numeral zero_less_power)
  ultimately show ?case
    by (subst calc_log2_loop.simps) (simp add: drop_bit_eq_div)
qed

lemma calc_log2_loop_nonneg: "calc_log2_loop v n = Some r \<Longrightarrow> 0 \<le> v"
proof -
  assume ret: "calc_log2_loop v n = Some r"
  show "0 \<le> v"
  proof (rule calc_log2_loop.raw_induct [where P = "\<lambda>v n r. 0 \<le> v", OF _ ret])
    fix f and v :: int and n r :: nat
    assume IH: "\<And>v n r. f v n = Some r \<Longrightarrow> 0 \<le> v"
      and eq: "(let val' = drop_bit 1 v in if val' \<noteq> 0 then f val' (Suc n) else Some n) = Some r"
    then show "0 \<le> v"
      by (cases "drop_bit 1 v = 0") (auto simp: Let_def drop_bit_eq_div dest: IH)
  qed
qed

lemma calc_log2_pow2 [simp]: "calc_log2 (2 ^ k) = Some k"
  using calc_log2_loop_pow [of k "2 ^ k" 0] by (simp add: calc_log2_def)

lemma calc_log2_Some:
  assumes "0 < v"
  obtains n where "calc_log2 v = Some n" "2 ^ n \<le> v" "v < 2 ^ Suc n"
proof -
  have "1 \<le> nat v" using assms by simp
  then obtain n where n: "2 ^ n \<le> nat v" "nat v < 2 ^ (n + 1)"
    using ex_power_ivl1 [of 2 "nat v"] by blast
  have "int (2 ^ n) \<le> v" and "v < int (2 ^ (n + 1))"
    using n assms by linarith+
  then have le: "2 ^ n \<le> v" and less: "v < 2 ^ Suc n" by simp_all
  have "calc_log2 v = Some n"
    using calc_log2_loop_pow [OF le less, of 0] by (simp add: calc_log2_def)
  then show ?thesis using le less by (rule that)
qed

lemma slice_lower_bits_div_mod [c_arith]:
  "n < 31 \<Longrightarrow> slice_lower_bits a n = (a mod 2 ^ n, a div 2 ^ n)"
  by (simp add: slice_lower_bits_def c_arith)


section \<open>Lemmas: decimal numbers and suffixes\<close>

definition digit_char :: "nat \<Rightarrow> char" where
  "digit_char d = char_of (48 + d)"

fun decimal :: "nat \<Rightarrow> string" where
  "decimal n = (if n < 10 then [digit_char n] else decimal (n div 10) @ [digit_char (n mod 10)])"

declare decimal.simps [simp del]

lemma of_digit_char: "d < 10 \<Longrightarrow> (of_char (digit_char d) :: nat) = 48 + d"
  by (simp add: digit_char_def of_char_of)

lemma is_digit_digit_char [simp]: "d < 10 \<Longrightarrow> is_digit (digit_char d)"
  by (simp add: is_digit_def of_digit_char)

lemma decimal_digits: "\<forall>c \<in> set (decimal n). is_digit c"
  by (induction n rule: decimal.induct) (subst decimal.simps, auto)

lemma decimal_nonempty [simp]: "decimal n \<noteq> []"
  by (subst decimal.simps) simp

lemma digits_value_snoc [simp]:
  "digits_value (ds @ [c]) = digits_value ds * 10 + (of_char c - 48)"
  by (simp add: digits_value_def)

lemma digits_value_decimal [simp]: "digits_value (decimal n) = n"
proof (induction n rule: decimal.induct)
  case (1 n)
  show ?case
  proof (cases "n < 10")
    case True
    then show ?thesis
      by (subst decimal.simps) (simp add: digits_value_def of_digit_char)
  next
    case False
    with 1 show ?thesis
      by (subst decimal.simps) (simp add: of_digit_char)
  qed
qed

lemma is_digit_not_sign: "is_digit c \<Longrightarrow> \<not> is_space c \<and> c \<noteq> CHR ''-'' \<and> c \<noteq> CHR ''+''"
  by (auto simp: is_digit_def is_space_def)

lemma scan_number_decimal:
  assumes "rest = [] \<or> \<not> is_digit (hd rest)"
  shows "scan_number (decimal n @ rest) = Inr (False, n)"
proof -
  obtain c ds where cds: "decimal n = c # ds" by (cases "decimal n") auto
  have dig: "is_digit c" using decimal_digits [of n] cds by simp
  have "takeWhile is_digit (decimal n @ rest) = decimal n"
    using assms decimal_digits [of n]
    by (cases rest) (auto simp: takeWhile_append)
  with cds is_digit_not_sign [OF dig] show ?thesis
    by (simp add: scan_number_def Let_def dig digits_value_decimal [of n, unfolded cds])
qed

lemma find_at_None:
  "sub \<noteq> [] \<Longrightarrow> hd sub \<notin> set s \<Longrightarrow> find_at sub s = None"
  by (induction s) (auto simp: prefix_def neq_Nil_conv)

lemma find_at_append: "find_at sub (xs @ sub) \<noteq> None"
  by (induction xs) (cases sub, auto)

lemma stoull_decimal:
  "n < 2 ^ 64 \<Longrightarrow> rest = [] \<or> \<not> is_digit (hd rest) \<Longrightarrow> stoull (decimal n @ rest) = Inr n"
  by (simp add: stoull_def scan_number_decimal)

lemma string_find_0 [simp]: "string_find s sub 0 = find_at sub s"
  by (cases "find_at sub s") (simp_all add: string_find_def)

lemma suffix_char_not_in_decimal:
  "\<not> is_digit c \<Longrightarrow> c \<notin> set (decimal n)"
  using decimal_digits by blast


section \<open>Lemmas: tokens\<close>

fun join_tokens :: "char \<Rightarrow> string list \<Rightarrow> string" where
  "join_tokens d [] = []"
| "join_tokens d [t] = t"
| "join_tokens d (t # ts) = t @ d # join_tokens d ts"

lemma find_at_char_Some:
  "find_at [d] s = Some i \<Longrightarrow> i < length s \<and> s ! i = d \<and> d \<notin> set (take i s)"
  by (induction s arbitrary: i) (auto split: if_splits)

lemma find_at_char_None: "find_at [d] s = None \<Longrightarrow> d \<notin> set s"
  by (induction s) (auto split: if_splits)

lemma join_tokens_Cons: "ts \<noteq> [] \<Longrightarrow> join_tokens d (t # ts) = t @ d # join_tokens d ts"
  by (cases ts) auto

lemma tokenize_from_join:
  "p \<le> length line \<Longrightarrow>
   \<exists>ts. tokenize_from line [d] p = Inr ts \<and> ts \<noteq> [] \<and> join_tokens d ts = drop p line
        \<and> (\<forall>t \<in> set ts. d \<notin> set t)"
proof (induction line "[d]" p rule: tokenize_from.induct)
  case (1 line p)
  show ?case
  proof (cases "string_find line [d] p")
    case None
    with "1.prems" have "d \<notin> set (drop p line)"
      by (auto simp: string_find_def dest: find_at_char_None)
    with None "1.prems" show ?thesis
      by (subst tokenize_from.simps) simp
  next
    case (Some pos)
    with "1.prems" obtain i where i: "find_at [d] (drop p line) = Some i" and pos: "pos = p + i"
      by (auto simp: string_find_def)
    from find_at_char_Some [OF i] have len: "pos < length line" and at: "line ! pos = d"
      and free: "d \<notin> set (take i (drop p line))"
      using pos by auto
    obtain ts where ts: "tokenize_from line [d] (pos + 1) = Inr ts" "ts \<noteq> []"
      "join_tokens d ts = drop (pos + 1) line" "\<forall>t \<in> set ts. d \<notin> set t"
      using "1.hyps" [OF Some] len by auto
    have "drop p line = take i (drop p line) @ drop pos line"
      using append_take_drop_id [of i "drop p line"] pos by (simp add: add.commute)
    also have "drop pos line = d # drop (pos + 1) line"
      using Cons_nth_drop_Suc [OF len] at by simp
    finally have "drop p line = take i (drop p line) @ d # drop (pos + 1) line" .
    with Some ts free pos show ?thesis
      by (subst tokenize_from.simps) (auto simp: join_tokens_Cons)
  qed
qed


section \<open>Lemmas: rounding\<close>

lemma div_add_le_iff:
  fixes x r k m c :: nat
  assumes "0 < c" and "r < k"
  shows "(x div c + (k - 1 - r)) div k \<le> m \<longleftrightarrow> x < (k * m + Suc r) * c"
proof -
  have "(x div c + (k - 1 - r)) div k \<le> m \<longleftrightarrow> x div c + (k - 1 - r) < k * Suc m"
    using assms by (metis less_Suc_eq_le less_mult_imp_div_less div_less_iff_less_mult
        mult.commute gr_implies_not0 not_gr_zero)
  also have "\<dots> \<longleftrightarrow> x div c < k * m + Suc r"
    using assms(2) by auto
  also have "\<dots> \<longleftrightarrow> x < (k * m + Suc r) * c"
    using assms(1) by (rule div_less_iff_less_mult)
  finally show ?thesis .
qed

lemma unsigned_clock [simp]: "0 < c \<Longrightarrow> c < 2 ^ 31 \<Longrightarrow> take_bit 64 (c::int) = c"
  by (rule take_bit_int_eq_self) auto


lemma latency_entry_ring:
  assumes "c < 8" and "h < 8"
  shows "core_channel_latency_entry (int c) (int h)
           = latency_pattern ! min (nat \<bar>int c - int h\<bar>) (8 - nat \<bar>int c - int h\<bar>)"
proof -
  let ?d = "nat \<bar>int c - int h\<bar>"
  have "?d < 8" using assms by linarith
  moreover have "nat (8 - \<bar>int c - int h\<bar>) = 8 - ?d" by linarith
  ultimately show ?thesis
    by (auto simp: core_channel_latency_entry_def Let_def min_def)
qed

lemma latency_pattern_strict: "i < j \<Longrightarrow> j < 5 \<Longrightarrow> latency_pattern ! i < latency_pattern ! j"
  by (auto simp: latency_pattern_def less_Suc_eq numeral_eq_Suc)

lemma initialize_core_channel_latency_nth [simp]:
  "c < 8 \<Longrightarrow> h < 8 \<Longrightarrow>
   initialize_core_channel_latency ! c ! h = core_channel_latency_entry (int c) (int h)"
  by (simp add: initialize_core_channel_latency_def del: upt.simps upt_conv_Cons)

lemma initialize_core_channel_latency_lengths [simp]:
  "length initialize_core_channel_latency = 8"
  "c < 8 \<Longrightarrow> length (initialize_core_channel_latency ! c) = 8"
  by (simp_all add: initialize_core_channel_latency_def del: upt.simps upt_conv_Cons)


section \<open>Properties\<close>



text \<open>
  C34. A capacity written as a decimal number followed by KB, MB or GB parses to that number
  of bytes, whenever the value fits in 64 bits.
\<close>

theorem parse_capacity_roundtrip:
  assumes "i < 3" and "n * 1024 ^ Suc i < 2 ^ 64"
  shows "parse_capacity_str (decimal n @ [''KB'', ''MB'', ''GB''] ! i) = Inr (n * 1024 ^ Suc i)"
proof -
  have n: "n < 2 ^ 64"
    by (rule order.strict_trans1 [OF _ assms(2)]) simp
  have nd: "\<not> is_digit (CHR ''K'')" "\<not> is_digit (CHR ''M'')" "\<not> is_digit (CHR ''G'')"
    "\<not> is_digit (CHR ''B'')"
    by (simp_all add: is_digit_def)
  have no: "find_at ''KB'' (decimal n @ ''MB'') = None" "find_at ''KB'' (decimal n @ ''GB'') = None"
    "find_at ''MB'' (decimal n @ ''GB'') = None"
    by (rule find_at_None, simp, simp add: suffix_char_not_in_decimal nd)+
  have pw: "(1024::nat) ^ Suc i = 2 ^ (10 * Suc i)"
    by (simp only: power_mult) simp
  have sz: "n * 2 ^ (10 * Suc i) < 2 ^ 64"
    using assms(2) by (simp only: pw)
  have "shl_u64 n (10 * (i + 1)) = n * 1024 ^ Suc i"
    using shl_u64_mult [OF sz] pw by simp
  moreover have "i = 0 \<or> i = 1 \<or> i = 2" using assms(1) by linarith
  ultimately show ?thesis
    using find_at_append [of "''KB''" "decimal n"] find_at_append [of "''MB''" "decimal n"]
      find_at_append [of "''GB''" "decimal n"]
    by (auto simp: parse_capacity_str_def no stoull_decimal [OF n] nd)
qed

theorem parse_capacity_roundtrip_witness:
  "parse_capacity_str (decimal 2 @ ''MB'') = Inr 2097152"
  using parse_capacity_roundtrip [of 1 2] by simp

text \<open>
  \<^verbatim>\<open>parse_frequency_str\<close> scales a frequency in GHz by 1024, not by the 1000 MHz its
  documentation promises.
\<close>

theorem parse_frequency_GHz:
  assumes "n * 1024 < 2 ^ 64"
  shows "parse_frequency_str (decimal n @ ''GHz'') = Inr (n * 1024)"
proof -
  have nd: "\<not> is_digit (CHR ''M'')" "\<not> is_digit (CHR ''G'')" by (simp_all add: is_digit_def)
  have no: "find_at ''MHz'' (decimal n @ ''GHz'') = None"
    by (rule find_at_None) (simp_all add: suffix_char_not_in_decimal nd)
  have "shl_u64 n 10 = n * 1024" using shl_u64_mult [of n 10] assms by simp
  then show ?thesis
    using find_at_append [of "''GHz''" "decimal n"] assms
    by (auto simp: parse_frequency_str_def no stoull_decimal nd)
qed

theorem parse_frequency_GHz_witness:
  "parse_frequency_str (decimal 4 @ ''GHz'') = Inr 4096 \<and> (4096::nat) \<noteq> 4 * 1000"
  using parse_frequency_GHz [of 4] by simp

text \<open>
  Tokenising a line at a one-character delimiter always succeeds, no token contains the
  delimiter, and joining the tokens with it gives the line back.
\<close>

theorem tokenize_roundtrip:
  "\<exists>ts. tokenize line [d] = Inr ts \<and> join_tokens d ts = line \<and> (\<forall>t \<in> set ts. d \<notin> set t)"
  using tokenize_from_join [of 0 line d] by (auto simp: tokenize_def)

theorem tokenize_roundtrip_witness:
  "\<exists>ts. tokenize ''3 4096 64'' '' '' = Inr ts \<and> join_tokens CHR '' '' ts = ''3 4096 64''
        \<and> (\<forall>t \<in> set ts. CHR '' '' \<notin> set t)"
  using tokenize_roundtrip [of "''3 4096 64''" "CHR '' ''"] by blast



text \<open>
  C36. The latency matrix is a symmetric function of the distance on a ring of eight nodes,
  and a core's own channel is strictly the closest.
\<close>

theorem latency_matrix_ring:
  assumes "c < 8" and "h < 8"
  shows "let M = initialize_core_channel_latency; d = nat \<bar>int c - int h\<bar> in
           M ! c ! h = latency_pattern ! min d (8 - d) \<and> M ! c ! h = M ! h ! c
           \<and> (c \<noteq> h \<longrightarrow> M ! c ! c < M ! c ! h)"
proof -
  have sym: "\<bar>int c - int h\<bar> = \<bar>int h - int c\<bar>" by simp
  have "c \<noteq> h \<Longrightarrow> latency_pattern ! 0
      < latency_pattern ! min (nat \<bar>int c - int h\<bar>) (8 - nat \<bar>int c - int h\<bar>)"
    by (rule latency_pattern_strict) (use assms in \<open>auto simp: min_def\<close>)
  then show ?thesis
    using assms by (simp add: Let_def latency_entry_ring sym)
qed

theorem latency_matrix_ring_witness:
  "initialize_core_channel_latency ! 1 ! 7 = 60
   \<and> initialize_core_channel_latency ! 1 ! 1 < initialize_core_channel_latency ! 1 ! 7"
  using latency_matrix_ring [of 1 7] by (simp add: Let_def latency_pattern_def)

end
