(* ===== verification/Dram_Spec.thy ===== *)
theory Dram_Spec
  imports Utils
begin

text \<open>
  The vocabulary in which a DRAM standard is described, \<^verbatim>\<open>dram/spec.h\<close>: organizations,
  command meta data, name definitions with their numbering (\<^verbatim>\<open>SpecDef\<close>, \<^verbatim>\<open>ImplDef\<close>), look-up
  tables over them (\<^verbatim>\<open>ImplLUT\<close>), timing constraints and how a list of constraint
  initialisers becomes the table indexed by level and preceding command.
\<close>

section \<open>Organizations and commands\<close>

record Organization =
  density :: int
  dq :: int
  count :: "int list"

record DRAMCommandMeta =
  is_opening :: bool
  is_closing :: bool
  is_accessing :: bool
  is_refreshing :: bool
  is_sb_cmd :: bool

record FutureAction =
  fa_cmd :: nat
  fa_addr_vec :: "int list"
  fa_clk :: int


section \<open>Names and numbers\<close>

text \<open>
  A definition is a list of names. The run-time table is filled in the order of the list,
  so a repeated name has the number of its last occurrence; the compile-time search
  returns the first one.
\<close>

fun number_names :: "nat \<Rightarrow> string list \<Rightarrow> (string \<rightharpoonup> nat) \<Rightarrow> (string \<rightharpoonup> nat)" where
  "number_names i [] m = m"
| "number_names i (s # ss) m = number_names (Suc i) ss (m(s \<mapsto> i))"

definition SpecDef_id :: "string list \<Rightarrow> string \<Rightarrow> nat result" where
  "SpecDef_id names name = of_opt Out_Of_Range (number_names 0 names Map.empty name)"

definition SpecDef_name :: "string list \<Rightarrow> nat \<Rightarrow> string result" where
  "SpecDef_name names i = (if i < length names then Inr (names ! i) else Inl Out_Of_Range)"

fun ImplDef_search :: "nat \<Rightarrow> string list \<Rightarrow> string \<Rightarrow> nat option" where
  "ImplDef_search i [] name = None"
| "ImplDef_search i (s # ss) name = (if s = name then Some i else ImplDef_search (Suc i) ss name)"

definition ImplDef_id :: "string list \<Rightarrow> string \<Rightarrow> nat option" where
  "ImplDef_id names name = ImplDef_search 0 names name"

text \<open>
  A table from names to values, and one from names to names. The map literal lists its
  keys in any order; entries of names that are not listed keep the default value.
\<close>

fun ImplLUT :: "string list \<Rightarrow> 'v \<Rightarrow> (string \<times> 'v) list \<Rightarrow> 'v list option" where
  "ImplLUT keys d [] = Some (replicate (length keys) d)"
| "ImplLUT keys d ((k, v) # kvs) =
     (case (ImplLUT keys d kvs, ImplDef_id keys k) of
        (Some lut, Some i) \<Rightarrow> Some (lut[i := v])
      | _ \<Rightarrow> None)"

fun ImplLUT_names ::
  "string list \<Rightarrow> string list \<Rightarrow> (string \<times> string) list \<Rightarrow> nat list option" where
  "ImplLUT_names keys vals [] = Some (replicate (length keys) 0)"
| "ImplLUT_names keys vals ((k, v) # kvs) =
     (case (ImplLUT_names keys vals kvs, ImplDef_id keys k, ImplDef_id vals v) of
        (Some lut, Some i, Some j) \<Rightarrow> Some (lut[i := j])
      | _ \<Rightarrow> None)"


section \<open>Timing constraints\<close>

record TimingConsEntry =
  tc_cmd :: nat
  tc_val :: int
  tc_window :: int
  tc_sibling :: bool

definition TimingConsEntry_of :: "nat \<Rightarrow> int \<Rightarrow> int \<Rightarrow> bool \<Rightarrow> TimingConsEntry" where
  "TimingConsEntry_of cmd v window sibling =
     \<lparr>tc_cmd = cmd, tc_val = v, tc_window = (if window < 0 then 0 else window), tc_sibling = sibling\<rparr>"

record TimingConsInitializer =
  ti_level :: string
  ti_preceding :: "string list"
  ti_following :: "string list"
  ti_latency :: int
  ti_window :: int
  ti_is_sibling :: bool

type_synonym timing_cons = "TimingConsEntry list list list"

definition push_constraint :: "nat \<Rightarrow> nat \<Rightarrow> TimingConsEntry \<Rightarrow> timing_cons \<Rightarrow> timing_cons" where
  "push_constraint level p_cmd t cons =
     cons[level := (cons ! level)[p_cmd := cons ! level ! p_cmd @ [t]]]"

text \<open>The three nested loops of \<^verbatim>\<open>populate_timingcons\<close>.\<close>

fun populate_following ::
  "string list \<Rightarrow> TimingConsInitializer \<Rightarrow> nat \<Rightarrow> nat \<Rightarrow> string list \<Rightarrow> timing_cons \<Rightarrow> timing_cons option"
where
  "populate_following cmds ts level p_cmd [] cons = Some cons"
| "populate_following cmds ts level p_cmd (f # fs) cons =
     (case ImplDef_id cmds f of
        None \<Rightarrow> None
      | Some f_cmd \<Rightarrow>
          populate_following cmds ts level p_cmd fs
            (push_constraint level p_cmd
               (TimingConsEntry_of f_cmd (ti_latency ts) (ti_window ts) (ti_is_sibling ts)) cons))"

fun populate_preceding ::
  "string list \<Rightarrow> TimingConsInitializer \<Rightarrow> nat \<Rightarrow> string list \<Rightarrow> timing_cons \<Rightarrow> timing_cons option"
where
  "populate_preceding cmds ts level [] cons = Some cons"
| "populate_preceding cmds ts level (p # ps) cons =
     (case ImplDef_id cmds p of
        None \<Rightarrow> None
      | Some p_cmd \<Rightarrow>
          (case populate_following cmds ts level p_cmd (ti_following ts) cons of
             None \<Rightarrow> None
           | Some cons' \<Rightarrow> populate_preceding cmds ts level ps cons'))"

fun populate_loop ::
  "string list \<Rightarrow> string list \<Rightarrow> TimingConsInitializer list \<Rightarrow> timing_cons \<Rightarrow> timing_cons option"
where
  "populate_loop levels cmds [] cons = Some cons"
| "populate_loop levels cmds (ts # tss) cons =
     (case ImplDef_id levels (ti_level ts) of
        None \<Rightarrow> None
      | Some level \<Rightarrow>
          (case populate_preceding cmds ts level (ti_preceding ts) cons of
             None \<Rightarrow> None
           | Some cons' \<Rightarrow> populate_loop levels cmds tss cons'))"

definition populate_timingcons ::
  "string list \<Rightarrow> string list \<Rightarrow> TimingConsInitializer list \<Rightarrow> timing_cons option" where
  "populate_timingcons levels cmds initializer =
     populate_loop levels cmds initializer
       (replicate (length levels) (replicate (length cmds) []))"


section \<open>Power statistics\<close>

text \<open>The statistics of one rank. Energies are exact rationals in place of \<^verbatim>\<open>double\<close>s.\<close>

datatype PowerState = IDLE | ACTIVE | REFRESHING

record PowerStats =
  ps_rank_id :: int
  cur_power_state :: PowerState
  act_background_energy :: rat
  pre_background_energy :: rat
  total_background_energy :: rat
  total_cmd_energy :: rat
  total_energy :: rat
  cmd_counters :: "nat list"
  active_cycles :: int
  idle_cycles :: int
  active_start_cycle :: int
  idle_start_cycle :: int

definition new_PowerStats :: PowerStats where
  "new_PowerStats = \<lparr>ps_rank_id = -1, cur_power_state = IDLE, act_background_energy = 0,
     pre_background_energy = 0, total_background_energy = 0, total_cmd_energy = 0, total_energy = 0,
     cmd_counters = [], active_cycles = 0, idle_cycles = 0, active_start_cycle = -1, idle_start_cycle = 0\<rparr>"


section \<open>Lemmas\<close>

lemma ImplDef_search_Some:
  "ImplDef_search i ss name = Some j \<Longrightarrow> i \<le> j \<and> j < i + length ss \<and> ss ! (j - i) = name"
proof (induction ss arbitrary: i)
  case Nil
  then show ?case by simp
next
  case (Cons s ss)
  show ?case
  proof (cases "s = name")
    case True
    with Cons.prems show ?thesis by simp
  next
    case False
    with Cons.IH [of "Suc i"] Cons.prems have "Suc i \<le> j" "j < Suc i + length ss" "ss ! (j - Suc i) = name"
      by simp_all
    then show ?thesis by (simp add: nth_Cons' Suc_diff_Suc)
  qed
qed

lemma ImplDef_id_Some: "ImplDef_id ss name = Some j \<Longrightarrow> j < length ss \<and> ss ! j = name"
  using ImplDef_search_Some [of 0 ss name j] by (simp add: ImplDef_id_def)

lemma ImplDef_search_nth:
  "distinct ss \<Longrightarrow> j < length ss \<Longrightarrow> ImplDef_search i ss (ss ! j) = Some (i + j)"
  by (induction ss arbitrary: i j) (auto simp: less_Suc_eq_0_disj)

lemma number_names_nth:
  "distinct ss \<Longrightarrow> j < length ss \<Longrightarrow> number_names i ss m (ss ! j) = Some (i + j)"
proof (induction ss arbitrary: i j m)
  case (Cons s ss)
  have other: "number_names i ss m s = m s" if "s \<notin> set ss" for i ss and m :: "string \<rightharpoonup> nat"
    using that by (induction ss arbitrary: i m) auto
  from Cons show ?case by (cases j) (auto simp: other)
qed simp

lemma spec_names_inverse:
  assumes "distinct names" and "i < length names"
  shows "SpecDef_name names i = Inr (names ! i) \<and> SpecDef_id names (names ! i) = Inr i
         \<and> ImplDef_id names (names ! i) = Some i"
  using assms number_names_nth [of names i 0 Map.empty] ImplDef_search_nth [of names i 0]
  by (simp add: SpecDef_name_def SpecDef_id_def ImplDef_id_def)

definition table_shape :: "nat \<Rightarrow> nat \<Rightarrow> 'a list list \<Rightarrow> bool" where
  "table_shape n m xss \<longleftrightarrow> length xss = n \<and> (\<forall>l < n. length (xss ! l) = m)"

definition entry_of :: "TimingConsInitializer \<Rightarrow> nat \<Rightarrow> TimingConsEntry" where
  "entry_of ts f_cmd = TimingConsEntry_of f_cmd (ti_latency ts) (ti_window ts) (ti_is_sibling ts)"

definition ids :: "string list \<Rightarrow> string list \<Rightarrow> nat set" where
  "ids names ss = {i. \<exists>x \<in> set ss. ImplDef_id names x = Some i}"

lemma ids_simps [simp]:
  "ids names [] = {}"
  "ImplDef_id names x = Some i \<Longrightarrow> ids names (x # xs) = insert i (ids names xs)"
  by (auto simp: ids_def)

lemma push_constraint_nth:
  assumes "table_shape n m cons" and "level < n" and "p < m" and "l < n" and "c < m"
  shows "push_constraint level p t cons ! l ! c
           = (if l = level \<and> c = p then cons ! l ! c @ [t] else cons ! l ! c)"
    "table_shape n m (push_constraint level p t cons)"
  using assms by (auto simp: push_constraint_def table_shape_def nth_list_update)

lemma populate_following_set:
  "populate_following cmds ts level p fs cons = Some cons' \<Longrightarrow> table_shape n m cons \<Longrightarrow>
   level < n \<Longrightarrow> p < m \<Longrightarrow>
   table_shape n m cons'
   \<and> (\<forall>l < n. \<forall>c < m. set (cons' ! l ! c) = set (cons ! l ! c)
        \<union> {entry_of ts f |f. l = level \<and> c = p \<and> f \<in> ids cmds fs})"
proof (induction fs arbitrary: cons)
  case Nil
  then show ?case by simp
next
  case (Cons f fs)
  then obtain g where g: "ImplDef_id cmds f = Some g"
    and run: "populate_following cmds ts level p fs (push_constraint level p (entry_of ts g) cons) = Some cons'"
    by (auto simp: entry_of_def split: option.splits)
  note pc = push_constraint_nth [OF Cons.prems(2-4)]
  from Cons.IH [OF run] pc(2) [of 0 0] have "table_shape n m cons'"
    using pc(2) Cons.prems(3,4) by blast
  moreover have "set (cons' ! l ! c) = set (cons ! l ! c)
        \<union> {entry_of ts f' |f'. l = level \<and> c = p \<and> f' \<in> ids cmds (f # fs)}"
    if "l < n" "c < m" for l c
    using Cons.IH [OF run pc(2) [OF that] Cons.prems(3,4)] that pc(1) [OF that, of "entry_of ts g"] g
    by auto
  ultimately show ?case by blast
qed


lemma populate_preceding_set:
  "populate_preceding cmds ts level ps cons = Some cons' \<Longrightarrow> table_shape n (length cmds) cons \<Longrightarrow>
   level < n \<Longrightarrow>
   table_shape n (length cmds) cons'
   \<and> (\<forall>l < n. \<forall>c < length cmds. set (cons' ! l ! c) = set (cons ! l ! c)
        \<union> {entry_of ts f |f. l = level \<and> c \<in> ids cmds ps \<and> f \<in> ids cmds (ti_following ts)})"
proof (induction ps arbitrary: cons)
  case Nil
  then show ?case by simp
next
  case (Cons p ps)
  then obtain p_cmd cons1 where p: "ImplDef_id cmds p = Some p_cmd"
    and f: "populate_following cmds ts level p_cmd (ti_following ts) cons = Some cons1"
    and run: "populate_preceding cmds ts level ps cons1 = Some cons'"
    by (auto split: option.splits)
  have "p_cmd < length cmds" using ImplDef_id_Some [OF p] by simp
  note pf = populate_following_set [OF f Cons.prems(2,3) this]
  then have sh: "table_shape n (length cmds) cons1" by simp
  note ih = Cons.IH [OF run sh Cons.prems(3)]
  have "set (cons' ! l ! c) = set (cons ! l ! c)
        \<union> {entry_of ts f |f. l = level \<and> c \<in> ids cmds (p # ps) \<and> f \<in> ids cmds (ti_following ts)}"
    if "l < n" "c < length cmds" for l c
    using ih pf p that by auto
  with conjunct1 [OF ih] show ?case by (intro conjI allI impI)
qed

lemma populate_loop_set:
  "populate_loop levels cmds tss cons = Some cons' \<Longrightarrow>
   table_shape (length levels) (length cmds) cons \<Longrightarrow>
   table_shape (length levels) (length cmds) cons'
   \<and> (\<forall>l < length levels. \<forall>c < length cmds. set (cons' ! l ! c) = set (cons ! l ! c)
        \<union> {entry_of ts f |ts f. ts \<in> set tss \<and> ImplDef_id levels (ti_level ts) = Some l
             \<and> c \<in> ids cmds (ti_preceding ts) \<and> f \<in> ids cmds (ti_following ts)})"
proof (induction tss arbitrary: cons)
  case Nil
  then show ?case by simp
next
  case (Cons ts tss)
  then obtain level cons1 where lv: "ImplDef_id levels (ti_level ts) = Some level"
    and p: "populate_preceding cmds ts level (ti_preceding ts) cons = Some cons1"
    and run: "populate_loop levels cmds tss cons1 = Some cons'"
    by (auto split: option.splits)
  have "level < length levels" using ImplDef_id_Some [OF lv] by simp
  note pp = populate_preceding_set [OF p Cons.prems(2) this]
  then have sh: "table_shape (length levels) (length cmds) cons1" by simp
  note ih = Cons.IH [OF run sh]
  have "set (cons' ! l ! c) = set (cons ! l ! c)
        \<union> {entry_of ts' f |ts' f. ts' \<in> set (ts # tss) \<and> ImplDef_id levels (ti_level ts') = Some l
             \<and> c \<in> ids cmds (ti_preceding ts') \<and> f \<in> ids cmds (ti_following ts')}"
    if "l < length levels" "c < length cmds" for l c
    using ih pp lv that by auto
  with conjunct1 [OF ih] show ?case by (intro conjI allI impI)
qed

lemma populate_timingcons_set:
  assumes "populate_timingcons levels cmds initializer = Some cons"
    and "l < length levels" and "c < length cmds"
  shows "set (cons ! l ! c) = {entry_of ts f |ts f. ts \<in> set initializer
      \<and> ImplDef_id levels (ti_level ts) = Some l
      \<and> c \<in> ids cmds (ti_preceding ts) \<and> f \<in> ids cmds (ti_following ts)}"
proof -
  let ?empty = "replicate (length levels) (replicate (length cmds) [])"
  have "table_shape (length levels) (length cmds) ?empty" by (simp add: table_shape_def)
  from populate_loop_set [OF _ this] assms(1)
  have "\<forall>l < length levels. \<forall>c < length cmds. set (cons ! l ! c) = set (?empty ! l ! c)
        \<union> {entry_of ts f |ts f. ts \<in> set initializer \<and> ImplDef_id levels (ti_level ts) = Some l
             \<and> c \<in> ids cmds (ti_preceding ts) \<and> f \<in> ids cmds (ti_following ts)}"
    by (simp add: populate_timingcons_def)
  then show ?thesis using assms(2,3) by simp
qed

text \<open>The table exists as soon as all names do.\<close>

definition known :: "string list \<Rightarrow> string \<Rightarrow> bool" where
  "known names n \<longleftrightarrow> ImplDef_id names n \<noteq> None"

definition names_ok :: "string list \<Rightarrow> string list \<Rightarrow> TimingConsInitializer \<Rightarrow> bool" where
  "names_ok levels cmds ts \<longleftrightarrow> known levels (ti_level ts)
     \<and> list_all (known cmds) (ti_preceding ts) \<and> list_all (known cmds) (ti_following ts)"

lemma populate_following_Some:
  "list_all (known cmds) fs \<Longrightarrow> \<exists>cons'. populate_following cmds ts level p fs cons = Some cons'"
  by (induction fs arbitrary: cons) (auto simp: known_def)

lemma populate_preceding_Some:
  assumes "list_all (known cmds) (ti_following ts)"
  shows "list_all (known cmds) ps \<Longrightarrow> \<exists>cons'. populate_preceding cmds ts level ps cons = Some cons'"
proof (induction ps arbitrary: cons)
  case (Cons p ps)
  then obtain p_cmd where p: "ImplDef_id cmds p = Some p_cmd" by (auto simp: known_def)
  obtain cons1 where "populate_following cmds ts level p_cmd (ti_following ts) cons = Some cons1"
    using populate_following_Some [OF assms] by blast
  with p Cons show ?case by simp
qed simp

lemma populate_loop_Some:
  "list_all (names_ok levels cmds) tss \<Longrightarrow> \<exists>cons'. populate_loop levels cmds tss cons = Some cons'"
proof (induction tss arbitrary: cons)
  case (Cons ts tss)
  then obtain level where l: "ImplDef_id levels (ti_level ts) = Some level" by (auto simp: names_ok_def known_def)
  obtain cons1 where "populate_preceding cmds ts level (ti_preceding ts) cons = Some cons1"
    using populate_preceding_Some [of cmds ts "ti_preceding ts" level cons] Cons.prems
    by (auto simp: names_ok_def)
  with l Cons show ?case by simp
qed simp

lemma populate_timingcons_Some:
  "list_all (names_ok levels cmds) tss \<Longrightarrow> \<exists>cons. populate_timingcons levels cmds tss = Some cons"
  using populate_loop_Some by (auto simp: populate_timingcons_def)

text \<open>
  C32. The constraint table holds exactly what the initialisers list: the entries for a
  level and a preceding command are those of the initialisers of that level that name the
  command as preceding, one for each following command.
\<close>

theorem timing_table_exact:
  assumes "populate_timingcons levels cmds initializer = Some cons"
    and "l < length levels" and "c < length cmds"
  shows "t \<in> set (cons ! l ! c) \<longleftrightarrow>
    (\<exists>ts f. ts \<in> set initializer \<and> ImplDef_id levels (ti_level ts) = Some l
       \<and> c \<in> ids cmds (ti_preceding ts) \<and> f \<in> ids cmds (ti_following ts) \<and> t = entry_of ts f)"
  using populate_timingcons_set [OF assms] by auto

definition demo_init :: "TimingConsInitializer list" where
  "demo_init = [\<lparr>ti_level = ''bank'', ti_preceding = [''ACT''], ti_following = [''PRE''],
     ti_latency = 28, ti_window = 1, ti_is_sibling = False\<rparr>]"

theorem timing_table_exact_witness:
  "\<exists>cons. populate_timingcons [''bank''] [''ACT'', ''PRE''] demo_init = Some cons
     \<and> TimingConsEntry_of 1 28 1 False \<in> set (cons ! 0 ! 0)"
proof -
  obtain cons where c: "populate_timingcons [''bank''] [''ACT'', ''PRE''] demo_init = Some cons"
    by (simp add: populate_timingcons_def demo_init_def ImplDef_id_def)
  then have "TimingConsEntry_of 1 28 1 False \<in> set (cons ! 0 ! 0)"
    by (subst timing_table_exact [OF c]) (auto simp: demo_init_def ids_def entry_of_def ImplDef_id_def)
  with c show ?thesis by blast
qed

end
