(* ===== verification/Dram_Node.thy ===== *)
theory Dram_Node
  imports Dram_Spec
begin

text \<open>
  The tree of nodes that models a DRAM device, \<^verbatim>\<open>dram/node.h\<close>: channels, ranks, bank groups
  and banks, each with a state, the cycle from which every command is allowed again, and
  the history of issued commands.

  The nodes live in a store: a node is addressed by the path of its identifiers from its
  channel on, so the node of path \<open>p\<close> is at level \<open>length p - 1\<close>, its identifier is \<open>last p\<close>
  and its children are \<open>p @ [0]\<close>, \<open>p @ [1]\<close> and so on. The functions of a standard (actions,
  prerequisites, row hits) work on the store, as those of the source work through the
  pointers of a node.
\<close>

section \<open>Nodes and specifications\<close>

record node =
  m_state :: nat
  m_cmd_ready_clk :: "int list"
  m_cmd_history :: "int list list"
  m_row_state :: "int \<rightharpoonup> nat"

type_synonym nodes = "nat list \<Rightarrow> node"

type_synonym action_fun = "nodes \<Rightarrow> nat list \<Rightarrow> nat \<Rightarrow> int \<Rightarrow> int \<Rightarrow> nodes"
type_synonym preq_fun = "nodes \<Rightarrow> nat list \<Rightarrow> nat \<Rightarrow> int list \<Rightarrow> int \<Rightarrow> nat option result"
type_synonym rowhit_fun = "nodes \<Rightarrow> nat list \<Rightarrow> nat \<Rightarrow> int \<Rightarrow> int \<Rightarrow> bool result"
type_synonym power_fun = "nodes \<Rightarrow> nat list \<Rightarrow> nat \<Rightarrow> int list \<Rightarrow> int \<Rightarrow> PowerStats list \<Rightarrow> PowerStats list result"

text \<open>
  What the node code reads of a standard. A prerequisite function that returns \<^verbatim>\<open>-1\<close> is one
  that returns \<open>None\<close>.
\<close>

record dram_spec =
  sp_counts :: "int list"
  sp_row_level :: nat
  sp_num_cmds :: nat
  sp_command_scopes :: "nat list"
  sp_init_states :: "nat list"
  sp_timing_cons :: timing_cons
  sp_actions :: "nat \<Rightarrow> nat \<Rightarrow> action_fun option"
  sp_preqs :: "nat \<Rightarrow> nat \<Rightarrow> preq_fun option"
  sp_rowhits :: "nat \<Rightarrow> nat \<Rightarrow> rowhit_fun option"
  sp_rowopens :: "nat \<Rightarrow> nat \<Rightarrow> rowhit_fun option"
  sp_drampower_enable :: bool
  sp_powers :: "nat \<Rightarrow> nat \<Rightarrow> power_fun option"

definition level_of :: "nat list \<Rightarrow> nat" where
  "level_of p = length p - 1"

text \<open>The constructor: the tree ends above the row level.\<close>

definition num_children :: "dram_spec \<Rightarrow> nat list \<Rightarrow> nat" where
  "num_children sp p =
     (if sp_row_level sp \<le> length p then 0 else nat (sp_counts sp ! length p))"

definition history_window :: "TimingConsEntry list \<Rightarrow> int" where
  "history_window ts = foldl (\<lambda>w t. max w (tc_window t)) 0 ts"

definition new_node :: "dram_spec \<Rightarrow> nat \<Rightarrow> node" where
  "new_node sp level =
     \<lparr>m_state = sp_init_states sp ! level,
      m_cmd_ready_clk = replicate (sp_num_cmds sp) (-1),
      m_cmd_history = map (\<lambda>cmd. replicate (nat (history_window (sp_timing_cons sp ! level ! cmd))) (-1))
        [0..<sp_num_cmds sp],
      m_row_state = Map.empty\<rparr>"

definition new_nodes :: "dram_spec \<Rightarrow> nodes" where
  "new_nodes sp p = new_node sp (level_of p)"


section \<open>Loops over children\<close>

fun fold_result :: "('a \<Rightarrow> 's \<Rightarrow> 's result) \<Rightarrow> 'a list \<Rightarrow> 's \<Rightarrow> 's result" where
  "fold_result f [] s = Inr s"
| "fold_result f (x # xs) s = (case f x s of Inl e \<Rightarrow> Inl e | Inr s' \<Rightarrow> fold_result f xs s')"

fun all_result :: "('a \<Rightarrow> bool result) \<Rightarrow> 'a list \<Rightarrow> bool result" where
  "all_result f [] = Inr True"
| "all_result f (x # xs) =
     (case f x of Inl e \<Rightarrow> Inl e | Inr b \<Rightarrow> if b then all_result f xs else Inr False)"

lemma fold_result_cong [fundef_cong]:
  "xs = ys \<Longrightarrow> s = t \<Longrightarrow> (\<And>x s. x \<in> set ys \<Longrightarrow> f x s = g x s) \<Longrightarrow> fold_result f xs s = fold_result g ys t"
proof -
  assume "xs = ys" "s = t" and eq: "\<And>x s. x \<in> set ys \<Longrightarrow> f x s = g x s"
  have "fold_result f ys t = fold_result g ys t"
    using eq by (induction ys arbitrary: t) (auto split: sum.splits)
  then show ?thesis using \<open>xs = ys\<close> \<open>s = t\<close> by simp
qed

lemma all_result_cong [fundef_cong]:
  "xs = ys \<Longrightarrow> (\<And>x. x \<in> set ys \<Longrightarrow> f x = g x) \<Longrightarrow> all_result f xs = all_result g ys"
proof -
  assume "xs = ys" and eq: "\<And>x. x \<in> set ys \<Longrightarrow> f x = g x"
  have "all_result f ys = all_result g ys"
    using eq by (induction ys) (auto split: sum.splits)
  then show ?thesis using \<open>xs = ys\<close> by simp
qed


section \<open>State updates\<close>

function update_states ::
  "dram_spec \<Rightarrow> nat \<Rightarrow> int list \<Rightarrow> int \<Rightarrow> nat list \<Rightarrow> nodes \<Rightarrow> nodes result" where
  "update_states sp command addr_vec clk p s =
     (case vec_at addr_vec (int (length p)) of
        None \<Rightarrow> Inl Out_Of_Bounds
      | Some child_id \<Rightarrow>
          (let s1 = (case sp_actions sp (level_of p) command of
                       None \<Rightarrow> s
                     | Some f \<Rightarrow> f s p command child_id clk)
           in if level_of p = sp_command_scopes sp ! command \<or> num_children sp p = 0 then Inr s1
              else if child_id = -1
              then fold_result (\<lambda>i. update_states sp command addr_vec clk (p @ [i]))
                     [0..<num_children sp p] s1
              else if 0 \<le> child_id \<and> nat child_id < num_children sp p
              then update_states sp command addr_vec clk (p @ [nat child_id]) s1
              else Inl Out_Of_Bounds))"
  by pat_completeness auto
termination
  by (relation "measure (\<lambda>(sp, _, _, _, p, _). sp_row_level sp - length p)")
    (auto simp: num_children_def split: if_splits)

text \<open>The power model sees the nodes as they are before the state update of the command.\<close>

function update_powers ::
  "dram_spec \<Rightarrow> nat \<Rightarrow> int list \<Rightarrow> int \<Rightarrow> nat list \<Rightarrow> nodes \<Rightarrow> PowerStats list \<Rightarrow> PowerStats list result" where
  "update_powers sp command addr_vec clk p s ps =
     (if \<not> sp_drampower_enable sp then Inr ps
      else case vec_at addr_vec (int (length p)) of
        None \<Rightarrow> Inl Out_Of_Bounds
      | Some child_id \<Rightarrow>
          (case (case sp_powers sp (level_of p) command of
                   None \<Rightarrow> Inr ps
                 | Some f \<Rightarrow> f s p command addr_vec clk ps) of
             Inl e \<Rightarrow> Inl e
           | Inr ps1 \<Rightarrow>
               (if level_of p = sp_command_scopes sp ! command \<or> num_children sp p = 0 then Inr ps1
                else if child_id = -1
                then fold_result (\<lambda>i. update_powers sp command addr_vec clk (p @ [i]) s)
                       [0..<num_children sp p] ps1
                else if 0 \<le> child_id \<and> nat child_id < num_children sp p
                then update_powers sp command addr_vec clk (p @ [nat child_id]) s ps1
                else Inl Out_Of_Bounds)))"
  by pat_completeness auto
termination
  by (relation "measure (\<lambda>(sp, _, _, _, p, _). sp_row_level sp - length p)")
    (auto simp: num_children_def split: if_splits)

section \<open>Timing updates\<close>

definition raise_ready :: "nat \<Rightarrow> int \<Rightarrow> int list \<Rightarrow> int list" where
  "raise_ready cmd future ready = ready[cmd := max (ready ! cmd) future]"

text \<open>A command to a sibling only counts for the constraints between siblings.\<close>

fun sibling_timing :: "TimingConsEntry list \<Rightarrow> int \<Rightarrow> int list \<Rightarrow> int list" where
  "sibling_timing [] clk ready = ready"
| "sibling_timing (t # ts) clk ready =
     sibling_timing ts clk
       (if tc_sibling t then raise_ready (tc_cmd t) (clk + tc_val t) ready else ready)"

fun target_timing :: "TimingConsEntry list \<Rightarrow> int list \<Rightarrow> int list \<Rightarrow> int list result" where
  "target_timing [] history ready = Inr ready"
| "target_timing (t # ts) history ready =
     (if tc_sibling t then target_timing ts history ready
      else case vec_at history (tc_window t - 1) of
             None \<Rightarrow> Inl Out_Of_Bounds
           | Some past \<Rightarrow>
               target_timing ts history
                 (if past < 0 then ready else raise_ready (tc_cmd t) (past + tc_val t) ready))"

definition push_history :: "nat \<Rightarrow> int \<Rightarrow> int list list \<Rightarrow> int list list" where
  "push_history command clk hs =
     (if hs ! command = [] then hs else hs[command := clk # butlast (hs ! command)])"

function update_timing ::
  "dram_spec \<Rightarrow> nat \<Rightarrow> int list \<Rightarrow> int \<Rightarrow> nat list \<Rightarrow> nodes \<Rightarrow> nodes result" where
  "update_timing sp command addr_vec clk p s =
     (case vec_at addr_vec (int (level_of p)) of
        None \<Rightarrow> Inl Out_Of_Bounds
      | Some target \<Rightarrow>
          (let cons = sp_timing_cons sp ! level_of p ! command in
           if int (last p) \<noteq> target \<and> target \<noteq> -1
           then Inr (s(p := (s p)\<lparr>m_cmd_ready_clk :=
                       sibling_timing cons clk (m_cmd_ready_clk (s p))\<rparr>))
           else
             (let hs = push_history command clk (m_cmd_history (s p)) in
              case target_timing cons (hs ! command) (m_cmd_ready_clk (s p)) of
                Inl e \<Rightarrow> Inl e
              | Inr ready \<Rightarrow>
                  fold_result (\<lambda>i. update_timing sp command addr_vec clk (p @ [i]))
                    [0..<num_children sp p]
                    (s(p := (s p)\<lparr>m_cmd_history := hs, m_cmd_ready_clk := ready\<rparr>)))))"
  by pat_completeness auto
termination
  by (relation "measure (\<lambda>(sp, _, _, _, p, _). sp_row_level sp - length p)")
    (auto simp: num_children_def split: if_splits)


section \<open>Queries\<close>

function get_preq_command ::
  "dram_spec \<Rightarrow> nat \<Rightarrow> int list \<Rightarrow> int \<Rightarrow> nat list \<Rightarrow> nodes \<Rightarrow> nat result" where
  "get_preq_command sp command addr_vec clk p s =
     (case vec_at addr_vec (int (length p)) of
        None \<Rightarrow> Inl Out_Of_Bounds
      | Some child_id \<Rightarrow>
          (case (case sp_preqs sp (level_of p) command of
                   None \<Rightarrow> Inr None
                 | Some f \<Rightarrow> f s p command addr_vec clk) of
             Inl e \<Rightarrow> Inl e
           | Inr (Some preq_cmd) \<Rightarrow> Inr preq_cmd
           | Inr None \<Rightarrow>
               (if num_children sp p = 0 then Inr command
                else if 0 \<le> child_id \<and> nat child_id < num_children sp p
                then get_preq_command sp command addr_vec clk (p @ [nat child_id]) s
                else Inl Out_Of_Bounds)))"
  by pat_completeness auto
termination
  by (relation "measure (\<lambda>(sp, _, _, _, p, _). sp_row_level sp - length p)")
    (auto simp: num_children_def split: if_splits)

function check_ready ::
  "dram_spec \<Rightarrow> nat \<Rightarrow> int list \<Rightarrow> int \<Rightarrow> nat list \<Rightarrow> nodes \<Rightarrow> bool result" where
  "check_ready sp command addr_vec clk p s =
     (if m_cmd_ready_clk (s p) ! command \<noteq> -1 \<and> clk < m_cmd_ready_clk (s p) ! command
      then Inr False
      else case vec_at addr_vec (int (length p)) of
        None \<Rightarrow> Inl Out_Of_Bounds
      | Some child_id \<Rightarrow>
          (if level_of p = sp_command_scopes sp ! command \<or> num_children sp p = 0 then Inr True
           else if child_id = -1
           then all_result (\<lambda>i. check_ready sp command addr_vec clk (p @ [i]) s)
                  [0..<num_children sp p]
           else if 0 \<le> child_id \<and> nat child_id < num_children sp p
           then check_ready sp command addr_vec clk (p @ [nat child_id]) s
           else Inl Out_Of_Bounds))"
  by pat_completeness auto
termination
  by (relation "measure (\<lambda>(sp, _, _, _, p, _). sp_row_level sp - length p)")
    (auto simp: num_children_def split: if_splits)

text \<open>\<^verbatim>\<open>check_rowbuffer_hit\<close> and \<^verbatim>\<open>check_node_open\<close> only differ in the function table they use.\<close>

function query_nodes ::
  "(nat \<Rightarrow> nat \<Rightarrow> rowhit_fun option) \<Rightarrow> dram_spec \<Rightarrow> nat \<Rightarrow> int list \<Rightarrow> int \<Rightarrow> nat list \<Rightarrow> nodes
   \<Rightarrow> bool result" where
  "query_nodes table sp command addr_vec clk p s =
     (case vec_at addr_vec (int (length p)) of
        None \<Rightarrow> Inl Out_Of_Bounds
      | Some child_id \<Rightarrow>
          (case table (level_of p) command of
             Some f \<Rightarrow> f s p command child_id clk
           | None \<Rightarrow>
               (if num_children sp p = 0 then Inr False
                else if 0 \<le> child_id \<and> nat child_id < num_children sp p
                then query_nodes table sp command addr_vec clk (p @ [nat child_id]) s
                else Inl Out_Of_Bounds)))"
  by pat_completeness auto
termination
  by (relation "measure (\<lambda>(_, sp, _, _, _, p, _). sp_row_level sp - length p)")
    (auto simp: num_children_def split: if_splits)

definition check_rowbuffer_hit ::
  "dram_spec \<Rightarrow> nat \<Rightarrow> int list \<Rightarrow> int \<Rightarrow> nat list \<Rightarrow> nodes \<Rightarrow> bool result" where
  "check_rowbuffer_hit sp = query_nodes (sp_rowhits sp) sp"

definition check_node_open ::
  "dram_spec \<Rightarrow> nat \<Rightarrow> int list \<Rightarrow> int \<Rightarrow> nat list \<Rightarrow> nodes \<Rightarrow> bool result" where
  "check_node_open sp = query_nodes (sp_rowopens sp) sp"

declare update_states.simps [simp del] update_powers.simps [simp del] update_timing.simps [simp del] get_preq_command.simps [simp del]
  check_ready.simps [simp del] query_nodes.simps [simp del]


section \<open>Lemmas on loops\<close>

lemma fold_result_rel:
  assumes "fold_result f xs s = Inr s'" and "\<And>x a b. x \<in> set xs \<Longrightarrow> f x a = Inr b \<Longrightarrow> R a b"
    and "\<And>a. R a a" and "\<And>a b c. R a b \<Longrightarrow> R b c \<Longrightarrow> R a c"
  shows "R s s'"
  using assms(1,2)
proof (induction xs arbitrary: s)
  case Nil
  then show ?case using assms(3) by simp
next
  case (Cons x xs)
  then obtain a where a: "f x s = Inr a" "fold_result f xs a = Inr s'"
    by (auto split: sum.splits)
  have "R s a" by (rule Cons.prems(2) [OF _ a(1)]) simp
  moreover have "\<And>y a b. y \<in> set xs \<Longrightarrow> f y a = Inr b \<Longrightarrow> R a b"
    using Cons.prems(2) by (metis list.set_intros(2))
  then have "R a s'" by (rule Cons.IH [OF a(2)])
  ultimately show ?case by (rule assms(4))
qed

lemma fold_result_split:
  "fold_result f xs s = Inr s' \<Longrightarrow> x \<in> set xs \<Longrightarrow> distinct xs \<Longrightarrow>
   \<exists>ys zs a b. xs = ys @ x # zs \<and> x \<notin> set ys \<and> x \<notin> set zs
     \<and> fold_result f ys s = Inr a \<and> f x a = Inr b \<and> fold_result f zs b = Inr s'"
proof (induction xs arbitrary: s)
  case Nil
  then show ?case by simp
next
  case (Cons y xs)
  obtain c where c: "f y s = Inr c" "fold_result f xs c = Inr s'"
    using Cons.prems(1) by (auto split: sum.splits)
  show ?case
  proof (cases "y = x")
    case True
    with Cons.prems(3) c show ?thesis by (intro exI [of _ "[]"] exI [of _ xs]) auto
  next
    case False
    then have "x \<in> set xs" using Cons.prems(2) by simp
    then obtain ys zs a b where "xs = ys @ x # zs" "x \<notin> set ys" "x \<notin> set zs"
      "fold_result f ys c = Inr a" "f x a = Inr b" "fold_result f zs b = Inr s'"
      using Cons.IH [OF c(2)] Cons.prems(3) by auto
    with False c(1) show ?thesis by (intro exI [of _ "y # ys"] exI [of _ zs]) auto
  qed
qed

lemma all_result_True: "all_result f xs = Inr True \<Longrightarrow> x \<in> set xs \<Longrightarrow> f x = Inr True"
  by (induction xs) (auto split: sum.splits if_splits)


section \<open>Ready clocks never go back\<close>

definition clocks_le :: "int list \<Rightarrow> int list \<Rightarrow> bool" where
  "clocks_le xs ys \<longleftrightarrow> length ys = length xs \<and> (\<forall>c < length xs. xs ! c \<le> ys ! c)"

lemma clocks_le_refl [simp]: "clocks_le xs xs"
  by (simp add: clocks_le_def)

lemma clocks_le_trans: "clocks_le xs ys \<Longrightarrow> clocks_le ys zs \<Longrightarrow> clocks_le xs zs"
  by (fastforce simp: clocks_le_def)

lemma clocks_leD: "clocks_le xs ys \<Longrightarrow> c < length xs \<Longrightarrow> xs ! c \<le> ys ! c"
  by (simp add: clocks_le_def)

lemma raise_ready_le: "clocks_le ready (raise_ready cmd future ready)"
  unfolding clocks_le_def raise_ready_def
proof (intro conjI allI impI)
  fix c assume "c < length ready"
  then show "ready ! c \<le> ready[cmd := max (ready ! cmd) future] ! c" by (cases "c = cmd") auto
qed simp

lemma raise_ready_ge: "cmd < length ready \<Longrightarrow> future \<le> raise_ready cmd future ready ! cmd"
  by (simp add: raise_ready_def)

lemma sibling_timing_le: "clocks_le ready (sibling_timing ts clk ready)"
proof (induction ts arbitrary: ready)
  case (Cons t ts)
  then show ?case using raise_ready_le clocks_le_trans by (cases "tc_sibling t") fastforce+
qed simp

lemma sibling_timing_ge:
  "t \<in> set ts \<Longrightarrow> tc_sibling t \<Longrightarrow> tc_cmd t < length ready \<Longrightarrow>
   clk + tc_val t \<le> sibling_timing ts clk ready ! tc_cmd t"
proof (induction ts arbitrary: ready)
  case (Cons u ts)
  let ?r = "if tc_sibling u then raise_ready (tc_cmd u) (clk + tc_val u) ready else ready"
  have le: "clocks_le ready ?r" using raise_ready_le by simp
  show ?case
  proof (cases "t \<in> set ts")
    case True
    then show ?thesis using Cons.IH [of ?r] Cons.prems le by (simp add: clocks_le_def)
  next
    case False
    then have "clk + tc_val t \<le> ?r ! tc_cmd t" using Cons.prems raise_ready_ge by auto
    also have "\<dots> \<le> sibling_timing ts clk ?r ! tc_cmd t"
      using clocks_leD [OF sibling_timing_le] le Cons.prems(3) by (simp add: clocks_le_def)
    finally show ?thesis by simp
  qed
qed simp

lemma target_timing_le: "target_timing ts h ready = Inr ready' \<Longrightarrow> clocks_le ready ready'"
proof (induction ts arbitrary: ready)
  case (Cons t ts)
  then show ?case
    using raise_ready_le clocks_le_trans by (fastforce split: if_splits option.splits)
qed simp

lemma target_timing_ge:
  "target_timing ts h ready = Inr ready' \<Longrightarrow> t \<in> set ts \<Longrightarrow> \<not> tc_sibling t \<Longrightarrow> tc_cmd t < length ready \<Longrightarrow>
   vec_at h (tc_window t - 1) = Some past \<Longrightarrow> 0 \<le> past \<Longrightarrow> past + tc_val t \<le> ready' ! tc_cmd t"
proof (induction ts arbitrary: ready)
  case (Cons u ts)
  obtain r where r: "target_timing ts h r = Inr ready'" "clocks_le ready r"
    "u = t \<longrightarrow> past + tc_val t \<le> r ! tc_cmd t"
    using Cons.prems raise_ready_le raise_ready_ge
    by (cases "tc_sibling u") (fastforce split: option.splits if_splits)+
  show ?case
  proof (cases "u = t")
    case True
    then have "past + tc_val t \<le> r ! tc_cmd t" using r(3) by simp
    also have "\<dots> \<le> ready' ! tc_cmd t"
      using clocks_leD [OF target_timing_le [OF r(1)]] r(2) Cons.prems(4) by (simp add: clocks_le_def)
    finally show ?thesis .
  next
    case False
    then show ?thesis using Cons.IH [OF r(1)] Cons.prems r(2) by (simp add: clocks_le_def)
  qed
qed simp


text \<open>The two branches of \<^verbatim>\<open>update_timing\<close>.\<close>

lemma update_timing_cases:
  assumes "update_timing sp command addr_vec clk p s = Inr s'"
  obtains (sibling) target where "vec_at addr_vec (int (level_of p)) = Some target"
      "int (last p) \<noteq> target" "target \<noteq> -1"
      "s' = s(p := (s p)\<lparr>m_cmd_ready_clk := sibling_timing (sp_timing_cons sp ! level_of p ! command)
               clk (m_cmd_ready_clk (s p))\<rparr>)"
  | (target) ready where
      "target_timing (sp_timing_cons sp ! level_of p ! command)
         (push_history command clk (m_cmd_history (s p)) ! command) (m_cmd_ready_clk (s p)) = Inr ready"
      "fold_result (\<lambda>i. update_timing sp command addr_vec clk (p @ [i])) [0..<num_children sp p]
         (s(p := (s p)\<lparr>m_cmd_history := push_history command clk (m_cmd_history (s p)),
                         m_cmd_ready_clk := ready\<rparr>)) = Inr s'"
      "vec_at addr_vec (int (level_of p)) \<in> {Some (-1), Some (int (last p))}"
  using assms by (subst (asm) update_timing.simps) (auto simp: Let_def split: option.splits if_splits sum.splits)

lemma child_smaller:
  "i \<in> set [0..<num_children sp p] \<Longrightarrow> sp_row_level sp - length (p @ [i]) < sp_row_level sp - length p"
  by (auto simp: num_children_def split: if_splits)

lemma update_timing_frame:
  "update_timing sp command addr_vec clk p s = Inr s' \<Longrightarrow> \<not> prefix p q \<Longrightarrow> s' q = s q"
proof (induction "sp_row_level sp - length p" arbitrary: p s s' rule: less_induct)
  case less
  from less.prems(1) show ?case
  proof (cases rule: update_timing_cases)
    case (sibling target)
    with less.prems(2) show ?thesis by auto
  next
    case (target ready)
    let ?s = "s(p := (s p)\<lparr>m_cmd_history := push_history command clk (m_cmd_history (s p)),
                         m_cmd_ready_clk := ready\<rparr>)"
    have step: "b q = a q"
      if "i \<in> set [0..<num_children sp p]" "update_timing sp command addr_vec clk (p @ [i]) a = Inr b" for i a b
      using less.hyps [OF child_smaller [OF that(1)] that(2)] less.prems(2) append_prefixD by blast
    have "s' q = ?s q"
      using fold_result_rel [OF target(2), of "\<lambda>a b. b q = a q"] step by auto
    also have "\<dots> = s q" using less.prems(2) by auto
    finally show ?thesis .
  qed
qed

lemma update_timing_le:
  "update_timing sp command addr_vec clk p s = Inr s' \<Longrightarrow>
   clocks_le (m_cmd_ready_clk (s q)) (m_cmd_ready_clk (s' q))"
proof (induction "sp_row_level sp - length p" arbitrary: p s s' rule: less_induct)
  case less
  from less.prems(1) show ?case
  proof (cases rule: update_timing_cases)
    case (sibling target)
    then show ?thesis using sibling_timing_le by simp
  next
    case (target ready)
    let ?s = "s(p := (s p)\<lparr>m_cmd_history := push_history command clk (m_cmd_history (s p)),
                         m_cmd_ready_clk := ready\<rparr>)"
    have step: "clocks_le (m_cmd_ready_clk (a q)) (m_cmd_ready_clk (b q))"
      if "i \<in> set [0..<num_children sp p]" "update_timing sp command addr_vec clk (p @ [i]) a = Inr b" for i a b
      by (rule less.hyps [OF child_smaller [OF that(1)] that(2)])
    have "clocks_le (m_cmd_ready_clk (s q)) (m_cmd_ready_clk (?s q))"
      using target_timing_le [OF target(1)] by simp
    moreover have "clocks_le (m_cmd_ready_clk (?s q)) (m_cmd_ready_clk (s' q))"
      by (rule fold_result_rel [OF target(2), of "\<lambda>a b. clocks_le (m_cmd_ready_clk (a q)) (m_cmd_ready_clk (b q))"])
        (use step clocks_le_trans in auto)
    ultimately show ?thesis by (rule clocks_le_trans)
  qed
qed


section \<open>A command delays the commands its constraints name\<close>

text \<open>The descendants of a node, and the nodes an address vector selects (\<^verbatim>\<open>-1\<close> selects all).\<close>

fun in_tree :: "dram_spec \<Rightarrow> nat list \<Rightarrow> nat list \<Rightarrow> bool" where
  "in_tree sp p [] = True"
| "in_tree sp p (i # r) = (i < num_children sp p \<and> in_tree sp (p @ [i]) r)"

definition selects :: "int list \<Rightarrow> nat \<Rightarrow> nat list \<Rightarrow> bool" where
  "selects addr_vec l q \<longleftrightarrow>
     (\<forall>k. l \<le> k \<and> k < length q \<longrightarrow> vec_at addr_vec (int k) \<in> {Some (-1), Some (int (q ! k))})"

lemma selects_mono: "selects addr_vec l q \<Longrightarrow> l \<le> l' \<Longrightarrow> selects addr_vec l' q"
  by (simp add: selects_def)

lemma selects_head:
  "l < length q \<Longrightarrow> selects addr_vec l q \<longleftrightarrow>
     vec_at addr_vec (int l) \<in> {Some (-1), Some (int (q ! l))} \<and> selects addr_vec (Suc l) q"
  by (simp add: selects_def) (metis Suc_leD Suc_leI le_eq_less_or_eq order_refl)

lemma selects_beyond: "length q \<le> l \<Longrightarrow> selects addr_vec l q"
  by (simp add: selects_def)

lemma fold_children_le:
  assumes "fold_result (\<lambda>i. update_timing sp command addr_vec clk (p @ [i])) is s = Inr s'"
  shows "clocks_le (m_cmd_ready_clk (s q)) (m_cmd_ready_clk (s' q))"
  by (rule fold_result_rel [OF assms, of "\<lambda>a b. clocks_le (m_cmd_ready_clk (a q)) (m_cmd_ready_clk (b q))"])
    (use update_timing_le clocks_le_trans in auto)

lemma fold_children_frame:
  assumes "fold_result (\<lambda>i. update_timing sp command addr_vec clk (p @ [i])) is s = Inr s'"
    and "j \<notin> set is"
  shows "s' (p @ j # r) = s (p @ j # r)"
proof (rule fold_result_rel [OF assms(1), of "\<lambda>a b. b (p @ j # r) = a (p @ j # r)"])
  fix i a b assume "i \<in> set is" "update_timing sp command addr_vec clk (p @ [i]) a = Inr b"
  moreover have "\<not> prefix (p @ [i]) (p @ j # r)" using \<open>i \<in> set is\<close> assms(2) by auto
  ultimately show "b (p @ j # r) = a (p @ j # r)" using update_timing_frame by blast
qed auto

lemma update_timing_target:
  assumes "update_timing sp command addr_vec clk p s = Inr s'" and "p \<noteq> []" and "in_tree sp p r"
    and "selects addr_vec (level_of p) (p @ r)"
    and t: "t \<in> set (sp_timing_cons sp ! level_of (p @ r) ! command)" "\<not> tc_sibling t"
    and cmd: "tc_cmd t < length (m_cmd_ready_clk (s (p @ r)))"
    and past: "vec_at (push_history command clk (m_cmd_history (s (p @ r))) ! command) (tc_window t - 1) = Some past"
      "0 \<le> past"
  shows "past + tc_val t \<le> m_cmd_ready_clk (s' (p @ r)) ! tc_cmd t"
  using assms
proof (induction r arbitrary: p s s')
  case Nil
  from Nil(1) show ?case
  proof (cases rule: update_timing_cases)
    case (sibling target)
    then have "target = -1 \<or> target = int (last p)"
      using Nil(2,4) by (auto simp: selects_def level_of_def last_conv_nth)
    with sibling show ?thesis by simp
  next
    case (target ready)
    have "past + tc_val t \<le> ready ! tc_cmd t"
      using target_timing_ge [OF target(1)] Nil by simp
    also have "\<dots> \<le> m_cmd_ready_clk (s' p) ! tc_cmd t"
      using clocks_leD [OF fold_children_le [OF target(2), of p]] target_timing_le [OF target(1)] Nil(7)
      by (simp add: clocks_le_def)
    finally show ?thesis by simp
  qed
next
  case (Cons i r)
  let ?q = "p @ i # r"
  from Cons(2) show ?case
  proof (cases rule: update_timing_cases)
    case (sibling target)
    then have "target = -1 \<or> target = int (last p)"
      using Cons(3,5) by (auto simp: selects_def level_of_def last_conv_nth nth_append)
    with sibling show ?thesis by simp
  next
    case (target ready)
    let ?s = "s(p := (s p)\<lparr>m_cmd_history := push_history command clk (m_cmd_history (s p)),
                         m_cmd_ready_clk := ready\<rparr>)"
    have "i \<in> set [0..<num_children sp p]" using Cons(4) by simp
    then obtain ys zs a b where sp: "i \<notin> set ys" "i \<notin> set zs"
      "fold_result (\<lambda>i. update_timing sp command addr_vec clk (p @ [i])) ys ?s = Inr a"
      "update_timing sp command addr_vec clk (p @ [i]) a = Inr b"
      "fold_result (\<lambda>i. update_timing sp command addr_vec clk (p @ [i])) zs b = Inr s'"
      using fold_result_split [OF target(2)] by force
    have "a ?q = s ?q" using fold_children_frame [OF sp(3,1), of r] by simp
    moreover have "selects addr_vec (level_of (p @ [i])) ?q"
      using selects_mono [OF Cons(5)] by (simp add: level_of_def)
    ultimately have "past + tc_val t \<le> m_cmd_ready_clk (b ?q) ! tc_cmd t"
      using Cons(1) [OF sp(4)] Cons(4,6-) by simp
    moreover have "s' ?q = b ?q" using fold_children_frame [OF sp(5,2), of r] by simp
    ultimately show ?thesis by simp
  qed
qed


text \<open>The check visits every node the address selects, down to the scope of the command.\<close>

lemma check_ready_clocks:
  assumes "check_ready sp command addr_vec clk p s = Inr True" and "in_tree sp p r" and "p \<noteq> []"
    and "selects addr_vec (length p) (p @ r)"
    and "level_of (p @ r) \<le> sp_command_scopes sp ! command \<or> sp_command_scopes sp ! command < level_of p"
  shows "m_cmd_ready_clk (s (p @ r)) ! command = -1 \<or> m_cmd_ready_clk (s (p @ r)) ! command \<le> clk"
  using assms
proof (induction r arbitrary: p)
  case Nil
  from Nil(1) show ?case by (subst (asm) check_ready.simps) (auto split: if_splits)
next
  case (Cons i r)
  have n: "i < num_children sp p" "in_tree sp (p @ [i]) r" using Cons(3) by auto
  have scope: "level_of p \<noteq> sp_command_scopes sp ! command"
    using Cons(6) by (auto simp: level_of_def) (use Cons(4) in \<open>cases p; simp\<close>)
  have "vec_at addr_vec (int (length p)) \<in> {Some (-1), Some (int i)}"
    using Cons(5) by (auto simp: selects_def)
  then consider "vec_at addr_vec (int (length p)) = Some (-1)" | "vec_at addr_vec (int (length p)) = Some (int i)"
    by blast
  then have "check_ready sp command addr_vec clk (p @ [i]) s = Inr True"
  proof cases
    case 1
    then have "all_result (\<lambda>i. check_ready sp command addr_vec clk (p @ [i]) s) [0..<num_children sp p] = Inr True"
      using Cons(2) n(1) scope check_ready.simps [of sp command addr_vec clk p s] by (simp split: if_splits)
    then show ?thesis by (rule all_result_True) (use n(1) in simp)
  next
    case 2
    then show ?thesis
      using Cons(2) n(1) scope check_ready.simps [of sp command addr_vec clk p s] by (simp split: if_splits)
  qed
  then have "m_cmd_ready_clk (s ((p @ [i]) @ r)) ! command = -1
      \<or> m_cmd_ready_clk (s ((p @ [i]) @ r)) ! command \<le> clk"
  proof (rule Cons.IH [OF _ n(2)])
    show "selects addr_vec (length (p @ [i])) ((p @ [i]) @ r)"
      using selects_mono [OF Cons(5)] by simp
    show "level_of ((p @ [i]) @ r) \<le> sp_command_scopes sp ! command
        \<or> sp_command_scopes sp ! command < level_of (p @ [i])"
      using Cons(6) by (auto simp: level_of_def)
  qed simp
  then show ?case by simp
qed

text \<open>Actions that leave the timing of all nodes alone.\<close>

definition timing_neutral :: "dram_spec \<Rightarrow> bool" where
  "timing_neutral sp \<longleftrightarrow>
     (\<forall>l c f s p cmd i clk q. sp_actions sp l c = Some f \<longrightarrow>
        m_cmd_ready_clk (f s p cmd i clk q) = m_cmd_ready_clk (s q)
        \<and> m_cmd_history (f s p cmd i clk q) = m_cmd_history (s q))"

lemma update_states_timing:
  "timing_neutral sp \<Longrightarrow> update_states sp command addr_vec clk p s = Inr s' \<Longrightarrow>
   m_cmd_ready_clk (s' q) = m_cmd_ready_clk (s q) \<and> m_cmd_history (s' q) = m_cmd_history (s q)"
proof (induction "sp_row_level sp - length p" arbitrary: p s s' rule: less_induct)
  case less
  let ?same = "\<lambda>a b. m_cmd_ready_clk (b q) = m_cmd_ready_clk (a q) \<and> m_cmd_history (b q) = m_cmd_history (a q)"
  obtain child_id where c: "vec_at addr_vec (int (length p)) = Some child_id"
    using less.prems(2) by (subst (asm) update_states.simps) (auto split: option.splits)
  define s1 where "s1 = (case sp_actions sp (level_of p) command of
                       None \<Rightarrow> s | Some f \<Rightarrow> f s p command child_id clk)"
  have same: "?same s s1"
    using less.prems(1) by (auto simp: s1_def timing_neutral_def split: option.splits)
  have step: "?same a b"
    if "i \<in> set [0..<num_children sp p]" "update_states sp command addr_vec clk (p @ [i]) a = Inr b" for i a b
    by (rule less.hyps [OF child_smaller [OF that(1)] less.prems(1) that(2)])
  have run: "(if level_of p = sp_command_scopes sp ! command \<or> num_children sp p = 0 then Inr s1
      else if child_id = -1
      then fold_result (\<lambda>i. update_states sp command addr_vec clk (p @ [i])) [0..<num_children sp p] s1
      else if 0 \<le> child_id \<and> nat child_id < num_children sp p
      then update_states sp command addr_vec clk (p @ [nat child_id]) s1
      else Inl Out_Of_Bounds) = Inr s'"
    using less.prems(2) update_states.simps [of sp command addr_vec clk p s]
    by (simp only: c option.case Let_def s1_def)
  have "?same s1 s'"
  proof (cases "level_of p = sp_command_scopes sp ! command \<or> num_children sp p = 0")
    case True
    with run show ?thesis by simp
  next
    case leaf: False
    show ?thesis
    proof (cases "child_id = -1")
      case True
      with run leaf have "fold_result (\<lambda>i. update_states sp command addr_vec clk (p @ [i]))
          [0..<num_children sp p] s1 = Inr s'" by simp
      then show ?thesis by (rule fold_result_rel [of _ _ _ _ ?same]) (use step in auto)
    next
      case False
      with run leaf have "nat child_id < num_children sp p"
        "update_states sp command addr_vec clk (p @ [nat child_id]) s1 = Inr s'"
        by (simp_all split: if_splits)
      then show ?thesis using step [of "nat child_id"] by simp
    qed
  qed
  with same show ?case by simp
qed


text \<open>Timing updates leave the state of all nodes alone.\<close>

lemma update_timing_states:
  "update_timing sp command addr_vec clk p s = Inr s' \<Longrightarrow>
   m_state (s' q) = m_state (s q) \<and> m_row_state (s' q) = m_row_state (s q)"
proof (induction "sp_row_level sp - length p" arbitrary: p s s' rule: less_induct)
  case less
  let ?same = "\<lambda>a b. m_state (b q) = m_state (a q) \<and> m_row_state (b q) = m_row_state (a q)"
  from less.prems(1) show ?case
  proof (cases rule: update_timing_cases)
    case (sibling target)
    then show ?thesis by simp
  next
    case (target ready)
    let ?s = "s(p := (s p)\<lparr>m_cmd_history := push_history command clk (m_cmd_history (s p)),
                         m_cmd_ready_clk := ready\<rparr>)"
    have step: "?same a b"
      if "i \<in> set [0..<num_children sp p]" "update_timing sp command addr_vec clk (p @ [i]) a = Inr b" for i a b
      by (rule less.hyps [OF child_smaller [OF that(1)] that(2)])
    have "?same ?s s'" by (rule fold_result_rel [OF target(2), of ?same]) (use step in auto)
    then show ?thesis by simp
  qed
qed

section \<open>Runs of the device\<close>

text \<open>Everything a standard does to its nodes: timing and state updates, by any command.\<close>

inductive node_step :: "dram_spec \<Rightarrow> nodes \<Rightarrow> nodes \<Rightarrow> bool" for sp where
  step_timing: "update_timing sp command addr_vec clk p s = Inr s' \<Longrightarrow> node_step sp s s'"
| step_states: "update_states sp command addr_vec clk p s = Inr s' \<Longrightarrow> node_step sp s s'"

lemma node_steps_le:
  "(node_step sp)\<^sup>*\<^sup>* s s' \<Longrightarrow> timing_neutral sp \<Longrightarrow>
   clocks_le (m_cmd_ready_clk (s q)) (m_cmd_ready_clk (s' q))"
proof (induction rule: rtranclp_induct)
  case base
  then show ?case by simp
next
  case (step a b)
  have "clocks_le (m_cmd_ready_clk (a q)) (m_cmd_ready_clk (b q))"
    using step(2) update_timing_le update_states_timing [OF step(4)] by cases fastforce+
  then show ?case using step clocks_le_trans by blast
qed

text \<open>The history of a node has room for the widest window of its constraints.\<close>

definition histories_ok :: "dram_spec \<Rightarrow> nodes \<Rightarrow> bool" where
  "histories_ok sp s \<longleftrightarrow>
     (\<forall>q c. c < sp_num_cmds sp \<longrightarrow>
        length (m_cmd_ready_clk (s q)) = sp_num_cmds sp \<and> length (m_cmd_history (s q)) = sp_num_cmds sp
        \<and> length (m_cmd_history (s q) ! c) = nat (history_window (sp_timing_cons sp ! level_of q ! c)))"

lemma new_nodes_histories: "histories_ok sp (new_nodes sp)"
  by (simp add: histories_ok_def new_nodes_def new_node_def)

lemma history_window_ge: "t \<in> set ts \<Longrightarrow> tc_window t \<le> history_window ts"
proof -
  have mono: "w \<le> foldl (\<lambda>w t. max w (tc_window t)) w ts" for w ts
  proof (induction ts arbitrary: w)
    case (Cons u ts)
    have "w \<le> max w (tc_window u)" by simp
    also have "\<dots> \<le> foldl (\<lambda>w t. max w (tc_window t)) (max w (tc_window u)) ts" by (rule Cons.IH)
    finally show ?case by simp
  qed simp
  have "t \<in> set ts \<Longrightarrow> tc_window t \<le> foldl (\<lambda>w t. max w (tc_window t)) w ts" for w
  proof (induction ts arbitrary: w)
    case (Cons u ts)
    then show ?case using mono [of "max w (tc_window u)" ts] by (cases "t = u") auto
  qed simp
  then show "t \<in> set ts \<Longrightarrow> tc_window t \<le> history_window ts" by (simp add: history_window_def)
qed

lemma push_history_lengths:
  "length (push_history command clk hs) = length hs"
  "length (push_history command clk hs ! c) = length (hs ! c)"
proof -
  show "length (push_history command clk hs) = length hs" by (simp add: push_history_def)
  show "length (push_history command clk hs ! c) = length (hs ! c)"
  proof (cases "c = command \<and> c < length hs")
    case True
    then show ?thesis by (simp add: push_history_def)
  next
    case False
    then have "push_history command clk hs ! c = hs ! c"
      by (cases "command < length hs") (auto simp: push_history_def list_update_beyond)
    then show ?thesis by simp
  qed
qed

lemma update_timing_histories:
  "update_timing sp command addr_vec clk p s = Inr s' \<Longrightarrow>
   length (m_cmd_history (s' q)) = length (m_cmd_history (s q))
   \<and> (\<forall>c. length (m_cmd_history (s' q) ! c) = length (m_cmd_history (s q) ! c))"
proof (induction "sp_row_level sp - length p" arbitrary: p s s' rule: less_induct)
  case less
  let ?same = "\<lambda>a b. length (m_cmd_history (b q)) = length (m_cmd_history (a q))
      \<and> (\<forall>c. length (m_cmd_history (b q) ! c) = length (m_cmd_history (a q) ! c))"
  from less.prems(1) show ?case
  proof (cases rule: update_timing_cases)
    case (sibling target)
    then show ?thesis by simp
  next
    case (target ready)
    let ?s = "s(p := (s p)\<lparr>m_cmd_history := push_history command clk (m_cmd_history (s p)),
                         m_cmd_ready_clk := ready\<rparr>)"
    have step: "?same a b"
      if "i \<in> set [0..<num_children sp p]" "update_timing sp command addr_vec clk (p @ [i]) a = Inr b" for i a b
      by (rule less.hyps [OF child_smaller [OF that(1)] that(2)])
    have "?same ?s s'" by (rule fold_result_rel [OF target(2), of ?same]) (use step in auto)
    moreover have "?same s ?s" by (simp add: push_history_lengths)
    ultimately show ?thesis by simp
  qed
qed

lemma node_steps_histories:
  assumes "(node_step sp)\<^sup>*\<^sup>* s s'" and "timing_neutral sp" and "histories_ok sp s"
  shows "histories_ok sp s'"
  using assms
proof (induction rule: rtranclp_induct)
  case (step a b)
  have "length (m_cmd_history (b q)) = length (m_cmd_history (a q))
      \<and> (\<forall>c. length (m_cmd_history (b q) ! c) = length (m_cmd_history (a q) ! c))
      \<and> length (m_cmd_ready_clk (b q)) = length (m_cmd_ready_clk (a q))" for q
    using step(2)
  proof cases
    case (step_timing command addr_vec clk p)
    then show ?thesis using update_timing_histories update_timing_le [of _ _ _ _ _ _ _ q] by (simp add: clocks_le_def)
  next
    case (step_states command addr_vec clk p)
    then show ?thesis using update_states_timing [OF step(4)] by simp
  qed
  with step show ?case by (simp add: histories_ok_def)
qed simp

text \<open>A command enters the history of exactly the nodes its address selects.\<close>

lemma update_timing_history:
  assumes "update_timing sp command addr_vec clk p s = Inr s'" and "p \<noteq> []" and "in_tree sp p r"
  shows "m_cmd_history (s' (p @ r)) = (if selects addr_vec (level_of p) (p @ r)
     then push_history command clk (m_cmd_history (s (p @ r))) else m_cmd_history (s (p @ r)))"
  using assms
proof (induction r arbitrary: p s s')
  case Nil
  have last: "last p = p ! level_of p" "level_of p < length p"
    using Nil(2) by (simp_all add: level_of_def last_conv_nth)
  from Nil(1) show ?case
  proof (cases rule: update_timing_cases)
    case (sibling target)
    then have "\<not> selects addr_vec (level_of p) p" using last by (auto simp: selects_def)
    with sibling show ?thesis by simp
  next
    case (target ready)
    have "selects addr_vec (level_of p) p"
      using target(3) last selects_head [OF last(2)] selects_beyond by (auto simp: level_of_def)
    moreover have "s' p = (s(p := (s p)\<lparr>m_cmd_history := push_history command clk (m_cmd_history (s p)),
                         m_cmd_ready_clk := ready\<rparr>)) p"
      by (rule fold_result_rel [OF target(2), of "\<lambda>a b. b p = a p"])
        (use update_timing_frame in fastforce)+
    ultimately show ?thesis by simp
  qed
next
  case (Cons i r)
  let ?q = "p @ i # r"
  have last: "last p = p ! level_of p" "level_of p < length p" "p ! level_of p = ?q ! level_of p"
    using Cons(3) by (simp_all add: level_of_def last_conv_nth nth_append)
  from Cons(2) show ?case
  proof (cases rule: update_timing_cases)
    case (sibling target)
    then have "\<not> selects addr_vec (level_of p) ?q" using last by (auto simp: selects_def)
    with sibling show ?thesis by simp
  next
    case (target ready)
    let ?s = "s(p := (s p)\<lparr>m_cmd_history := push_history command clk (m_cmd_history (s p)),
                         m_cmd_ready_clk := ready\<rparr>)"
    have head: "vec_at addr_vec (int (level_of p)) \<in> {Some (-1), Some (int (?q ! level_of p))}"
      using target(3) last by simp
    have "i \<in> set [0..<num_children sp p]" using Cons(4) by simp
    then obtain ys zs a b where sp: "i \<notin> set ys" "i \<notin> set zs"
      "fold_result (\<lambda>i. update_timing sp command addr_vec clk (p @ [i])) ys ?s = Inr a"
      "update_timing sp command addr_vec clk (p @ [i]) a = Inr b"
      "fold_result (\<lambda>i. update_timing sp command addr_vec clk (p @ [i])) zs b = Inr s'"
      using fold_result_split [OF target(2)] by force
    have "a ?q = s ?q" "s' ?q = b ?q"
      using fold_children_frame [OF sp(3,1), of r] fold_children_frame [OF sp(5,2), of r] by simp_all
    moreover have "selects addr_vec (level_of (p @ [i])) ?q \<longleftrightarrow> selects addr_vec (level_of p) ?q"
      using head selects_head [of "level_of p" ?q] Cons(3) by (auto simp: level_of_def)
    ultimately show ?thesis using Cons.IH [OF sp(4)] Cons(4) by simp
  qed
qed

text \<open>
  The runs of a device from power-up, with the trace of the commands issued so far, the latest first: a
  command updates the timing of the tree of its channel, and states are updated in between.
\<close>

type_synonym issued = "nat \<times> int list \<times> nat \<times> int"

inductive device_run :: "dram_spec \<Rightarrow> issued list \<Rightarrow> nodes \<Rightarrow> bool" for sp where
  run_start: "device_run sp [] (new_nodes sp)"
| run_issue: "device_run sp trace s \<Longrightarrow> update_timing sp command addr_vec clk [ch] s = Inr s' \<Longrightarrow>
     device_run sp ((command, addr_vec, ch, clk) # trace) s'"
| run_states: "device_run sp trace s \<Longrightarrow> update_states sp command addr_vec clk p s = Inr s' \<Longrightarrow>
     device_run sp trace s'"

fun issue_times :: "nat list \<Rightarrow> nat \<Rightarrow> issued list \<Rightarrow> int list" where
  "issue_times q c [] = []"
| "issue_times q c ((c', addr_vec, ch, clk) # trace) =
     (if c' = c \<and> [ch] = take 1 q \<and> selects addr_vec 0 q then clk # issue_times q c trace
      else issue_times q c trace)"

definition history_of :: "nat \<Rightarrow> int list \<Rightarrow> int list" where
  "history_of n ts = take n (ts @ replicate n (-1))"

lemma history_of_push: "0 < n \<Longrightarrow> clk # butlast (history_of n ts) = history_of n (clk # ts)"
proof (cases n)
  case (Suc m)
  have "butlast (history_of n ts) = take m (ts @ replicate n (-1))"
    using Suc by (simp add: history_of_def butlast_take del: take_append)
  with Suc show ?thesis by (simp add: history_of_def min_def)
qed simp

lemma history_of_nth: "j < n \<Longrightarrow> j < length ts \<Longrightarrow> history_of n ts ! j = ts ! j"
  by (simp add: history_of_def nth_append)

text \<open>
  The state of a run: the history of every node holds the latest issues at that node, and
  every constraint whose window is full has been charged to the command it names.
\<close>

definition charged :: "dram_spec \<Rightarrow> int list \<Rightarrow> int list \<Rightarrow> TimingConsEntry \<Rightarrow> bool" where
  "charged sp ts ready t \<longleftrightarrow>
     (\<not> tc_sibling t \<and> tc_cmd t < sp_num_cmds sp \<and> 1 \<le> tc_window t \<and> nat (tc_window t) \<le> length ts
      \<and> 0 \<le> ts ! nat (tc_window t - 1) \<longrightarrow> ts ! nat (tc_window t - 1) + tc_val t \<le> ready ! tc_cmd t)"

definition node_ok :: "dram_spec \<Rightarrow> issued list \<Rightarrow> nodes \<Rightarrow> nat list \<Rightarrow> nat \<Rightarrow> bool" where
  "node_ok sp trace s q c \<longleftrightarrow>
     m_cmd_history (s q) ! c =
       history_of (nat (history_window (sp_timing_cons sp ! level_of q ! c))) (issue_times q c trace)
     \<and> (\<forall>t \<in> set (sp_timing_cons sp ! level_of q ! c).
          charged sp (issue_times q c trace) (m_cmd_ready_clk (s q)) t)"

definition run_ok :: "dram_spec \<Rightarrow> issued list \<Rightarrow> nodes \<Rightarrow> bool" where
  "run_ok sp trace s \<longleftrightarrow> histories_ok sp s
     \<and> (\<forall>ch r c. in_tree sp [ch] r \<and> c < sp_num_cmds sp \<longrightarrow> node_ok sp trace s (ch # r) c)"

lemma node_ok_selected:
  assumes ok: "node_ok sp trace s (ch # r) c" and tree: "in_tree sp [ch] r" and c: "c < sp_num_cmds sp"
    and upd: "update_timing sp c addr_vec clk [ch] s = Inr s'" and sel: "selects addr_vec 0 (ch # r)"
    and lens: "length (m_cmd_ready_clk (s (ch # r))) = sp_num_cmds sp"
      "length (m_cmd_history (s (ch # r))) = sp_num_cmds sp"
  shows "node_ok sp ((c, addr_vec, ch, clk) # trace) s' (ch # r) c"
proof -
  let ?q = "ch # r"
  let ?ts = "clk # issue_times ?q c trace"
  define n where "n = nat (history_window (sp_timing_cons sp ! length r ! c))"
  have hist: "m_cmd_history (s' ?q) = push_history c clk (m_cmd_history (s ?q))"
    using update_timing_history [OF upd, of r] tree sel by (simp add: level_of_def)
  have "m_cmd_history (s ?q) ! c = history_of n (issue_times ?q c trace)"
    using ok by (simp add: node_ok_def n_def level_of_def)
  then have new: "push_history c clk (m_cmd_history (s ?q)) ! c = history_of n ?ts"
    using c lens history_of_push [of n clk "issue_times ?q c trace"]
    by (cases n) (auto simp: push_history_def history_of_def)
  have "charged sp ?ts (m_cmd_ready_clk (s' ?q)) t" if t: "t \<in> set (sp_timing_cons sp ! length r ! c)" for t
    unfolding charged_def
  proof (intro impI, elim conjE)
    assume t': "\<not> tc_sibling t" "tc_cmd t < sp_num_cmds sp" "1 \<le> tc_window t" "nat (tc_window t) \<le> length ?ts"
      "0 \<le> ?ts ! nat (tc_window t - 1)"
    have w: "nat (tc_window t - 1) < n" "nat (tc_window t - 1) < length ?ts"
      using history_window_ge [OF t] t'(3,4) n_def by linarith+
    then have "vec_at (push_history c clk (m_cmd_history (s ?q)) ! c) (tc_window t - 1)
        = Some (?ts ! nat (tc_window t - 1))"
      using t'(3) history_of_nth [OF w] by (simp add: new vec_at_def history_of_def)
    then show "?ts ! nat (tc_window t - 1) + tc_val t \<le> m_cmd_ready_clk (s' ?q) ! tc_cmd t"
      using update_timing_target [OF upd, of r t] sel tree t t' lens by (simp add: level_of_def)
  qed
  with hist new sel show ?thesis by (simp add: node_ok_def n_def level_of_def)
qed

lemma node_ok_unselected:
  assumes ok: "node_ok sp trace s (ch' # r) c" and tree: "in_tree sp [ch'] r"
    and upd: "update_timing sp command addr_vec clk [ch] s = Inr s'"
    and other: "\<not> (command = c \<and> ch = ch' \<and> selects addr_vec 0 (ch' # r))"
    and len: "length (m_cmd_ready_clk (s (ch' # r))) = sp_num_cmds sp"
  shows "node_ok sp ((command, addr_vec, ch, clk) # trace) s' (ch' # r) c"
proof -
  let ?q = "ch' # r"
  have times: "issue_times ?q c ((command, addr_vec, ch, clk) # trace) = issue_times ?q c trace"
    using other by auto
  have hist: "m_cmd_history (s' ?q) ! c = m_cmd_history (s ?q) ! c"
  proof (cases "ch = ch'")
    case True
    then show ?thesis
      using update_timing_history [OF upd, of r] tree other by (auto simp: level_of_def push_history_def)
  next
    case False
    then show ?thesis using update_timing_frame [OF upd, of ?q] by simp
  qed
  have "charged sp (issue_times ?q c trace) (m_cmd_ready_clk (s' ?q)) t"
    if "charged sp (issue_times ?q c trace) (m_cmd_ready_clk (s ?q)) t" for t
    using that clocks_leD [OF update_timing_le [OF upd, of ?q], of "tc_cmd t"] len by (auto simp: charged_def)
  with ok hist times show ?thesis by (simp add: node_ok_def)
qed

lemma run_ok_step:
  assumes "run_ok sp trace s" and "update_timing sp command addr_vec clk [ch] s = Inr s'" and "timing_neutral sp"
  shows "run_ok sp ((command, addr_vec, ch, clk) # trace) s'"
proof -
  have ok: "histories_ok sp s" using assms(1) by (simp add: run_ok_def)
  have "node_ok sp ((command, addr_vec, ch, clk) # trace) s' (ch' # r) c"
    if tree: "in_tree sp [ch'] r" and c: "c < sp_num_cmds sp" for ch' r c
  proof (cases "command = c \<and> ch = ch' \<and> selects addr_vec 0 (ch' # r)")
    case True
    then show ?thesis
      using node_ok_selected [of sp trace s ch' r c addr_vec clk s'] assms(1,2) that ok
      by (auto simp: run_ok_def histories_ok_def)
  next
    case False
    then show ?thesis
      using node_ok_unselected [OF _ tree assms(2) False] assms(1) that ok
      by (auto simp: run_ok_def histories_ok_def)
  qed
  moreover have "histories_ok sp s'"
    using node_steps_histories [OF _ assms(3) ok] step_timing [OF assms(2)] by blast
  ultimately show ?thesis by (simp add: run_ok_def)
qed

lemma device_run_ok:
  assumes "device_run sp trace s" and "timing_neutral sp"
  shows "run_ok sp trace s"
  using assms
proof (induction rule: device_run.induct)
  case run_start
  then show ?case
    by (simp add: run_ok_def node_ok_def charged_def new_nodes_histories history_of_def)
      (simp add: new_nodes_def new_node_def)
next
  case (run_issue trace s command addr_vec clk ch s')
  then show ?case by (blast intro: run_ok_step)
next
  case (run_states trace s command addr_vec clk p s')
  have "histories_ok sp s'"
    using node_steps_histories [OF _ run_states.prems] step_states [OF run_states(2)] run_states(3,4)
    by (auto simp: run_ok_def)
  then show ?case using run_states update_states_timing [OF run_states.prems run_states(2)]
    by (simp add: run_ok_def node_ok_def)
qed


lemma update_timing_charges:
  assumes "histories_ok sp s" and "update_timing sp c addr_vec clk [ch] s = Inr s'"
    and "in_tree sp [ch] r" and "selects addr_vec 0 (ch # r)" and "c < sp_num_cmds sp" and "0 \<le> clk"
    and t: "t \<in> set (sp_timing_cons sp ! length r ! c)" "\<not> tc_sibling t" "tc_window t = 1" "tc_cmd t < sp_num_cmds sp"
  shows "clk + tc_val t \<le> m_cmd_ready_clk (s' (ch # r)) ! tc_cmd t"
proof -
  let ?q = "ch # r"
  have lens: "length (m_cmd_ready_clk (s ?q)) = sp_num_cmds sp" "length (m_cmd_history (s ?q)) = sp_num_cmds sp"
    and hist: "length (m_cmd_history (s ?q) ! c) = nat (history_window (sp_timing_cons sp ! length r ! c))"
    using assms(1,5) by (auto simp: histories_ok_def level_of_def)
  have "m_cmd_history (s ?q) ! c \<noteq> []" using hist history_window_ge [OF t(1)] t(3) by auto
  then have "vec_at (push_history c clk (m_cmd_history (s ?q)) ! c) (tc_window t - 1) = Some clk"
    using lens(2) assms(5) t(3) by (simp add: push_history_def vec_at_def)
  then show ?thesis
    using update_timing_target [OF assms(2), of r t clk] assms t lens(1) by (simp add: level_of_def)
qed

lemma window_respected:
  assumes run: "device_run sp trace s" and neutral: "timing_neutral sp"
    and node: "in_tree sp [ch] r" "c < sp_num_cmds sp"
    and t: "t \<in> set (sp_timing_cons sp ! length r ! c)" "\<not> tc_sibling t" "tc_cmd t < sp_num_cmds sp"
      "0 \<le> tc_val t" "tc_window t = int w" "1 \<le> w"
    and past: "w \<le> length (issue_times (ch # r) c trace)" "0 \<le> issue_times (ch # r) c trace ! (w - 1)"
    and ready: "check_ready sp (tc_cmd t) addr_vec clk [ch] s = Inr True"
      "selects addr_vec 1 (ch # r)" "length r \<le> sp_command_scopes sp ! tc_cmd t"
  shows "issue_times (ch # r) c trace ! (w - 1) + tc_val t \<le> clk"
proof -
  have w: "nat (tc_window t) = w" "nat (tc_window t - 1) = w - 1" "1 \<le> tc_window t" using t(5,6) by simp_all
  have "charged sp (issue_times (ch # r) c trace) (m_cmd_ready_clk (s (ch # r))) t"
    using device_run_ok [OF run neutral] node t(1) by (simp add: run_ok_def node_ok_def level_of_def)
  then have "issue_times (ch # r) c trace ! (w - 1) + tc_val t \<le> m_cmd_ready_clk (s (ch # r)) ! tc_cmd t"
    unfolding charged_def w using t(2,3) w(3) past by blast
  moreover have "m_cmd_ready_clk (s (ch # r)) ! tc_cmd t = -1 \<or> m_cmd_ready_clk (s (ch # r)) ! tc_cmd t \<le> clk"
    using check_ready_clocks [OF ready(1), of r] node(1) ready(2,3) by (simp add: level_of_def)
  ultimately show ?thesis using past(2) t(4) by linarith
qed


text \<open>A bank alone, whose only command may be issued twice in any sixteen cycles.\<close>

definition window_demo :: dram_spec where
  "window_demo = \<lparr>sp_counts = [1, 1], sp_row_level = 1, sp_num_cmds = 1, sp_command_scopes = [0],
     sp_init_states = [0],
     sp_timing_cons = [[[\<lparr>tc_cmd = 0, tc_val = 16, tc_window = 2, tc_sibling = False\<rparr>]]],
     sp_actions = (\<lambda>_ _. None), sp_preqs = (\<lambda>_ _. None), sp_rowhits = (\<lambda>_ _. None),
     sp_rowopens = (\<lambda>_ _. None), sp_drampower_enable = False, sp_powers = (\<lambda>_ _. None)\<rparr>"


end
