(* ===== verification/Lambdas.thy ===== *)
theory Lambdas
  imports Dram_Node
begin

text \<open>
  The functions of \<^verbatim>\<open>dram/lambdas/\<close> that the standards put into their tables: what a command
  does to the state of banks (\<^verbatim>\<open>action.h\<close>), which command a command needs first (\<^verbatim>\<open>preq.h\<close>),
  and the row buffer queries (\<^verbatim>\<open>rowhit.h\<close>, \<^verbatim>\<open>rowopen.h\<close>). The template parameter of the source is
  the record of the name definitions of the standard; the child nodes a function walks over
  are given by the organization of the standard.
\<close>

section \<open>The template parameter\<close>

record standard =
  std_levels :: "string list"
  std_commands :: "string list"
  std_states :: "string list"

definition name_id :: "string list \<Rightarrow> string \<Rightarrow> nat" where
  "name_id names n = (case ImplDef_id names n of Some i \<Rightarrow> i | None \<Rightarrow> length names)"

abbreviation st_opened :: "standard \<Rightarrow> nat" where
  "st_opened T \<equiv> name_id (std_states T) ''Opened''"

abbreviation st_closed :: "standard \<Rightarrow> nat" where
  "st_closed T \<equiv> name_id (std_states T) ''Closed''"

abbreviation st_refreshing :: "standard \<Rightarrow> nat" where
  "st_refreshing T \<equiv> name_id (std_states T) ''Refreshing''"

abbreviation level_id :: "standard \<Rightarrow> string \<Rightarrow> nat" where
  "level_id T n \<equiv> name_id (std_levels T) n"

abbreviation cmd_id :: "standard \<Rightarrow> string \<Rightarrow> nat" where
  "cmd_id T n \<equiv> name_id (std_commands T) n"

text \<open>The descendants \<open>d\<close> levels below a node, in the order the nested loops visit them.\<close>

fun descendants :: "(nat list \<Rightarrow> nat) \<Rightarrow> nat \<Rightarrow> nat list \<Rightarrow> nat list list" where
  "descendants kids 0 p = [p]"
| "descendants kids (Suc d) p = concat (map (\<lambda>i. descendants kids d (p @ [i])) [0..<kids p])"

definition update_nodes :: "(node \<Rightarrow> node) \<Rightarrow> nat list list \<Rightarrow> nodes \<Rightarrow> nodes" where
  "update_nodes f qs s = fold (\<lambda>q s. s(q := f (s q))) qs s"


section \<open>Actions\<close>

definition Bank_ACT :: "standard \<Rightarrow> action_fun" where
  "Bank_ACT T s p cmd target_id clk =
     s(p := (s p)\<lparr>m_state := st_opened T, m_row_state := (m_row_state (s p))(target_id \<mapsto> st_opened T)\<rparr>)"

definition close_bank :: "standard \<Rightarrow> node \<Rightarrow> node" where
  "close_bank T n = n\<lparr>m_state := st_closed T, m_row_state := Map.empty\<rparr>"

definition Bank_PRE :: "standard \<Rightarrow> action_fun" where
  "Bank_PRE T s p cmd target_id clk = s(p := close_bank T (s p))"

definition Bank_VRR :: "standard \<Rightarrow> action_fun" where
  "Bank_VRR T s p cmd target_id clk = s(p := (s p)\<lparr>m_state := st_refreshing T\<rparr>)"

definition Bank_VRR_end :: "standard \<Rightarrow> action_fun" where
  "Bank_VRR_end T s p cmd target_id clk = s(p := (s p)\<lparr>m_state := st_closed T\<rparr>)"

definition matching_banks :: "(nat list \<Rightarrow> nat) \<Rightarrow> nat list \<Rightarrow> int \<Rightarrow> nat list list" where
  "matching_banks kids p target_id = filter (\<lambda>q. int (last q) = target_id) (descendants kids 1 p)"

definition BankGroup_PREsb :: "standard \<Rightarrow> (nat list \<Rightarrow> nat) \<Rightarrow> action_fun" where
  "BankGroup_PREsb T kids s p cmd target_id clk =
     update_nodes (close_bank T) (matching_banks kids p target_id) s"

definition BankGroup_REFsb :: "standard \<Rightarrow> (nat list \<Rightarrow> nat) \<Rightarrow> action_fun" where
  "BankGroup_REFsb T kids s p cmd target_id clk =
     update_nodes (\<lambda>n. n\<lparr>m_state := st_refreshing T\<rparr>) (matching_banks kids p target_id) s"

definition BankGroup_REFsb_end :: "standard \<Rightarrow> (nat list \<Rightarrow> nat) \<Rightarrow> action_fun" where
  "BankGroup_REFsb_end T kids s p cmd target_id clk =
     update_nodes (close_bank T) (matching_banks kids p target_id) s"

definition Rank_PREab :: "standard \<Rightarrow> (nat list \<Rightarrow> nat) \<Rightarrow> action_fun" where
  "Rank_PREab T kids s p cmd target_id clk =
     update_nodes (close_bank T) (descendants kids (level_id T ''bank'' - level_id T ''rank'') p) s"

definition Rank_REFab :: "standard \<Rightarrow> (nat list \<Rightarrow> nat) \<Rightarrow> action_fun" where
  "Rank_REFab T kids s p cmd target_id clk =
     update_nodes (\<lambda>n. n\<lparr>m_state := st_refreshing T\<rparr>) (descendants kids 2 p) s"

definition Rank_REFab_end :: "standard \<Rightarrow> (nat list \<Rightarrow> nat) \<Rightarrow> action_fun" where
  "Rank_REFab_end T kids s p cmd target_id clk =
     update_nodes (\<lambda>n. n\<lparr>m_state := st_closed T\<rparr>) (descendants kids 2 p) s"

definition Channel_PREab :: "standard \<Rightarrow> (nat list \<Rightarrow> nat) \<Rightarrow> action_fun" where
  "Channel_PREab T kids s p cmd target_id clk =
     update_nodes (close_bank T) (descendants kids (level_id T ''bank'' - level_id T ''channel'') p) s"


section \<open>Prerequisites\<close>

definition RequireRowOpen :: "standard \<Rightarrow> preq_fun" where
  "RequireRowOpen T s p cmd addr_vec clk =
     (if m_state (s p) = st_closed T then Inr (Some (cmd_id T ''ACT''))
      else if m_state (s p) = st_opened T
      then (case vec_at addr_vec (int (level_id T ''row'')) of
              None \<Rightarrow> Inl Out_Of_Bounds
            | Some row \<Rightarrow> Inr (Some (if m_row_state (s p) row \<noteq> None then cmd else cmd_id T ''PRE'')))
      else if m_state (s p) = st_refreshing T then Inr (Some (cmd_id T ''ACT''))
      else Inl Exit_Process)"

definition RequireBankClosed :: "standard \<Rightarrow> preq_fun" where
  "RequireBankClosed T s p cmd addr_vec clk =
     (if m_state (s p) = st_closed T then Inr (Some cmd)
      else if m_state (s p) = st_opened T then Inr (Some (cmd_id T ''PRE''))
      else if m_state (s p) = st_refreshing T then Inr (Some cmd)
      else Inl Exit_Process)"

fun rank_banks_closed :: "standard \<Rightarrow> nodes \<Rightarrow> nat \<Rightarrow> nat list list \<Rightarrow> nat" where
  "rank_banks_closed T s cmd [] = cmd"
| "rank_banks_closed T s cmd (q # qs) =
     (if m_state (s q) = st_closed T then rank_banks_closed T s cmd qs
      else if m_state (s q) = st_refreshing T then cmd
      else cmd_id T ''PREA'')"

definition Rank_RequireAllBanksClosed :: "standard \<Rightarrow> (nat list \<Rightarrow> nat) \<Rightarrow> preq_fun" where
  "Rank_RequireAllBanksClosed T kids s p cmd addr_vec clk =
     Inr (Some (rank_banks_closed T s cmd
       (descendants kids (level_id T ''bank'' - level_id T ''rank'') p)))"

definition RequireSameBanksClosed :: "standard \<Rightarrow> (nat list \<Rightarrow> nat) \<Rightarrow> preq_fun" where
  "RequireSameBanksClosed T kids s p cmd addr_vec clk =
     (case vec_at addr_vec (int (level_id T ''bank'')) of
        None \<Rightarrow> Inl Out_Of_Bounds
      | Some b \<Rightarrow>
          Inr (Some (if list_all (\<lambda>q. int (last q) = b \<longrightarrow>
                            m_state (s q) = st_closed T \<or> m_state (s q) = st_refreshing T)
                          (descendants kids 2 p)
                     then cmd else cmd_id T ''PREsb'')))"

fun channel_banks_closed :: "standard \<Rightarrow> nodes \<Rightarrow> nat \<Rightarrow> nat list list \<Rightarrow> nat" where
  "channel_banks_closed T s cmd [] = cmd"
| "channel_banks_closed T s cmd (q # qs) =
     (if m_state (s q) = st_closed T then channel_banks_closed T s cmd qs else cmd_id T ''PREA'')"

definition Channel_RequireAllBanksClosed :: "standard \<Rightarrow> (nat list \<Rightarrow> nat) \<Rightarrow> preq_fun" where
  "Channel_RequireAllBanksClosed T kids s p cmd addr_vec clk =
     Inr (Some (channel_banks_closed T s cmd
       (descendants kids (level_id T ''bank'' - level_id T ''channel'') p)))"


section \<open>Row buffer queries\<close>

definition RowHit_RDWR :: "standard \<Rightarrow> rowhit_fun" where
  "RowHit_RDWR T s p cmd target_id clk =
     (if m_state (s p) = st_closed T then Inr False
      else if m_state (s p) = st_opened T then Inr (m_row_state (s p) target_id \<noteq> None)
      else if m_state (s p) = st_refreshing T then Inr False
      else Inl Exit_Process)"

definition RowOpen_RDWR :: "standard \<Rightarrow> rowhit_fun" where
  "RowOpen_RDWR T s p cmd target_id clk =
     (if m_state (s p) = st_closed T then Inr False
      else if m_state (s p) = st_opened T then Inr True
      else if m_state (s p) = st_refreshing T then Inr False
      else Inl Exit_Process)"


section \<open>Lemmas\<close>

lemma descendants_prefix: "q \<in> set (descendants kids d p) \<Longrightarrow> \<exists>r. q = p @ r \<and> length r = d"
  by (induction d arbitrary: p) fastforce+

lemma distinct_concat_map:
  "distinct xs \<Longrightarrow> (\<And>x. x \<in> set xs \<Longrightarrow> distinct (f x)) \<Longrightarrow>
   (\<And>x y. x \<noteq> y \<Longrightarrow> set (f x) \<inter> set (f y) = {}) \<Longrightarrow> distinct (concat (map f xs))"
proof (induction xs)
  case (Cons x xs)
  have "set (f x) \<inter> set (f y) = {}" if "y \<in> set xs" for y
    using Cons.prems(1) that by (intro Cons.prems(3)) auto
  then have "set (f x) \<inter> set (concat (map f xs)) = {}" by auto
  with Cons show ?case by simp
qed simp

lemma descendants_distinct: "distinct (descendants kids d p)"
proof (induction d arbitrary: p)
  case (Suc d)
  have disj: "set (descendants kids d (p @ [i])) \<inter> set (descendants kids d (p @ [j])) = {}" if "i \<noteq> j" for i j
    using that by (auto dest!: descendants_prefix)
  show ?case unfolding descendants.simps by (rule distinct_concat_map) (use Suc.IH disj in auto)
qed simp

lemma update_nodes_apply:
  "distinct qs \<Longrightarrow> update_nodes f qs s q = (if q \<in> set qs then f (s q) else s q)"
  unfolding update_nodes_def by (induction qs arbitrary: s) auto

lemma update_descendants:
  "update_nodes f (descendants kids d p) s q = (if q \<in> set (descendants kids d p) then f (s q) else s q)"
  by (rule update_nodes_apply [OF descendants_distinct])

lemma update_matching:
  "update_nodes f (matching_banks kids p b) s q = (if q \<in> set (matching_banks kids p b) then f (s q) else s q)"
  by (rule update_nodes_apply) (simp add: matching_banks_def distinct_filter [OF descendants_distinct] del: descendants.simps)

lemma descendants_2:
  "q \<in> set (descendants kids 2 p) \<longleftrightarrow> (\<exists>i < kids p. \<exists>j < kids (p @ [i]). q = p @ [i, j])"
  by (simp add: numeral_2_eq_2 image_iff) fastforce

lemmas action_defs = Bank_ACT_def Bank_PRE_def Bank_VRR_def Bank_VRR_end_def BankGroup_PREsb_def
  BankGroup_REFsb_def BankGroup_REFsb_end_def Rank_PREab_def Rank_REFab_def Rank_REFab_end_def Channel_PREab_def
  close_bank_def

text \<open>No action touches the timing of a node.\<close>

definition keeps_timing :: "action_fun \<Rightarrow> bool" where
  "keeps_timing f \<longleftrightarrow> (\<forall>s p cmd i clk q.
     m_cmd_ready_clk (f s p cmd i clk q) = m_cmd_ready_clk (s q)
     \<and> m_cmd_history (f s p cmd i clk q) = m_cmd_history (s q))"

lemma actions_keep_timing [simp]:
  "keeps_timing (Bank_ACT T)" "keeps_timing (Bank_PRE T)" "keeps_timing (Bank_VRR T)" "keeps_timing (Bank_VRR_end T)"
  "keeps_timing (BankGroup_PREsb T kids)" "keeps_timing (BankGroup_REFsb T kids)"
  "keeps_timing (BankGroup_REFsb_end T kids)" "keeps_timing (Rank_PREab T kids)" "keeps_timing (Rank_REFab T kids)"
  "keeps_timing (Rank_REFab_end T kids)" "keeps_timing (Channel_PREab T kids)"
  by (simp_all add: keeps_timing_def action_defs update_descendants update_matching)

lemma timing_neutralI:
  "(\<And>l c f. sp_actions sp l c = Some f \<Longrightarrow> keeps_timing f) \<Longrightarrow> timing_neutral sp"
  by (auto simp: timing_neutral_def keeps_timing_def)

end
