(* ===== verification/Power_Model.thy ===== *)
theory Power_Model
  imports Lambdas
begin

text \<open>
  The power model of \<^verbatim>\<open>dram/lambdas/power.h\<close>: counters of the issued commands and the cycles a rank
  spends idle and active, kept per rank. Only the debug output is left out. The assertion in
  \<^verbatim>\<open>Rank::PREA\<close> is compiled out in the release build the project selects.
\<close>

section \<open>Access to the statistics\<close>

definition modify_stats :: "int \<Rightarrow> (PowerStats \<Rightarrow> PowerStats) \<Rightarrow> PowerStats list \<Rightarrow> PowerStats list result" where
  "modify_stats i f ps =
     (case vec_at ps i of None \<Rightarrow> Inl Out_Of_Bounds | Some st \<Rightarrow> Inr (ps[nat i := f st]))"

definition count_command ::
  "string list \<Rightarrow> string \<Rightarrow> nat \<Rightarrow> int \<Rightarrow> PowerStats list \<Rightarrow> PowerStats list result" where
  "count_command counted name n i ps =
     (let c = name_id counted name in
      case vec_at ps i of
        None \<Rightarrow> Inl Out_Of_Bounds
      | Some st \<Rightarrow>
          if c < length (cmd_counters st)
          then Inr (ps[nat i := st\<lparr>cmd_counters := (cmd_counters st)[c := cmd_counters st ! c + n]\<rparr>])
          else Inl Out_Of_Bounds)"

text \<open>The index of the rank of a bank, and of a rank itself, in the statistics.\<close>

definition Bank_get_flat_rank_id :: "standard \<Rightarrow> int \<Rightarrow> nat list \<Rightarrow> int" where
  "Bank_get_flat_rank_id T num_ranks p =
     (let d = level_id T ''bank'' - level_id T ''rank'';
          rank = length p - 1 - d
      in if d = 1 \<or> d = 2 then int (p ! (rank - 1)) * num_ranks + int (p ! rank)
         else - 1 * num_ranks + - 1)"

definition Rank_get_flat_rank_id :: "int \<Rightarrow> nat list \<Rightarrow> int" where
  "Rank_get_flat_rank_id num_ranks p =
     int (p ! (length p - 2)) * num_ranks + int (p ! (length p - 1))"

definition banks_below :: "standard \<Rightarrow> (nat list \<Rightarrow> nat) \<Rightarrow> nat list \<Rightarrow> nat list list" where
  "banks_below T kids p =
     (let d = level_id T ''bank'' - level_id T ''rank''
      in if d = 1 \<or> d = 2 then descendants kids d p else [])"

definition get_open_bank_count :: "standard \<Rightarrow> (nat list \<Rightarrow> nat) \<Rightarrow> nodes \<Rightarrow> nat list \<Rightarrow> nat" where
  "get_open_bank_count T kids s p =
     length (filter (\<lambda>q. m_state (s q) = st_opened T) (banks_below T kids p))"

definition get_refreshing_bank_count :: "standard \<Rightarrow> (nat list \<Rightarrow> nat) \<Rightarrow> nodes \<Rightarrow> nat list \<Rightarrow> nat" where
  "get_refreshing_bank_count T kids s p =
     length (filter (\<lambda>q. m_state (s q) = st_refreshing T) (banks_below T kids p))"

definition rank_idle :: "standard \<Rightarrow> (nat list \<Rightarrow> nat) \<Rightarrow> nodes \<Rightarrow> nat list \<Rightarrow> bool" where
  "rank_idle T kids s p \<longleftrightarrow> get_open_bank_count T kids s p = 0 \<and> get_refreshing_bank_count T kids s p = 0"


section \<open>Bank functions\<close>

definition PowerBank_ACT :: "standard \<Rightarrow> string list \<Rightarrow> int \<Rightarrow> power_fun" where
  "PowerBank_ACT T counted num_ranks s p cmd addr_vec clk ps =
     count_command counted ''ACT'' 1 (Bank_get_flat_rank_id T num_ranks p) ps"

definition PowerBank_PRE :: "standard \<Rightarrow> string list \<Rightarrow> int \<Rightarrow> power_fun" where
  "PowerBank_PRE T counted num_ranks s p cmd addr_vec clk ps =
     count_command counted ''PRE'' 1 (Bank_get_flat_rank_id T num_ranks p) ps"

definition PowerBank_RD :: "standard \<Rightarrow> string list \<Rightarrow> int \<Rightarrow> power_fun" where
  "PowerBank_RD T counted num_ranks s p cmd addr_vec clk ps =
     count_command counted ''RD'' 1 (Bank_get_flat_rank_id T num_ranks p) ps"

definition PowerBank_WR :: "standard \<Rightarrow> string list \<Rightarrow> int \<Rightarrow> power_fun" where
  "PowerBank_WR T counted num_ranks s p cmd addr_vec clk ps =
     count_command counted ''WR'' 1 (Bank_get_flat_rank_id T num_ranks p) ps"

definition PowerBank_VRR :: "standard \<Rightarrow> string list \<Rightarrow> int \<Rightarrow> power_fun" where
  "PowerBank_VRR T counted num_ranks s p cmd addr_vec clk ps =
     count_command counted ''VRR'' 1 (Bank_get_flat_rank_id T num_ranks p) ps"

definition PowerBank_RVRR :: "standard \<Rightarrow> string list \<Rightarrow> int \<Rightarrow> power_fun" where
  "PowerBank_RVRR T counted num_ranks s p cmd addr_vec clk ps =
     count_command counted ''RVRR'' 1 (Bank_get_flat_rank_id T num_ranks p) ps"


section \<open>Rank functions\<close>

text \<open>The two switches between the idle and the active account of a rank.\<close>

definition become_active :: "int \<Rightarrow> PowerStats \<Rightarrow> PowerStats" where
  "become_active clk st =
     st\<lparr>idle_cycles := idle_cycles st + (clk - idle_start_cycle st),
        active_start_cycle := clk, cur_power_state := ACTIVE\<rparr>"

definition become_idle :: "int \<Rightarrow> PowerStats \<Rightarrow> PowerStats" where
  "become_idle clk st =
     st\<lparr>active_cycles := active_cycles st + (clk - active_start_cycle st),
        idle_start_cycle := clk, cur_power_state := IDLE\<rparr>"

definition PowerRank_ACT :: "standard \<Rightarrow> (nat list \<Rightarrow> nat) \<Rightarrow> int \<Rightarrow> power_fun" where
  "PowerRank_ACT T kids num_ranks s p cmd addr_vec clk ps =
     modify_stats (Rank_get_flat_rank_id num_ranks p)
       (\<lambda>st. if rank_idle T kids s p then become_active clk st else st) ps"

definition PowerRank_PRE :: "standard \<Rightarrow> (nat list \<Rightarrow> nat) \<Rightarrow> int \<Rightarrow> power_fun" where
  "PowerRank_PRE T kids num_ranks s p cmd addr_vec clk ps =
     modify_stats (Rank_get_flat_rank_id num_ranks p)
       (\<lambda>st. if get_open_bank_count T kids s p = 1 \<and> get_refreshing_bank_count T kids s p = 0
             then become_idle clk st else st) ps"

definition PowerRank_PREA :: "standard \<Rightarrow> string list \<Rightarrow> (nat list \<Rightarrow> nat) \<Rightarrow> int \<Rightarrow> power_fun" where
  "PowerRank_PREA T counted kids num_ranks s p cmd addr_vec clk ps =
     (case count_command counted ''PRE'' (get_open_bank_count T kids s p) (Rank_get_flat_rank_id num_ranks p) ps of
        Inl e \<Rightarrow> Inl e
      | Inr ps1 \<Rightarrow>
          modify_stats (Rank_get_flat_rank_id num_ranks p)
            (\<lambda>st. if \<not> rank_idle T kids s p then become_idle clk st else st) ps1)"

definition PowerRank_REFab :: "string list \<Rightarrow> int \<Rightarrow> power_fun" where
  "PowerRank_REFab counted num_ranks s p cmd addr_vec clk ps =
     (case count_command counted ''REF'' 1 (Rank_get_flat_rank_id num_ranks p) ps of
        Inl e \<Rightarrow> Inl e
      | Inr ps1 \<Rightarrow>
          modify_stats (Rank_get_flat_rank_id num_ranks p)
            (\<lambda>st. st\<lparr>idle_cycles := idle_cycles st + (clk - idle_start_cycle st),
                      cur_power_state := REFRESHING\<rparr>) ps1)"

definition PowerRank_REFab_end :: "int \<Rightarrow> power_fun" where
  "PowerRank_REFab_end num_ranks s p cmd addr_vec clk ps =
     modify_stats (Rank_get_flat_rank_id num_ranks p)
       (\<lambda>st. st\<lparr>idle_start_cycle := clk, cur_power_state := IDLE\<rparr>) ps"

definition PowerRank_VRR :: "standard \<Rightarrow> (nat list \<Rightarrow> nat) \<Rightarrow> int \<Rightarrow> power_fun" where
  "PowerRank_VRR T kids num_ranks s p cmd addr_vec clk ps =
     modify_stats (Rank_get_flat_rank_id num_ranks p)
       (\<lambda>st. if rank_idle T kids s p then become_active clk st else st) ps"

definition PowerRank_VRR_end :: "standard \<Rightarrow> (nat list \<Rightarrow> nat) \<Rightarrow> int \<Rightarrow> power_fun" where
  "PowerRank_VRR_end T kids num_ranks s p cmd addr_vec clk ps =
     modify_stats (Rank_get_flat_rank_id num_ranks p)
       (\<lambda>st. if get_open_bank_count T kids s p = 0 \<and> get_refreshing_bank_count T kids s p = 1
             then become_idle clk st else st) ps"

text \<open>\<^verbatim>\<open>RFMsb\<close> and \<^verbatim>\<open>RRFMsb\<close> differ in the counter, their ends do not differ.\<close>

definition PowerRank_RFM_named :: "string \<Rightarrow> standard \<Rightarrow> string list \<Rightarrow> (nat list \<Rightarrow> nat) \<Rightarrow> int \<Rightarrow> power_fun" where
  "PowerRank_RFM_named name T counted kids num_ranks s p cmd addr_vec clk ps =
     (case count_command counted name 1 (Rank_get_flat_rank_id num_ranks p) ps of
        Inl e \<Rightarrow> Inl e
      | Inr ps1 \<Rightarrow>
          modify_stats (Rank_get_flat_rank_id num_ranks p)
            (\<lambda>st. if rank_idle T kids s p then become_active clk st else st) ps1)"

definition PowerRank_RFMsb :: "standard \<Rightarrow> string list \<Rightarrow> (nat list \<Rightarrow> nat) \<Rightarrow> int \<Rightarrow> power_fun" where
  "PowerRank_RFMsb = PowerRank_RFM_named ''RFM''"

definition PowerRank_RRFMsb :: "standard \<Rightarrow> string list \<Rightarrow> (nat list \<Rightarrow> nat) \<Rightarrow> int \<Rightarrow> power_fun" where
  "PowerRank_RRFMsb = PowerRank_RFM_named ''RRFM''"

definition PowerRank_RFMsb_end :: "standard \<Rightarrow> (nat list \<Rightarrow> nat) \<Rightarrow> int \<Rightarrow> power_fun" where
  "PowerRank_RFMsb_end T kids num_ranks s p cmd addr_vec clk ps =
     modify_stats (Rank_get_flat_rank_id num_ranks p)
       (\<lambda>st. if get_open_bank_count T kids s p = 0 \<and> get_refreshing_bank_count T kids s p = kids p
             then become_idle clk st else st) ps"

definition PowerRank_RRFMsb_end :: "standard \<Rightarrow> (nat list \<Rightarrow> nat) \<Rightarrow> int \<Rightarrow> power_fun" where
  "PowerRank_RRFMsb_end = PowerRank_RFMsb_end"

definition PowerRank_PREsb :: "standard \<Rightarrow> string list \<Rightarrow> (nat list \<Rightarrow> nat) \<Rightarrow> int \<Rightarrow> power_fun" where
  "PowerRank_PREsb T counted kids num_ranks s p cmd addr_vec clk ps =
     (case vec_at addr_vec (int (level_id T ''bank'')) of
        None \<Rightarrow> Inl Out_Of_Bounds
      | Some b \<Rightarrow>
          (let opened = filter (\<lambda>q. m_state (s q) = st_opened T) (descendants kids 2 p);
               targets = filter (\<lambda>q. int (last q) = b) opened
           in case count_command counted ''PRE'' (length targets) (Rank_get_flat_rank_id num_ranks p) ps of
                Inl e \<Rightarrow> Inl e
              | Inr ps1 \<Rightarrow>
                  modify_stats (Rank_get_flat_rank_id num_ranks p)
                    (\<lambda>st. if length targets = length opened then become_idle clk st else st) ps1))"

definition finalize_rank :: "int \<Rightarrow> PowerStats \<Rightarrow> PowerStats" where
  "finalize_rank clk st =
     (case cur_power_state st of
        IDLE \<Rightarrow> st\<lparr>idle_cycles := idle_cycles st + (clk - idle_start_cycle st)\<rparr>
      | ACTIVE \<Rightarrow> st\<lparr>active_cycles := active_cycles st + (clk - active_start_cycle st)\<rparr>
      | REFRESHING \<Rightarrow> st)"

end
