(* ===== verification/DDR4.thy ===== *)
theory DDR4
  imports Power_Model
begin

text \<open>
  The DDR4 device model, \<^verbatim>\<open>dram/impl/DDR4.cpp\<close>: the organization and speed presets, the names of
  levels, commands, requests, timings and states, how a configuration becomes an organization,
  a set of timing values and the table of timing constraints, and the device itself with its
  clock, its nodes, its pending end-of-refresh actions and its power statistics.
\<close>

section \<open>Presets\<close>

definition DDR4_org_presets :: "(string \<times> Organization) list" where
  "DDR4_org_presets = [
    (''DDR4_2Gb_x4'', \<lparr>density = 2048, dq = 4, count = [1, 1, 4, 4, 2 ^ 15, 2 ^ 10]\<rparr>),
    (''DDR4_2Gb_x8'', \<lparr>density = 2048, dq = 8, count = [1, 1, 4, 4, 2 ^ 14, 2 ^ 10]\<rparr>),
    (''DDR4_2Gb_x16'', \<lparr>density = 2048, dq = 16, count = [1, 1, 2, 4, 2 ^ 14, 2 ^ 10]\<rparr>),
    (''DDR4_4Gb_x4'', \<lparr>density = 4096, dq = 4, count = [1, 1, 4, 4, 2 ^ 16, 2 ^ 10]\<rparr>),
    (''DDR4_4Gb_x8'', \<lparr>density = 4096, dq = 8, count = [1, 1, 4, 4, 2 ^ 15, 2 ^ 10]\<rparr>),
    (''DDR4_4Gb_x16'', \<lparr>density = 4096, dq = 16, count = [1, 1, 2, 4, 2 ^ 15, 2 ^ 10]\<rparr>),
    (''DDR4_8Gb_x4'', \<lparr>density = 8192, dq = 4, count = [1, 1, 4, 4, 2 ^ 17, 2 ^ 10]\<rparr>),
    (''DDR4_8Gb_x8'', \<lparr>density = 8192, dq = 8, count = [1, 1, 4, 4, 2 ^ 16, 2 ^ 10]\<rparr>),
    (''DDR4_8Gb_x16'', \<lparr>density = 8192, dq = 16, count = [1, 1, 2, 4, 2 ^ 16, 2 ^ 10]\<rparr>),
    (''DDR4_16Gb_x4'', \<lparr>density = 16384, dq = 4, count = [1, 1, 4, 4, 2 ^ 18, 2 ^ 10]\<rparr>),
    (''DDR4_16Gb_x8'', \<lparr>density = 16384, dq = 8, count = [1, 1, 4, 4, 2 ^ 17, 2 ^ 10]\<rparr>),
    (''DDR4_16Gb_x16'', \<lparr>density = 16384, dq = 16, count = [1, 1, 2, 4, 2 ^ 17, 2 ^ 10]\<rparr>)]"

definition DDR4_timing_presets :: "(string \<times> int list) list" where
  "DDR4_timing_presets = [
    (''DDR4_1600J'', [1600, 4, 10, 10, 10, 28, 38, 12, 6, 9, 4, 5, -1, -1, 2, 6, -1, -1, -1, 2, 1250]),
    (''DDR4_1600K'', [1600, 4, 11, 11, 11, 28, 39, 12, 6, 9, 4, 5, -1, -1, 2, 6, -1, -1, -1, 2, 1250]),
    (''DDR4_1600L'', [1600, 4, 12, 12, 12, 28, 40, 12, 6, 9, 4, 5, -1, -1, 2, 6, -1, -1, -1, 2, 1250]),
    (''DDR4_1866L'', [1866, 4, 12, 12, 12, 32, 44, 14, 7, 10, 4, 5, -1, -1, 3, 7, -1, -1, -1, 2, 1071]),
    (''DDR4_1866M'', [1866, 4, 13, 13, 13, 32, 45, 14, 7, 10, 4, 5, -1, -1, 3, 7, -1, -1, -1, 2, 1071]),
    (''DDR4_1866N'', [1866, 4, 14, 14, 14, 32, 46, 14, 7, 10, 4, 5, -1, -1, 3, 7, -1, -1, -1, 2, 1071]),
    (''DDR4_2133N'', [2133, 4, 14, 14, 14, 36, 50, 16, 8, 11, 4, 6, -1, -1, 3, 8, -1, -1, -1, 2, 937]),
    (''DDR4_2133P'', [2133, 4, 15, 15, 15, 36, 51, 16, 8, 11, 4, 6, -1, -1, 3, 8, -1, -1, -1, 2, 937]),
    (''DDR4_2133R'', [2133, 4, 16, 16, 16, 36, 52, 16, 8, 11, 4, 6, -1, -1, 3, 8, -1, -1, -1, 2, 937]),
    (''DDR4_2400P'', [2400, 4, 15, 15, 15, 39, 54, 18, 9, 12, 4, 6, -1, -1, 3, 9, -1, -1, -1, 2, 833]),
    (''DDR4_2400R'', [2400, 4, 16, 16, 16, 39, 55, 18, 9, 12, 4, 6, -1, -1, 3, 9, -1, -1, -1, 2, 833]),
    (''DDR4_2400U'', [2400, 4, 17, 17, 17, 39, 56, 18, 9, 12, 4, 6, -1, -1, 3, 9, -1, -1, -1, 2, 833]),
    (''DDR4_2400T'', [2400, 4, 18, 18, 18, 39, 57, 18, 9, 12, 4, 6, -1, -1, 3, 9, -1, -1, -1, 2, 833]),
    (''DDR4_2666T'', [2666, 4, 17, 17, 17, 43, 60, 20, 10, 14, 4, 7, -1, -1, 4, 10, -1, -1, -1, 2, 750]),
    (''DDR4_2666U'', [2666, 4, 18, 18, 18, 43, 61, 20, 10, 14, 4, 7, -1, -1, 4, 10, -1, -1, -1, 2, 750]),
    (''DDR4_2666V'', [2666, 4, 19, 19, 19, 43, 62, 20, 10, 14, 4, 7, -1, -1, 4, 10, -1, -1, -1, 2, 750]),
    (''DDR4_2666W'', [2666, 4, 20, 20, 20, 43, 63, 20, 10, 14, 4, 7, -1, -1, 4, 10, -1, -1, -1, 2, 750]),
    (''DDR4_2933V'', [2933, 4, 19, 19, 19, 47, 66, 22, 11, 16, 4, 8, -1, -1, 4, 11, -1, -1, -1, 2, 682]),
    (''DDR4_2933W'', [2933, 4, 20, 20, 20, 47, 67, 22, 11, 16, 4, 8, -1, -1, 4, 11, -1, -1, -1, 2, 682]),
    (''DDR4_2933Y'', [2933, 4, 21, 21, 21, 47, 68, 22, 11, 16, 4, 8, -1, -1, 4, 11, -1, -1, -1, 2, 682]),
    (''DDR4_2933AA'', [2933, 4, 22, 22, 22, 47, 69, 22, 11, 16, 4, 8, -1, -1, 4, 11, -1, -1, -1, 2, 682]),
    (''DDR4_3200W'', [3200, 4, 20, 20, 20, 52, 72, 24, 12, 16, 4, 8, -1, -1, 4, 12, -1, -1, -1, 2, 625]),
    (''DDR4_3200AA'', [3200, 4, 22, 22, 22, 52, 74, 24, 12, 16, 4, 8, -1, -1, 4, 12, -1, -1, -1, 2, 625]),
    (''DDR4_3200AC'', [3200, 4, 24, 24, 24, 52, 76, 24, 12, 16, 4, 8, -1, -1, 4, 12, -1, -1, -1, 2, 625])]"

definition DDR4_voltage_presets :: "(string \<times> rat list) list" where
  "DDR4_voltage_presets = [(''Default'', [12 / 10, 25 / 10])]"

definition DDR4_current_presets :: "(string \<times> rat list) list" where
  "DDR4_current_presets = [(''Default'', [60, 50, 55, 145, 145, 362, 3, 3, 3, 3, 3, 48])]"


section \<open>Names\<close>

definition DDR4_internal_prefetch_size :: int where
  "DDR4_internal_prefetch_size = 8"

definition DDR4_levels :: "string list" where
  "DDR4_levels = [''channel'', ''rank'', ''bankgroup'', ''bank'', ''row'', ''column'']"

definition DDR4_commands :: "string list" where
  "DDR4_commands = [''ACT'', ''PRE'', ''PREA'', ''RD'', ''WR'', ''RDA'', ''WRA'', ''REFab'', ''REFab_end'']"

definition DDR4_command_scopes :: "nat list option" where
  "DDR4_command_scopes = ImplLUT_names DDR4_commands DDR4_levels
     [(''ACT'', ''row''), (''PRE'', ''bank''), (''PREA'', ''rank''),
      (''RD'', ''column''), (''WR'', ''column''), (''RDA'', ''column''), (''WRA'', ''column''),
      (''REFab'', ''rank''), (''REFab_end'', ''rank'')]"

definition command_meta :: "bool \<Rightarrow> bool \<Rightarrow> bool \<Rightarrow> bool \<Rightarrow> DRAMCommandMeta" where
  "command_meta opn cls acc ref =
     \<lparr>is_opening = opn, is_closing = cls, is_accessing = acc, is_refreshing = ref, is_sb_cmd = False\<rparr>"

definition DDR4_command_meta :: "DRAMCommandMeta list option" where
  "DDR4_command_meta = ImplLUT DDR4_commands (command_meta False False False False)
     [(''ACT'', command_meta True False False False),
      (''PRE'', command_meta False True False False),
      (''PREA'', command_meta False True False False),
      (''RD'', command_meta False False True False),
      (''WR'', command_meta False False True False),
      (''RDA'', command_meta False True True False),
      (''WRA'', command_meta False True True False),
      (''REFab'', command_meta False False False True),
      (''REFab_end'', command_meta False True False False)]"

definition DDR4_requests :: "string list" where
  "DDR4_requests = [''read'', ''write'', ''all-bank-refresh'', ''open-row'', ''close-row'']"

definition DDR4_request_translations :: "nat list option" where
  "DDR4_request_translations = ImplLUT_names DDR4_requests DDR4_commands
     [(''read'', ''RD''), (''write'', ''WR''), (''all-bank-refresh'', ''REFab''),
      (''open-row'', ''ACT''), (''close-row'', ''PRE'')]"

definition DDR4_timings :: "string list" where
  "DDR4_timings = [''rate'', ''nBL'', ''nCL'', ''nRCD'', ''nRP'', ''nRAS'', ''nRC'', ''nWR'', ''nRTP'', ''nCWL'',
     ''nCCDS'', ''nCCDL'', ''nRRDS'', ''nRRDL'', ''nWTRS'', ''nWTRL'', ''nFAW'', ''nRFC'', ''nREFI'', ''nCS'', ''tCK_ps'']"

definition DDR4_voltages :: "string list" where
  "DDR4_voltages = [''VDD'', ''VPP'']"

definition DDR4_currents :: "string list" where
  "DDR4_currents = [''IDD0'', ''IDD2N'', ''IDD3N'', ''IDD4R'', ''IDD4W'', ''IDD5B'',
     ''IPP0'', ''IPP2N'', ''IPP3N'', ''IPP4R'', ''IPP4W'', ''IPP5B'']"

definition DDR4_cmds_counted :: "string list" where
  "DDR4_cmds_counted = [''ACT'', ''PRE'', ''RD'', ''WR'', ''REF'']"

definition DDR4_states :: "string list" where
  "DDR4_states = [''Opened'', ''Closed'', ''PowerUp'', ''N/A'', ''Refreshing'']"

definition DDR4_init_states :: "nat list option" where
  "DDR4_init_states = ImplLUT_names DDR4_levels DDR4_states
     [(''channel'', ''N/A''), (''rank'', ''PowerUp''), (''bankgroup'', ''N/A''), (''bank'', ''Closed''),
      (''row'', ''Closed''), (''column'', ''N/A'')]"

definition DDR4_std :: standard where
  "DDR4_std = \<lparr>std_levels = DDR4_levels, std_commands = DDR4_commands, std_states = DDR4_states\<rparr>"


section \<open>Configuration\<close>

text \<open>What the configuration file gives: every parameter the implementation asks for, by name.\<close>

record dram_params =
  org_channel_width :: "int option"
  org_preset :: "string option"
  org_dq :: "int option"
  org_level :: "string \<Rightarrow> int option"
  org_density :: "int option"
  timing_preset :: "string option"
  timing_rate :: "int option"
  timing_cycles :: "string \<Rightarrow> int option"
  timing_ns :: "string \<Rightarrow> rat option"
  drampower_enable :: bool
  voltage_preset :: "string option"
  current_preset :: "string option"

definition to_size_t :: "int \<Rightarrow> int" where
  "to_size_t x = take_bit 64 x"

definition load_preset :: "(string \<times> 'a) list \<Rightarrow> string option \<Rightarrow> 'a \<Rightarrow> 'a result" where
  "load_preset presets name v =
     (case name of
        None \<Rightarrow> Inr v
      | Some n \<Rightarrow> of_opt Configuration_Error (map_of presets n))"

definition override :: "'a option \<Rightarrow> 'a \<Rightarrow> 'a" where
  "override x v = (case x of None \<Rightarrow> v | Some y \<Rightarrow> y)"

definition chip_density :: "Organization \<Rightarrow> int" where
  "chip_density org =
     (let c = (\<lambda>n. to_size_t (count org ! name_id DDR4_levels n)) in
      drop_bit 20 (to_size_t (c ''bankgroup'' * c ''bank'' * c ''row'' * c ''column'' * to_size_t (dq org))))"

definition DDR4_set_organization :: "dram_params \<Rightarrow> Organization result" where
  "DDR4_set_organization P =
     (case load_preset DDR4_org_presets (org_preset P)
             \<lparr>density = -1, dq = -1, count = replicate (length DDR4_levels) (-1)\<rparr> of
        Inl e \<Rightarrow> Inl e
      | Inr org \<Rightarrow>
          (let org1 = org\<lparr>dq := override (org_dq P) (dq org),
                          count := map2 (\<lambda>n c. override (org_level P n) c) DDR4_levels (count org),
                          density := override (org_density P) (density org)\<rparr>
           in if to_size_t (density org1) = chip_density org1 then Inr org1 else Inl Configuration_Error))"


section \<open>Timing values\<close>

definition timing_val :: "int list \<Rightarrow> string \<Rightarrow> int" where
  "timing_val vals n = vals ! name_id DDR4_timings n"

definition set_timing_val :: "string \<Rightarrow> int \<Rightarrow> int list \<Rightarrow> int list" where
  "set_timing_val n x vals = vals[name_id DDR4_timings n := x]"

definition DDR4_dq_id :: "int \<Rightarrow> int" where
  "DDR4_dq_id q = (if q = 4 then 0 else if q = 8 then 1 else if q = 16 then 2 else -1)"

definition DDR4_rate_id :: "int \<Rightarrow> int" where
  "DDR4_rate_id rate =
     (if rate = 1600 then 0 else if rate = 1866 then 1 else if rate = 2133 then 2 else if rate = 2400 then 3
      else if rate = 2666 then 4 else if rate = 2933 then 5 else if rate = 3200 then 6 else -1)"

definition nRRDS_TABLE :: "int list list" where
  "nRRDS_TABLE = [[4, 4, 4, 4, 4, 4, 4], [4, 4, 4, 4, 4, 4, 4], [5, 5, 6, 7, 8, 8, 9]]"

definition nRRDL_TABLE :: "int list list" where
  "nRRDL_TABLE = [[5, 5, 6, 6, 7, 8, 8], [5, 5, 6, 6, 7, 8, 8], [6, 6, 7, 8, 9, 10, 11]]"

definition nFAW_TABLE :: "int list list" where
  "nFAW_TABLE = [[16, 16, 16, 16, 16, 16, 16], [20, 22, 23, 26, 28, 31, 34], [28, 28, 32, 36, 40, 44, 48]]"

definition tRFC_TABLE :: "rat list list" where
  "tRFC_TABLE = [[160, 260, 360, 550], [110, 160, 260, 350], [90, 110, 160, 260]]"

definition tREFI_BASE :: rat where
  "tREFI_BASE = 7800"

definition DDR4_density_id :: "int \<Rightarrow> int" where
  "DDR4_density_id Mb =
     (if Mb = 2048 then 0 else if Mb = 4096 then 1 else if Mb = 8192 then 2 else if Mb = 16384 then 3 else -1)"

text \<open>
  \<^verbatim>\<open>int tCK_ps = 1E6 / (rate / 2)\<close>: the division by 0 gives an infinity that has no integer value.
\<close>

definition rate_tCK_ps :: "int \<Rightarrow> int result" where
  "rate_tCK_ps rate = (if rate sdiv 2 = 0 then Inl Div_By_Zero else Inr (1000000 sdiv (rate sdiv 2)))"

definition secondary_timings :: "int \<Rightarrow> int list \<Rightarrow> int list" where
  "secondary_timings q vals =
     (let i = DDR4_dq_id q; j = DDR4_rate_id (timing_val vals ''rate'') in
      if i \<noteq> -1 \<and> j \<noteq> -1
      then set_timing_val ''nFAW'' (nFAW_TABLE ! nat i ! nat j)
             (set_timing_val ''nRRDL'' (nRRDL_TABLE ! nat i ! nat j)
               (set_timing_val ''nRRDS'' (nRRDS_TABLE ! nat i ! nat j) vals))
      else vals)"

definition refresh_timings :: "int \<Rightarrow> int \<Rightarrow> int list \<Rightarrow> int list result" where
  "refresh_timings Mb tCK_ps vals =
     (case vec_at (tRFC_TABLE ! 0) (DDR4_density_id Mb) of
        None \<Rightarrow> Inl Out_Of_Bounds
      | Some tRFC \<Rightarrow>
          (case (JEDEC_rounding tRFC tCK_ps, JEDEC_rounding tREFI_BASE tCK_ps) of
             (Inr nRFC, Inr nREFI) \<Rightarrow> Inr (set_timing_val ''nREFI'' (int nREFI) (set_timing_val ''nRFC'' (int nRFC) vals))
           | (Inl e, _) \<Rightarrow> Inl e
           | (_, Inl e) \<Rightarrow> Inl e))"

text \<open>A value in cycles under the name of the timing, else one in nanoseconds under its \<^verbatim>\<open>t\<close> name.\<close>

definition override_timing :: "dram_params \<Rightarrow> int \<Rightarrow> nat \<Rightarrow> int list \<Rightarrow> int list result" where
  "override_timing P tCK_ps i vals =
     (let n = DDR4_timings ! i in
      case timing_cycles P n of
        Some v \<Rightarrow> Inr (vals[i := v])
      | None \<Rightarrow>
          (case timing_ns P (CHR ''t'' # tl n) of
             None \<Rightarrow> Inr vals
           | Some ns \<Rightarrow>
               (case JEDEC_rounding ns tCK_ps of Inl e \<Rightarrow> Inl e | Inr v \<Rightarrow> Inr (vals[i := int v]))))"

definition DDR4_timing_vals :: "dram_params \<Rightarrow> Organization \<Rightarrow> int list result" where
  "DDR4_timing_vals P org =
     (case load_preset DDR4_timing_presets (timing_preset P) (replicate (length DDR4_timings) (-1)) of
        Inl e \<Rightarrow> Inl e
      | Inr vals0 \<Rightarrow>
          if timing_rate P \<noteq> None \<and> timing_preset P \<noteq> None then Inl Configuration_Error
          else (let vals1 = set_timing_val ''rate'' (override (timing_rate P) (timing_val vals0 ''rate'')) vals0 in
            case rate_tCK_ps (timing_val vals1 ''rate'') of
              Inl e \<Rightarrow> Inl e
            | Inr tCK_ps \<Rightarrow>
                (case refresh_timings (density org) tCK_ps
                        (secondary_timings (dq org) (set_timing_val ''tCK_ps'' tCK_ps vals1)) of
                   Inl e \<Rightarrow> Inl e
                 | Inr vals2 \<Rightarrow>
                     (case fold_result (override_timing P tCK_ps) [1..<length DDR4_timings - 1] vals2 of
                        Inl e \<Rightarrow> Inl e
                      | Inr vals3 \<Rightarrow> if -1 \<in> set vals3 then Inl Configuration_Error else Inr vals3))))"

definition cons :: "string \<Rightarrow> string list \<Rightarrow> string list \<Rightarrow> int \<Rightarrow> int \<Rightarrow> bool \<Rightarrow> TimingConsInitializer" where
  "cons level preceding following latency window sibling =
     \<lparr>ti_level = level, ti_preceding = preceding, ti_following = following, ti_latency = latency,
      ti_window = window, ti_is_sibling = sibling\<rparr>"

definition DDR4_timing_constraints :: "(string \<Rightarrow> int) \<Rightarrow> TimingConsInitializer list" where
  "DDR4_timing_constraints V = [
    cons ''channel'' [''RD'', ''RDA''] [''RD'', ''RDA''] (V ''nBL'') 1 False,
    cons ''channel'' [''WR'', ''WRA''] [''WR'', ''WRA''] (V ''nBL'') 1 False,
    cons ''rank'' [''RD'', ''RDA''] [''RD'', ''RDA''] (V ''nCCDS'') 1 False,
    cons ''rank'' [''WR'', ''WRA''] [''WR'', ''WRA''] (V ''nCCDS'') 1 False,
    cons ''rank'' [''RD'', ''RDA''] [''WR'', ''WRA''] (V ''nCL'' + V ''nBL'' + 2 - V ''nCWL'') 1 False,
    cons ''rank'' [''WR'', ''WRA''] [''RD'', ''RDA''] (V ''nCWL'' + V ''nBL'' + V ''nWTRS'') 1 False,
    cons ''rank'' [''RD'', ''RDA''] [''RD'', ''RDA'', ''WR'', ''WRA''] (V ''nBL'' + V ''nCS'') 1 True,
    cons ''rank'' [''WR'', ''WRA''] [''RD'', ''RDA''] (V ''nCL'' + V ''nBL'' + V ''nCS'' - V ''nCWL'') 1 True,
    cons ''rank'' [''RD''] [''PREA''] (V ''nRTP'') 1 False,
    cons ''rank'' [''WR''] [''PREA''] (V ''nCWL'' + V ''nBL'' + V ''nWR'') 1 False,
    cons ''rank'' [''ACT''] [''ACT''] (V ''nRRDS'') 1 False,
    cons ''rank'' [''ACT''] [''ACT''] (V ''nFAW'') 4 False,
    cons ''rank'' [''ACT''] [''PREA''] (V ''nRAS'') 1 False,
    cons ''rank'' [''PREA''] [''ACT''] (V ''nRP'') 1 False,
    cons ''rank'' [''ACT''] [''REFab''] (V ''nRC'') 1 False,
    cons ''rank'' [''PRE'', ''PREA''] [''REFab''] (V ''nRP'') 1 False,
    cons ''rank'' [''RDA''] [''REFab''] (V ''nRP'' + V ''nRTP'') 1 False,
    cons ''rank'' [''WRA''] [''REFab''] (V ''nCWL'' + V ''nBL'' + V ''nWR'' + V ''nRP'') 1 False,
    cons ''rank'' [''REFab''] [''ACT'', ''PREA''] (V ''nRFC'') 1 False,
    cons ''bankgroup'' [''RD'', ''RDA''] [''RD'', ''RDA''] (V ''nCCDL'') 1 False,
    cons ''bankgroup'' [''WR'', ''WRA''] [''WR'', ''WRA''] (V ''nCCDL'') 1 False,
    cons ''bankgroup'' [''WR'', ''WRA''] [''RD'', ''RDA''] (V ''nCWL'' + V ''nBL'' + V ''nWTRL'') 1 False,
    cons ''bankgroup'' [''ACT''] [''ACT''] (V ''nRRDL'') 1 False,
    cons ''bank'' [''ACT''] [''ACT''] (V ''nRC'') 1 False,
    cons ''bank'' [''ACT''] [''RD'', ''RDA'', ''WR'', ''WRA''] (V ''nRCD'') 1 False,
    cons ''bank'' [''ACT''] [''PRE''] (V ''nRAS'') 1 False,
    cons ''bank'' [''PRE''] [''ACT''] (V ''nRP'') 1 False,
    cons ''bank'' [''RD''] [''PRE''] (V ''nRTP'') 1 False,
    cons ''bank'' [''WR''] [''PRE''] (V ''nCWL'' + V ''nBL'' + V ''nWR'') 1 False,
    cons ''bank'' [''RDA''] [''ACT''] (V ''nRTP'' + V ''nRP'') 1 False,
    cons ''bank'' [''WRA''] [''ACT''] (V ''nCWL'' + V ''nBL'' + V ''nWR'' + V ''nRP'') 1 False]"

definition DDR4_timing_cons :: "int list \<Rightarrow> timing_cons option" where
  "DDR4_timing_cons vals = populate_timingcons DDR4_levels DDR4_commands (DDR4_timing_constraints (timing_val vals))"


section \<open>The device\<close>

record DDR4 =
  d_org :: Organization
  d_channel_width :: int
  d_timing_vals :: "int list"
  d_timing_cons :: timing_cons
  d_read_latency :: int
  d_drampower_enable :: bool
  d_voltage_vals :: "rat list"
  d_current_vals :: "rat list"
  d_power_stats :: "PowerStats list"
  s_total_background_energy :: rat
  s_total_cmd_energy :: rat
  s_total_energy :: rat
  d_channels :: nat
  d_nodes :: nodes
  d_future_actions :: "FutureAction list"
  d_clk :: int

abbreviation d_level :: "string \<Rightarrow> nat" where
  "d_level n \<equiv> name_id DDR4_levels n"

abbreviation d_cmd :: "string \<Rightarrow> nat" where
  "d_cmd n \<equiv> name_id DDR4_commands n"

definition table :: "((nat \<times> nat) \<times> 'f) list \<Rightarrow> nat \<Rightarrow> nat \<Rightarrow> 'f option" where
  "table entries level command = map_of entries (level, command)"

definition org_children :: "Organization \<Rightarrow> nat list \<Rightarrow> nat" where
  "org_children org p =
     (if d_level ''row'' \<le> length p then 0 else nat (count org ! length p))"

definition DDR4_actions :: "Organization \<Rightarrow> nat \<Rightarrow> nat \<Rightarrow> action_fun option" where
  "DDR4_actions org = table
     [((d_level ''rank'', d_cmd ''PREA''), Rank_PREab DDR4_std (org_children org)),
      ((d_level ''rank'', d_cmd ''REFab''), Rank_REFab DDR4_std (org_children org)),
      ((d_level ''rank'', d_cmd ''REFab_end''), Rank_REFab_end DDR4_std (org_children org)),
      ((d_level ''bank'', d_cmd ''ACT''), Bank_ACT DDR4_std),
      ((d_level ''bank'', d_cmd ''PRE''), Bank_PRE DDR4_std),
      ((d_level ''bank'', d_cmd ''RDA''), Bank_PRE DDR4_std),
      ((d_level ''bank'', d_cmd ''WRA''), Bank_PRE DDR4_std)]"

definition DDR4_preqs :: "Organization \<Rightarrow> nat \<Rightarrow> nat \<Rightarrow> preq_fun option" where
  "DDR4_preqs org = table
     [((d_level ''rank'', d_cmd ''REFab''), Rank_RequireAllBanksClosed DDR4_std (org_children org)),
      ((d_level ''bank'', d_cmd ''RD''), RequireRowOpen DDR4_std),
      ((d_level ''bank'', d_cmd ''WR''), RequireRowOpen DDR4_std),
      ((d_level ''bank'', d_cmd ''ACT''), RequireRowOpen DDR4_std),
      ((d_level ''bank'', d_cmd ''PRE''), RequireBankClosed DDR4_std)]"

definition DDR4_rowhits :: "nat \<Rightarrow> nat \<Rightarrow> rowhit_fun option" where
  "DDR4_rowhits = table
     [((d_level ''bank'', d_cmd ''RD''), RowHit_RDWR DDR4_std),
      ((d_level ''bank'', d_cmd ''WR''), RowHit_RDWR DDR4_std)]"

definition DDR4_rowopens :: "nat \<Rightarrow> nat \<Rightarrow> rowhit_fun option" where
  "DDR4_rowopens = table
     [((d_level ''bank'', d_cmd ''RD''), RowOpen_RDWR DDR4_std),
      ((d_level ''bank'', d_cmd ''WR''), RowOpen_RDWR DDR4_std)]"

definition num_ranks :: "Organization \<Rightarrow> int" where
  "num_ranks org = count org ! d_level ''rank''"

definition DDR4_powers :: "Organization \<Rightarrow> nat \<Rightarrow> nat \<Rightarrow> power_fun option" where
  "DDR4_powers org = table
     [((d_level ''bank'', d_cmd ''ACT''), PowerBank_ACT DDR4_std DDR4_cmds_counted (num_ranks org)),
      ((d_level ''bank'', d_cmd ''PRE''), PowerBank_PRE DDR4_std DDR4_cmds_counted (num_ranks org)),
      ((d_level ''bank'', d_cmd ''RD''), PowerBank_RD DDR4_std DDR4_cmds_counted (num_ranks org)),
      ((d_level ''bank'', d_cmd ''WR''), PowerBank_WR DDR4_std DDR4_cmds_counted (num_ranks org)),
      ((d_level ''rank'', d_cmd ''ACT''), PowerRank_ACT DDR4_std (org_children org) (num_ranks org)),
      ((d_level ''rank'', d_cmd ''PRE''), PowerRank_PRE DDR4_std (org_children org) (num_ranks org)),
      ((d_level ''rank'', d_cmd ''PREA''),
         PowerRank_PREA DDR4_std DDR4_cmds_counted (org_children org) (num_ranks org)),
      ((d_level ''rank'', d_cmd ''REFab''), PowerRank_REFab DDR4_cmds_counted (num_ranks org)),
      ((d_level ''rank'', d_cmd ''REFab_end''), PowerRank_REFab_end (num_ranks org))]"

text \<open>The tables of names are filled when the program is compiled, so they exist.\<close>

definition DDR4_spec_of :: "Organization \<Rightarrow> timing_cons \<Rightarrow> bool \<Rightarrow> dram_spec" where
  "DDR4_spec_of org cs pw =
     \<lparr>sp_counts = count org, sp_row_level = d_level ''row'', sp_num_cmds = length DDR4_commands,
      sp_command_scopes = the DDR4_command_scopes, sp_init_states = the DDR4_init_states,
      sp_timing_cons = cs, sp_actions = DDR4_actions org, sp_preqs = DDR4_preqs org,
      sp_rowhits = DDR4_rowhits, sp_rowopens = DDR4_rowopens,
      sp_drampower_enable = pw, sp_powers = DDR4_powers org\<rparr>"

abbreviation DDR4_spec :: "DDR4 \<Rightarrow> dram_spec" where
  "DDR4_spec d \<equiv> DDR4_spec_of (d_org d) (d_timing_cons d) (d_drampower_enable d)"

definition new_power_stats :: "Organization \<Rightarrow> PowerStats list" where
  "new_power_stats org =
     map (\<lambda>i. new_PowerStats\<lparr>ps_rank_id := int i, cmd_counters := replicate (length DDR4_cmds_counted) 0\<rparr>)
       [0..<nat (count org ! d_level ''channel'' * num_ranks org)]"

text \<open>\<^verbatim>\<open>set_powers\<close> loads the voltages and currents and sizes the statistics, when power is enabled.\<close>

definition DDR4_set_powers :: "dram_params \<Rightarrow> Organization \<Rightarrow> (rat list \<times> rat list \<times> PowerStats list) result" where
  "DDR4_set_powers P org =
     (if \<not> drampower_enable P then Inr ([], [], [])
      else case load_preset DDR4_voltage_presets (voltage_preset P) (replicate (length DDR4_voltages) (-1)) of
        Inl e \<Rightarrow> Inl e
      | Inr vs \<Rightarrow>
          (case load_preset DDR4_current_presets (current_preset P) (replicate (length DDR4_currents) (-1)) of
             Inl e \<Rightarrow> Inl e
           | Inr cs \<Rightarrow> Inr (vs, cs, new_power_stats org)))"

definition DDR4_init :: "dram_params \<Rightarrow> DDR4 result" where
  "DDR4_init P =
     (case DDR4_set_organization P of
        Inl e \<Rightarrow> Inl e
      | Inr org \<Rightarrow>
          (case DDR4_timing_vals P org of
             Inl e \<Rightarrow> Inl e
           | Inr vals \<Rightarrow>
               (case (DDR4_timing_cons vals, DDR4_set_powers P org) of
                  (None, _) \<Rightarrow> Inl Runtime_Error
                | (_, Inl e) \<Rightarrow> Inl e
                | (Some cs, Inr (vs, is, ps)) \<Rightarrow>
                    Inr \<lparr>d_org = org, d_channel_width = override (org_channel_width P) 64,
                         d_timing_vals = vals, d_timing_cons = cs,
                         d_read_latency = timing_val vals ''nCL'' + timing_val vals ''nBL'',
                         d_drampower_enable = drampower_enable P, d_voltage_vals = vs, d_current_vals = is,
                         d_power_stats = ps, s_total_background_energy = 0, s_total_cmd_energy = 0,
                         s_total_energy = 0,
                         d_channels = nat (count org ! d_level ''channel''),
                         d_nodes = new_nodes (DDR4_spec_of org cs (drampower_enable P)),
                         d_future_actions = [], d_clk = 0\<rparr>)))"

text \<open>Every operation starts from the channel the address vector names.\<close>

definition channel_of :: "DDR4 \<Rightarrow> int list \<Rightarrow> nat list result" where
  "channel_of d addr_vec =
     (case vec_at addr_vec (int (d_level ''channel'')) of
        None \<Rightarrow> Inl Out_Of_Bounds
      | Some ch \<Rightarrow> if 0 \<le> ch \<and> nat ch < d_channels d then Inr [nat ch] else Inl Out_Of_Bounds)"

text \<open>The power and state update of a command or of its end.\<close>

definition update_device :: "nat \<Rightarrow> int list \<Rightarrow> nat list \<Rightarrow> DDR4 \<Rightarrow> DDR4 result" where
  "update_device command addr_vec p d =
     (case update_powers (DDR4_spec d) command addr_vec (d_clk d) p (d_nodes d) (d_power_stats d) of
        Inl e \<Rightarrow> Inl e
      | Inr ps \<Rightarrow>
          (case update_states (DDR4_spec d) command addr_vec (d_clk d) p (d_nodes d) of
             Inl e \<Rightarrow> Inl e
           | Inr s \<Rightarrow> Inr (d\<lparr>d_power_stats := ps, d_nodes := s\<rparr>)))"

definition check_future_action :: "nat \<Rightarrow> int list \<Rightarrow> DDR4 \<Rightarrow> DDR4" where
  "check_future_action command addr_vec d =
     (if command = d_cmd ''REFab''
      then d\<lparr>d_future_actions := d_future_actions d @
               [\<lparr>fa_cmd = command, fa_addr_vec = addr_vec,
                 fa_clk = d_clk d + timing_val (d_timing_vals d) ''nRFC'' - 1\<rparr>]\<rparr>
      else d)"

definition DDR4_issue_command :: "nat \<Rightarrow> int list \<Rightarrow> DDR4 \<Rightarrow> DDR4 result" where
  "DDR4_issue_command command addr_vec d =
     (case channel_of d addr_vec of
        Inl e \<Rightarrow> Inl e
      | Inr p \<Rightarrow>
          (case update_timing (DDR4_spec d) command addr_vec (d_clk d) p (d_nodes d) of
             Inl e \<Rightarrow> Inl e
           | Inr s \<Rightarrow>
               (case update_device command addr_vec p (d\<lparr>d_nodes := s\<rparr>) of
                  Inl e \<Rightarrow> Inl e
                | Inr d1 \<Rightarrow> Inr (check_future_action command addr_vec d1))))"

definition handle_future_action :: "nat \<Rightarrow> int list \<Rightarrow> DDR4 \<Rightarrow> DDR4 result" where
  "handle_future_action command addr_vec d =
     (case channel_of d addr_vec of
        Inl e \<Rightarrow> Inl e
      | Inr p \<Rightarrow>
          if command = d_cmd ''REFab'' then update_device (d_cmd ''REFab_end'') addr_vec p d else Inr d)"

text \<open>The loop of \<^verbatim>\<open>tick\<close> runs from the last pending action to the first and removes those it runs.\<close>

fun run_future_actions :: "FutureAction list \<Rightarrow> DDR4 \<Rightarrow> (FutureAction list \<times> DDR4) result" where
  "run_future_actions [] d = Inr ([], d)"
| "run_future_actions (fa # fas) d =
     (case run_future_actions fas d of
        Inl e \<Rightarrow> Inl e
      | Inr (rest, d1) \<Rightarrow>
          if fa_clk fa = d_clk d1
          then (case handle_future_action (fa_cmd fa) (fa_addr_vec fa) d1 of
                  Inl e \<Rightarrow> Inl e
                | Inr d2 \<Rightarrow> Inr (rest, d2))
          else Inr (fa # rest, d1))"

definition DDR4_tick :: "DDR4 \<Rightarrow> DDR4 result" where
  "DDR4_tick d =
     (case run_future_actions (d_future_actions d) (d\<lparr>d_clk := d_clk d + 1\<rparr>) of
        Inl e \<Rightarrow> Inl e
      | Inr (rest, d1) \<Rightarrow> Inr (d1\<lparr>d_future_actions := rest\<rparr>))"

definition DDR4_get_preq_command :: "nat \<Rightarrow> int list \<Rightarrow> DDR4 \<Rightarrow> nat result" where
  "DDR4_get_preq_command command addr_vec d =
     (case channel_of d addr_vec of
        Inl e \<Rightarrow> Inl e
      | Inr p \<Rightarrow> get_preq_command (DDR4_spec d) command addr_vec (d_clk d) p (d_nodes d))"

definition DDR4_check_ready :: "nat \<Rightarrow> int list \<Rightarrow> DDR4 \<Rightarrow> bool result" where
  "DDR4_check_ready command addr_vec d =
     (case channel_of d addr_vec of
        Inl e \<Rightarrow> Inl e
      | Inr p \<Rightarrow> check_ready (DDR4_spec d) command addr_vec (d_clk d) p (d_nodes d))"

definition DDR4_check_rowbuffer_hit :: "nat \<Rightarrow> int list \<Rightarrow> DDR4 \<Rightarrow> bool result" where
  "DDR4_check_rowbuffer_hit command addr_vec d =
     (case channel_of d addr_vec of
        Inl e \<Rightarrow> Inl e
      | Inr p \<Rightarrow> check_rowbuffer_hit (DDR4_spec d) command addr_vec (d_clk d) p (d_nodes d))"

definition DDR4_check_node_open :: "nat \<Rightarrow> int list \<Rightarrow> DDR4 \<Rightarrow> bool result" where
  "DDR4_check_node_open command addr_vec d =
     (case channel_of d addr_vec of
        Inl e \<Rightarrow> Inl e
      | Inr p \<Rightarrow> check_node_open (DDR4_spec d) command addr_vec (d_clk d) p (d_nodes d))"


section \<open>Energy\<close>

definition process_rank_energy :: "int list \<Rightarrow> rat list \<Rightarrow> rat list \<Rightarrow> int \<Rightarrow> PowerStats \<Rightarrow> PowerStats" where
  "process_rank_energy vals voltages currents clk st0 =
     (let st = finalize_rank clk st0;
          TS = (\<lambda>n. of_int (timing_val vals n) :: rat);
          VE = (\<lambda>n. voltages ! name_id DDR4_voltages n);
          CE = (\<lambda>n. currents ! name_id DDR4_currents n);
          N = (\<lambda>n. of_nat (cmd_counters st ! name_id DDR4_cmds_counted n) :: rat);
          tCK_ns = TS ''tCK_ps'' / 1000;
          act_bg = (VE ''VDD'' * CE ''IDD3N'' + VE ''VPP'' * CE ''IPP3N'') * of_int (active_cycles st) * tCK_ns / 1000;
          pre_bg = (VE ''VDD'' * CE ''IDD2N'' + VE ''VPP'' * CE ''IPP2N'') * of_int (idle_cycles st) * tCK_ns / 1000;
          act_cmd = (VE ''VDD'' * (CE ''IDD0'' - CE ''IDD3N'') + VE ''VPP'' * (CE ''IPP0'' - CE ''IPP3N''))
                      * N ''ACT'' * TS ''nRAS'' * tCK_ns / 1000;
          pre_cmd = (VE ''VDD'' * (CE ''IDD0'' - CE ''IDD2N'') + VE ''VPP'' * (CE ''IPP0'' - CE ''IPP2N''))
                      * N ''PRE'' * TS ''nRP'' * tCK_ns / 1000;
          rd_cmd = (VE ''VDD'' * (CE ''IDD4R'' - CE ''IDD3N'') + VE ''VPP'' * (CE ''IPP4R'' - CE ''IPP3N''))
                      * N ''RD'' * TS ''nBL'' * tCK_ns / 1000;
          wr_cmd = (VE ''VDD'' * (CE ''IDD4W'' - CE ''IDD3N'') + VE ''VPP'' * (CE ''IPP4W'' - CE ''IPP3N''))
                      * N ''WR'' * TS ''nBL'' * tCK_ns / 1000;
          ref_cmd = (VE ''VDD'' * CE ''IDD5B'' + VE ''VPP'' * CE ''IPP5B'')
                      * N ''REF'' * TS ''nRFC'' * tCK_ns / 1000;
          cmds = act_cmd + pre_cmd + rd_cmd + wr_cmd + ref_cmd
      in st\<lparr>act_background_energy := act_bg, pre_background_energy := pre_bg,
            total_background_energy := act_bg + pre_bg, total_cmd_energy := cmds,
            total_energy := act_bg + pre_bg + cmds\<rparr>)"

definition DDR4_finalize :: "DDR4 \<Rightarrow> DDR4" where
  "DDR4_finalize d =
     (if \<not> d_drampower_enable d then d
      else let ps = map (process_rank_energy (d_timing_vals d) (d_voltage_vals d) (d_current_vals d) (d_clk d))
                      (d_power_stats d)
           in d\<lparr>d_power_stats := ps,
                s_total_background_energy := s_total_background_energy d + sum_list (map total_background_energy ps),
                s_total_cmd_energy := s_total_cmd_energy d + sum_list (map total_cmd_energy ps),
                s_total_energy := s_total_energy d + sum_list (map total_energy ps)\<rparr>)"

end
