(* ===== verification/Dram_Ifce.thy ===== *)
theory Dram_Ifce
  imports Requests DDR4
begin

text \<open>
  The device interface \<^verbatim>\<open>IDRAM\<close> of \<^verbatim>\<open>dram/dram.h\<close>: the tables a standard publishes to its
  host and the virtual operations of the device, over the state of the device. The
  controller and its parts use a device only through this interface; \<open>DDR4_ifce\<close> is
  the interface of the DDR4 model.
\<close>

record 'd IDRAM =
  i_levels :: "string list"
  i_commands :: "string list"
  i_command_scopes :: "nat list"
  i_command_meta :: "DRAMCommandMeta list"
  i_requests :: "string list"
  i_request_translations :: "nat list"
  i_count :: "'d \<Rightarrow> int list"
  i_timing_val :: "string \<Rightarrow> 'd \<Rightarrow> int result"
  i_read_latency :: "'d \<Rightarrow> int"
  i_issue_command :: "int \<Rightarrow> int list \<Rightarrow> 'd \<Rightarrow> 'd result"
  i_get_preq_command :: "int \<Rightarrow> int list \<Rightarrow> 'd \<Rightarrow> int result"
  i_check_ready :: "int \<Rightarrow> int list \<Rightarrow> 'd \<Rightarrow> bool result"
  i_check_rowbuffer_hit :: "int \<Rightarrow> int list \<Rightarrow> 'd \<Rightarrow> bool result"
  i_check_node_open :: "int \<Rightarrow> int list \<Rightarrow> 'd \<Rightarrow> bool result"
  i_tick :: "'d \<Rightarrow> 'd result"

text \<open>\<^verbatim>\<open>SpecLUT::operator[]\<close>: an index that is negative or too large is compared as a large unsigned number.\<close>

definition SpecLUT_at :: "string list \<Rightarrow> 'v list \<Rightarrow> int \<Rightarrow> 'v result" where
  "SpecLUT_at names lut i = (if 0 \<le> i \<and> nat i < length names then of_opt Out_Of_Bounds (vec_at lut i) else Inl Out_Of_Range)"

definition get_level_size :: "'d IDRAM \<Rightarrow> 'd \<Rightarrow> string \<Rightarrow> int result" where
  "get_level_size I d name =
     (case SpecDef_id (i_levels I) name of
        Inl _ \<Rightarrow> Inr (-1)
      | Inr level_idx \<Rightarrow> of_opt Out_Of_Bounds (vec_at (i_count I d) (int level_idx)))"

definition meta_of :: "'d IDRAM \<Rightarrow> int \<Rightarrow> DRAMCommandMeta result" where
  "meta_of I c = SpecLUT_at (i_commands I) (i_command_meta I) c"

definition scope_of :: "'d IDRAM \<Rightarrow> int \<Rightarrow> nat result" where
  "scope_of I c = SpecLUT_at (i_commands I) (i_command_scopes I) c"

definition translation_of :: "'d IDRAM \<Rightarrow> int \<Rightarrow> int result" where
  "translation_of I type = bindr (SpecLUT_at (i_requests I) (i_request_translations I) type) (\<lambda>c. Inr (int c))"

text \<open>
  A high-priority request enters the priority buffer of its controller with the final
  command its type stands for. This is \<^verbatim>\<open>IDRAMController::priority_send\<close>, which the refresh
  manager, the row policies and the plugins call.
\<close>

definition priority_send :: "'d IDRAM \<Rightarrow> Request \<Rightarrow> ReqBuffer \<Rightarrow> (bool \<times> ReqBuffer) result" where
  "priority_send I req b =
     bindr (translation_of I (type_id req)) (\<lambda>c. Inr (enqueue b (req\<lparr>final_command := c\<rparr>)))"


section \<open>DDR4\<close>

text \<open>The device indexes its tables with the command number it is given.\<close>

definition with_command :: "int \<Rightarrow> (nat \<Rightarrow> 'a result) \<Rightarrow> 'a result" where
  "with_command c f = (if 0 \<le> c \<and> nat c < length DDR4_commands then f (nat c) else Inl Out_Of_Bounds)"

definition DDR4_ifce :: "DDR4 IDRAM" where
  "DDR4_ifce =
     \<lparr>i_levels = DDR4_levels, i_commands = DDR4_commands, i_command_scopes = the DDR4_command_scopes,
      i_command_meta = the DDR4_command_meta, i_requests = DDR4_requests,
      i_request_translations = the DDR4_request_translations,
      i_count = (\<lambda>d. count (d_org d)),
      i_timing_val = (\<lambda>n d. bindr (SpecDef_id DDR4_timings n) (\<lambda>i. of_opt Out_Of_Bounds (vec_at (d_timing_vals d) (int i)))),
      i_read_latency = d_read_latency,
      i_issue_command = (\<lambda>c a d. with_command c (\<lambda>n. DDR4_issue_command n a d)),
      i_get_preq_command = (\<lambda>c a d. with_command c (\<lambda>n. bindr (DDR4_get_preq_command n a d) (\<lambda>m. Inr (int m)))),
      i_check_ready = (\<lambda>c a d. with_command c (\<lambda>n. DDR4_check_ready n a d)),
      i_check_rowbuffer_hit = (\<lambda>c a d. with_command c (\<lambda>n. DDR4_check_rowbuffer_hit n a d)),
      i_check_node_open = (\<lambda>c a d. with_command c (\<lambda>n. DDR4_check_node_open n a d)),
      i_tick = DDR4_tick\<rparr>"

end
