(* ===== verification/Dram_Total.thy ===== *)
theory Dram_Total
  imports Dram_Node
begin

text \<open>
  On address vectors that fit the organization, the timing and state updates of the node tree
  return, and the readiness check turns true once the clock has passed.
\<close>

section \<open>Operations on valid addresses return\<close>

definition addr_ok :: "dram_spec \<Rightarrow> int list \<Rightarrow> bool" where
  "addr_ok sp addr_vec \<longleftrightarrow> sp_row_level sp < length addr_vec
     \<and> (\<forall>k. 1 \<le> k \<and> k < sp_row_level sp \<longrightarrow>
          addr_vec ! k = -1 \<or> 0 \<le> addr_vec ! k \<and> addr_vec ! k < sp_counts sp ! k)"

definition windows_ok :: "dram_spec \<Rightarrow> bool" where
  "windows_ok sp \<longleftrightarrow> (\<forall>l c. l < sp_row_level sp \<and> c < sp_num_cmds sp \<longrightarrow>
     (\<forall>t \<in> set (sp_timing_cons sp ! l ! c). 1 \<le> tc_window t))"

lemma fold_result_total:
  "(\<And>x s. x \<in> set xs \<Longrightarrow> Q s \<Longrightarrow> \<exists>s'. f x s = Inr s' \<and> Q s') \<Longrightarrow> Q s \<Longrightarrow>
   \<exists>s'. fold_result f xs s = Inr s' \<and> Q s'"
proof (induction xs arbitrary: s)
  case (Cons x xs)
  obtain s1 where "f x s = Inr s1" "Q s1" using Cons.prems by (metis list.set_intros(1))
  then show ?case using Cons.IH [of s1] Cons.prems(1) by simp
qed simp

lemma target_timing_total:
  "(\<And>t. t \<in> set ts \<Longrightarrow> 1 \<le> tc_window t \<and> nat (tc_window t) \<le> length h) \<Longrightarrow>
   \<exists>ready'. target_timing ts h ready = Inr ready'"
proof (induction ts arbitrary: ready)
  case (Cons t ts)
  have "vec_at h (tc_window t - 1) = Some (h ! nat (tc_window t - 1))"
    using Cons.prems [of t] by (auto simp: vec_at_def)
  then show ?case using Cons by simp
qed simp

lemma update_timing_total:
  assumes "timing_neutral sp" and "windows_ok sp" and addr: "addr_ok sp addr_vec" and c: "c < sp_num_cmds sp"
  shows "histories_ok sp s \<Longrightarrow> p \<noteq> [] \<Longrightarrow> length p \<le> sp_row_level sp \<Longrightarrow>
     \<exists>s'. update_timing sp c addr_vec clk p s = Inr s' \<and> histories_ok sp s'"
proof (induction "sp_row_level sp - length p" arbitrary: p s rule: less_induct)
  case less
  have keep: "histories_ok sp b" if "update_timing sp c addr_vec clk q a = Inr b" "histories_ok sp a" for q a b
    using node_steps_histories [OF _ assms(1) that(2)] step_timing [OF that(1)] by blast
  have lev: "level_of p < sp_row_level sp" using less.prems by (cases p) (auto simp: level_of_def)
  then obtain target where t: "vec_at addr_vec (int (level_of p)) = Some target"
    using addr by (simp add: addr_ok_def)
  have "\<exists>s'. update_timing sp c addr_vec clk p s = Inr s'"
  proof (cases "int (last p) \<noteq> target \<and> target \<noteq> -1")
    case True
    then show ?thesis using t by (subst update_timing.simps) (simp add: Let_def)
  next
    case False
    let ?hs = "push_history c clk (m_cmd_history (s p))" and ?ts = "sp_timing_cons sp ! level_of p ! c"
    have "length (?hs ! c) = nat (history_window ?ts)"
      using less.prems(1) c by (simp add: push_history_lengths histories_ok_def)
    then have "1 \<le> tc_window t \<and> nat (tc_window t) \<le> length (?hs ! c)" if "t \<in> set ?ts" for t
      using assms(2) lev c history_window_ge [OF that] that by (simp add: windows_ok_def nat_mono)
    then obtain ready where r: "target_timing ?ts (?hs ! c) (m_cmd_ready_clk (s p)) = Inr ready"
      using target_timing_total by blast
    let ?s = "s(p := (s p)\<lparr>m_cmd_history := ?hs, m_cmd_ready_clk := ready\<rparr>)"
    have "length ready = length (m_cmd_ready_clk (s p))"
      using target_timing_le [OF r] by (simp add: clocks_le_def)
    then have ok: "histories_ok sp ?s"
      using less.prems(1) by (auto simp: histories_ok_def push_history_lengths)
    have "\<exists>b. update_timing sp c addr_vec clk (p @ [i]) a = Inr b \<and> histories_ok sp b"
      if "i \<in> set [0..<num_children sp p]" "histories_ok sp a" for i a
      using less.hyps [OF child_smaller [OF that(1)] that(2)] that(1)
      by (auto simp: num_children_def split: if_splits)
    then have "\<exists>s'. fold_result (\<lambda>i. update_timing sp c addr_vec clk (p @ [i])) [0..<num_children sp p] ?s = Inr s'
        \<and> histories_ok sp s'"
      using ok by (intro fold_result_total)
    then obtain s' where "fold_result (\<lambda>i. update_timing sp c addr_vec clk (p @ [i])) [0..<num_children sp p] ?s = Inr s'"
      by blast
    then show ?thesis using t False r by (subst update_timing.simps) (auto simp: Let_def)
  qed
  with keep less.prems(1) show ?case by blast
qed

lemma addr_child:
  assumes "addr_ok sp addr_vec" and "p \<noteq> []"
  shows "num_children sp p \<noteq> 0 \<Longrightarrow> vec_at addr_vec (int (length p)) = Some (addr_vec ! length p)
    \<and> (addr_vec ! length p = -1 \<or> 0 \<le> addr_vec ! length p \<and> nat (addr_vec ! length p) < num_children sp p)"
proof -
  assume "num_children sp p \<noteq> 0"
  then have len: "length p < sp_row_level sp" "1 \<le> length p"
    using assms(2) by (auto simp: num_children_def Suc_le_eq split: if_splits)
  then have "vec_at addr_vec (int (length p)) = Some (addr_vec ! length p)"
    using assms(1) by (simp add: addr_ok_def)
  moreover have "addr_vec ! length p = -1 \<or> 0 \<le> addr_vec ! length p \<and> addr_vec ! length p < sp_counts sp ! length p"
    using assms(1) len by (simp add: addr_ok_def)
  ultimately show ?thesis using len(1) by (auto simp: num_children_def nat_less_iff)
qed

lemma update_states_total:
  assumes addr: "addr_ok sp addr_vec"
  shows "p \<noteq> [] \<Longrightarrow> length p \<le> sp_row_level sp \<Longrightarrow> \<exists>s'. update_states sp c addr_vec clk p s = Inr s'"
proof (induction "sp_row_level sp - length p" arbitrary: p s rule: less_induct)
  case less
  obtain child where v: "vec_at addr_vec (int (length p)) = Some child"
    using addr less.prems by (simp add: addr_ok_def)
  have kid: "\<exists>b. update_states sp c addr_vec clk (p @ [i]) a = Inr b" if "i \<in> set [0..<num_children sp p]" for i a
    using less.hyps [OF child_smaller [OF that]] that by (auto simp: num_children_def split: if_splits)
  then have all: "\<exists>b. fold_result (\<lambda>i. update_states sp c addr_vec clk (p @ [i])) [0..<num_children sp p] a = Inr b" for a
    using fold_result_total [of "[0..<num_children sp p]" "\<lambda>_. True" "\<lambda>i. update_states sp c addr_vec clk (p @ [i])"]
    by simp
  show ?case
  proof (cases "level_of p = sp_command_scopes sp ! c \<or> num_children sp p = 0")
    case True
    then show ?thesis using v by (subst update_states.simps) (auto simp: Let_def)
  next
    case False
    then show ?thesis
      using v all kid [of "nat child"] addr_child [OF addr less.prems(1)]
      by (subst update_states.simps) (auto simp: Let_def)
  qed
qed

text \<open>Once all clocks of the tree have passed, the check answers yes.\<close>

lemma all_result_True_intro: "(\<And>x. x \<in> set xs \<Longrightarrow> f x = Inr True) \<Longrightarrow> all_result f xs = Inr True"
  by (induction xs) auto

lemma check_ready_after:
  assumes addr: "addr_ok sp addr_vec"
  shows "p \<noteq> [] \<Longrightarrow> length p \<le> sp_row_level sp \<Longrightarrow>
     (\<And>r. in_tree sp p r \<Longrightarrow> m_cmd_ready_clk (s (p @ r)) ! c \<le> clk) \<Longrightarrow> check_ready sp c addr_vec clk p s = Inr True"
proof (induction "sp_row_level sp - length p" arbitrary: p rule: less_induct)
  case less
  obtain child where v: "vec_at addr_vec (int (length p)) = Some child"
    using addr less.prems by (simp add: addr_ok_def)
  have here: "m_cmd_ready_clk (s p) ! c \<le> clk" using less.prems(3) [of "[]"] by simp
  have kid: "check_ready sp c addr_vec clk (p @ [i]) s = Inr True" if "i \<in> set [0..<num_children sp p]" for i
  proof (rule less.hyps [OF child_smaller [OF that]])
    show "length (p @ [i]) \<le> sp_row_level sp" using that by (auto simp: num_children_def split: if_splits)
    show "m_cmd_ready_clk (s ((p @ [i]) @ r)) ! c \<le> clk" if "in_tree sp (p @ [i]) r" for r
      using less.prems(3) [of "i # r"] that \<open>i \<in> _\<close> by simp
  qed simp
  show ?case
  proof (cases "level_of p = sp_command_scopes sp ! c \<or> num_children sp p = 0")
    case True
    then show ?thesis using v here by (subst check_ready.simps) auto
  next
    case False
    then show ?thesis
      using v here kid [of "nat child"] addr_child [OF addr less.prems(1)]
        all_result_True_intro [of "[0..<num_children sp p]", OF kid]
      by (subst check_ready.simps) auto
  qed
qed

lemma tree_finite: "finite {r. in_tree sp p r}"
proof (induction "sp_row_level sp - length p" arbitrary: p rule: less_induct)
  case less
  have "{r. in_tree sp p r} \<subseteq> insert [] (\<Union>i \<in> set [0..<num_children sp p]. (#) i ` {r. in_tree sp (p @ [i]) r})"
  proof
    fix r assume "r \<in> {r. in_tree sp p r}"
    then show "r \<in> insert [] (\<Union>i \<in> set [0..<num_children sp p]. (#) i ` {r. in_tree sp (p @ [i]) r})"
      by (cases r) auto
  qed
  moreover have "finite \<dots>" using less [OF child_smaller] by blast
  ultimately show ?case by (rule finite_subset)
qed

lemma check_ready_eventually:
  assumes "addr_ok sp addr_vec" and "p \<noteq> []" and "length p \<le> sp_row_level sp"
  shows "\<exists>K. \<forall>clk \<ge> K. check_ready sp c addr_vec clk p s = Inr True"
proof -
  let ?K = "Max ((\<lambda>r. m_cmd_ready_clk (s (p @ r)) ! c) ` {r. in_tree sp p r})"
  have K: "m_cmd_ready_clk (s (p @ r)) ! c \<le> ?K" if "in_tree sp p r" for r
    using tree_finite that by (intro Max_ge) auto
  have "check_ready sp c addr_vec clk p s = Inr True" if "?K \<le> clk" for clk
    by (rule check_ready_after [OF assms]) (rule order_trans [OF K that])
  then show ?thesis by blast
qed

end
