(* ===== verification/DDR4_Device.thy ===== *)
theory DDR4_Device
  imports DDR4 Dram_Total
begin

text \<open>
  Correctness of the DDR4 device: its presets initialise, its commands respect the timing
  constraints of the standard, and, when commands are issued as their prerequisites and the
  timing allow, a bank never has more than one open row and is not refreshed while open.
\<close>

section \<open>The names as numbers\<close>

lemma d_level_ids [simp]:
  "d_level ''channel'' = 0" "d_level ''rank'' = 1" "d_level ''bankgroup'' = 2" "d_level ''bank'' = 3"
  "d_level ''row'' = 4" "d_level ''column'' = 5"
  by code_simp+

lemma d_cmd_ids [simp]:
  "d_cmd ''ACT'' = 0" "d_cmd ''PRE'' = 1" "d_cmd ''PREA'' = 2" "d_cmd ''RD'' = 3" "d_cmd ''WR'' = 4"
  "d_cmd ''RDA'' = 5" "d_cmd ''WRA'' = 6" "d_cmd ''REFab'' = 7" "d_cmd ''REFab_end'' = 8"
  by code_simp+

lemma d_state_ids [simp]:
  "st_opened DDR4_std = 0" "st_closed DDR4_std = 1" "st_refreshing DDR4_std = 4"
  by code_simp+

lemma d_std [simp]: "std_levels DDR4_std = DDR4_levels" "std_commands DDR4_std = DDR4_commands"
  by (simp_all add: DDR4_std_def)

lemma d_timing_ids [simp]:
  "name_id DDR4_timings ''rate'' = 0" "name_id DDR4_timings ''nRAS'' = 5" "name_id DDR4_timings ''nRP'' = 4"
  "name_id DDR4_timings ''nRC'' = 6" "name_id DDR4_timings ''nCL'' = 2" "name_id DDR4_timings ''nBL'' = 1"
  "name_id DDR4_timings ''nCWL'' = 9" "name_id DDR4_timings ''nRFC'' = 17" "name_id DDR4_timings ''nREFI'' = 18"
  "name_id DDR4_timings ''nFAW'' = 16" "name_id DDR4_timings ''nRRDS'' = 12" "name_id DDR4_timings ''nRRDL'' = 13"
  "name_id DDR4_timings ''tCK_ps'' = 20" "name_id DDR4_timings ''nCCDS'' = 10" "name_id DDR4_timings ''nCCDL'' = 11"
  by code_simp+

lemma DDR4_tables:
  "the DDR4_command_scopes = [4, 3, 1, 5, 5, 5, 5, 1, 1]" "the DDR4_init_states = [3, 2, 3, 1, 1, 3]"
  "the DDR4_request_translations = [3, 4, 7, 0, 1]" "length DDR4_commands = 9" "length DDR4_levels = 6"
  by code_simp+

lemma DDR4_spec_fields [simp]:
  "sp_counts (DDR4_spec_of org cs pw) = count org" "sp_row_level (DDR4_spec_of org cs pw) = 4"
  "sp_num_cmds (DDR4_spec_of org cs pw) = 9" "sp_command_scopes (DDR4_spec_of org cs pw) = [4, 3, 1, 5, 5, 5, 5, 1, 1]"
  "sp_init_states (DDR4_spec_of org cs pw) = [3, 2, 3, 1, 1, 3]" "sp_timing_cons (DDR4_spec_of org cs pw) = cs"
  "sp_actions (DDR4_spec_of org cs pw) = DDR4_actions org" "sp_preqs (DDR4_spec_of org cs pw) = DDR4_preqs org"
  "sp_drampower_enable (DDR4_spec_of org cs pw) = pw"
  by (simp_all add: DDR4_spec_of_def DDR4_tables)

lemma org_children_num [simp]: "num_children (DDR4_spec_of org cs pw) = org_children org"
  by (simp add: fun_eq_iff num_children_def org_children_def)

lemma DDR4_actions_table:
  "DDR4_actions org l c =
     (if l = 1 \<and> c = 2 then Some (Rank_PREab DDR4_std (org_children org))
      else if l = 1 \<and> c = 7 then Some (Rank_REFab DDR4_std (org_children org))
      else if l = 1 \<and> c = 8 then Some (Rank_REFab_end DDR4_std (org_children org))
      else if l = 3 \<and> c = 0 then Some (Bank_ACT DDR4_std)
      else if l = 3 \<and> c \<in> {1, 5, 6} then Some (Bank_PRE DDR4_std) else None)"
  by (simp add: DDR4_actions_def table_def)

lemma DDR4_preqs_table:
  "DDR4_preqs org l c =
     (if l = 1 \<and> c = 7 then Some (Rank_RequireAllBanksClosed DDR4_std (org_children org))
      else if l = 3 \<and> c \<in> {0, 3, 4} then Some (RequireRowOpen DDR4_std)
      else if l = 3 \<and> c = 1 then Some (RequireBankClosed DDR4_std) else None)"
  by (simp add: DDR4_preqs_def table_def)

lemma DDR4_timing_neutral: "timing_neutral (DDR4_spec_of org cs pw)"
  by (rule timing_neutralI) (auto simp: DDR4_actions_table split: if_splits)


section \<open>The presets\<close>

text \<open>A configuration that names the two presets and nothing else.\<close>

definition preset_params :: "string \<Rightarrow> string \<Rightarrow> dram_params" where
  "preset_params n m = \<lparr>org_channel_width = None, org_preset = Some n, org_dq = None, org_level = (\<lambda>_. None),
     org_density = None, timing_preset = Some m, timing_rate = None, timing_cycles = (\<lambda>_. None),
     timing_ns = (\<lambda>_. None), drampower_enable = False, voltage_preset = None, current_preset = None\<rparr>"

text \<open>
  What the timing values of a preset satisfy: all are given and positive, the row cycle is the
  row active time plus the precharge time, the long variants are no shorter than the short
  ones, four activates fit their window, a refresh ends before the next is due, and the
  latency from read to write is not negative.
\<close>

definition timings_ok :: "int list \<Rightarrow> bool" where
  "timings_ok vals \<longleftrightarrow> length vals = 21 \<and> list_all (\<lambda>v. 0 < v) vals
     \<and> timing_val vals ''nRC'' = timing_val vals ''nRAS'' + timing_val vals ''nRP''
     \<and> timing_val vals ''nCCDS'' \<le> timing_val vals ''nCCDL''
     \<and> timing_val vals ''nRRDS'' \<le> timing_val vals ''nRRDL''
     \<and> 4 * timing_val vals ''nRRDS'' \<le> timing_val vals ''nFAW''
     \<and> 2 \<le> timing_val vals ''nRFC'' \<and> timing_val vals ''nRFC'' < timing_val vals ''nREFI''
     \<and> timing_val vals ''nCWL'' \<le> timing_val vals ''nCL'' + timing_val vals ''nBL'' + 2"

definition org_ok :: "Organization \<Rightarrow> bool" where
  "org_ok org \<longleftrightarrow> length (count org) = 6 \<and> list_all (\<lambda>n. 0 < n) (count org)"

lemma no_overrides:
  "fold_result (override_timing (preset_params n m) t) is vals = Inr vals"
  by (induction "is") (simp_all add: override_timing_def Let_def preset_params_def)

lemma preset_lookup: "distinct (map fst kvs) \<Longrightarrow> (k, v) \<in> set kvs \<Longrightarrow> load_preset kvs (Some k) d = Inr v"
  by (simp add: load_preset_def)

lemma org_preset_names: "distinct (map fst DDR4_org_presets)"
  by code_simp

lemma timing_preset_names: "distinct (map fst DDR4_timing_presets)"
  by code_simp

lemma map2_None: "length ns = length cs \<Longrightarrow> map2 (\<lambda>n. override None) ns cs = cs"
  by (induction ns cs rule: list_induct2) (simp_all add: override_def)

lemma org_presets_ok:
  assumes "(n, org) \<in> set DDR4_org_presets"
  shows "DDR4_set_organization (preset_params n m) = Inr org" and "org_ok org"
    and "dq org \<in> {4, 8, 16}" and "density org \<in> {2048, 4096, 8192, 16384}"
proof -
  have "list_all (\<lambda>(n, org). to_size_t (density org) = chip_density org \<and> org_ok org
      \<and> dq org \<in> {4, 8, 16} \<and> density org \<in> {2048, 4096, 8192, 16384}) DDR4_org_presets"
    by code_simp
  then have org: "to_size_t (density org) = chip_density org" "org_ok org"
    and "dq org \<in> {4, 8, 16}" "density org \<in> {2048, 4096, 8192, 16384}"
    using assms by (auto simp: list_all_iff)
  then show "org_ok org" "dq org \<in> {4, 8, 16}" "density org \<in> {2048, 4096, 8192, 16384}" by simp_all
  have "length DDR4_levels = length (count org)" using org(2) by (simp add: org_ok_def DDR4_tables)
  then show "DDR4_set_organization (preset_params n m) = Inr org"
    using org preset_lookup [OF org_preset_names assms]
    by (simp add: DDR4_set_organization_def preset_params_def map2_None) (simp add: override_def)
qed


text \<open>The refresh timings of a preset in integer arithmetic.\<close>

definition cycles :: "int \<Rightarrow> int \<Rightarrow> int" where
  "cycles t tCK_ps = (t * 1000000 div tCK_ps + 974) div 1000"

lemma JEDEC_cycles:
  assumes "0 < tCK_ps" and "tCK_ps < 2 ^ 31" and "0 \<le> t" and "t < 10000"
  shows "\<exists>n. JEDEC_rounding (of_int t) tCK_ps = Inr n \<and> int n = cycles t tCK_ps"
proof -
  have fl: "nat \<lfloor>of_int t * (1000::rat)\<rfloor> = nat (t * 1000)"
    by (metis floor_of_int of_int_mult of_int_numeral)
  have "nat (take_bit 64 tCK_ps) = nat tCK_ps" using assms(1,2) by (simp add: take_bit_int_eq_self)
  moreover have "take_bit 64 (nat (t * 1000) * 1000) = nat (t * 1000) * 1000"
    using assms(3,4) by (intro take_bit_nat_eq_self) simp
  ultimately have "JEDEC_rounding (of_int t) tCK_ps = Inr ((nat (t * 1000) * 1000 div nat tCK_ps + 974) div 1000)"
    using assms(1) by (simp add: JEDEC_rounding_def fl Let_def)
  moreover have "int ((nat (t * 1000) * 1000 div nat tCK_ps + 974) div 1000) = cycles t tCK_ps"
    using assms(1,3) by (simp add: cycles_def zdiv_int mult.commute)
  ultimately show ?thesis by blast
qed

definition tRFC_ns :: "int \<Rightarrow> int" where
  "tRFC_ns Mb = (if Mb = 2048 then 160 else if Mb = 4096 then 260 else if Mb = 8192 then 360 else 550)"

lemma refresh_timings_cycles:
  assumes "Mb \<in> {2048, 4096, 8192, 16384}" and "0 < tCK_ps" and "tCK_ps < 2 ^ 31"
  shows "refresh_timings Mb tCK_ps vals =
    Inr (vals[17 := cycles (tRFC_ns Mb) tCK_ps, 18 := cycles 7800 tCK_ps])"
proof -
  have "vec_at (tRFC_TABLE ! 0) (DDR4_density_id Mb) = Some (of_int (tRFC_ns Mb))" "tREFI_BASE = of_int 7800"
    "0 \<le> tRFC_ns Mb" "tRFC_ns Mb < 10000"
    using assms(1) by (auto simp: vec_at_def tRFC_TABLE_def DDR4_density_id_def tRFC_ns_def tREFI_BASE_def)
  with JEDEC_cycles [OF assms(2,3), of "tRFC_ns Mb"] JEDEC_cycles [OF assms(2,3), of 7800] show ?thesis
    by (auto simp: refresh_timings_def set_timing_val_def)
qed

text \<open>The values of a preset and their check, by number instead of by name.\<close>

definition preset_vals :: "int \<Rightarrow> int \<Rightarrow> int list \<Rightarrow> int \<Rightarrow> int list" where
  "preset_vals q Mb vals t =
     (let i = nat (DDR4_dq_id q); j = nat (DDR4_rate_id (vals ! 0)) in
      vals[20 := t, 12 := nRRDS_TABLE ! i ! j, 13 := nRRDL_TABLE ! i ! j, 16 := nFAW_TABLE ! i ! j,
           17 := cycles (tRFC_ns Mb) t, 18 := cycles 7800 t])"

definition base_checked :: "int list \<Rightarrow> bool" where
  "base_checked vals \<longleftrightarrow> length vals = 21 \<and> vals ! 0 \<in> {1600, 1866, 2133, 2400, 2666, 2933, 3200}
     \<and> list_all (\<lambda>k. 0 < vals ! k) ([0..<12] @ [14, 15, 19])
     \<and> vals ! 6 = vals ! 5 + vals ! 4 \<and> vals ! 10 \<le> vals ! 11 \<and> vals ! 9 \<le> vals ! 2 + vals ! 1 + 2"

lemma bases_checked: "list_all (\<lambda>(m, vals). base_checked vals) DDR4_timing_presets"
  by code_simp

lemma tables_checked:
  "i < 3 \<Longrightarrow> j < 7 \<Longrightarrow> 0 < nRRDS_TABLE ! i ! j \<and> nRRDS_TABLE ! i ! j \<le> nRRDL_TABLE ! i ! j
     \<and> 4 * nRRDS_TABLE ! i ! j \<le> nFAW_TABLE ! i ! j"
proof -
  assume "i < 3" "j < 7"
  then have "i \<in> {0, 1, 2}" "j \<in> {0, 1, 2, 3, 4, 5, 6}" by auto
  then show ?thesis by (auto simp: nRRDS_TABLE_def nRRDL_TABLE_def nFAW_TABLE_def)
qed

lemma cycles_listed:
  "list_all (\<lambda>rate. list_all (\<lambda>Mb. case rate_tCK_ps rate of Inl e \<Rightarrow> False | Inr t \<Rightarrow> 0 < t \<and> t < 2 ^ 31
      \<and> 2 \<le> cycles (tRFC_ns Mb) t \<and> cycles (tRFC_ns Mb) t < cycles 7800 t) [2048, 4096, 8192, 16384])
     [1600, 1866, 2133, 2400, 2666, 2933, 3200]"
  by code_simp

lemma cycles_checked:
  assumes "rate \<in> {1600, 1866, 2133, 2400, 2666, 2933, 3200}" and "Mb \<in> {2048, 4096, 8192, 16384}"
  shows "\<exists>t. rate_tCK_ps rate = Inr t \<and> 0 < t \<and> t < 2 ^ 31
     \<and> 2 \<le> cycles (tRFC_ns Mb) t \<and> cycles (tRFC_ns Mb) t < cycles 7800 t"
proof -
  have "rate \<in> set [1600, 1866, 2133, 2400, 2666, 2933, 3200]" "Mb \<in> set [2048, 4096, 8192, 16384]"
    using assms by simp_all
  with cycles_listed show ?thesis unfolding list_all_iff by (fastforce split: sum.splits)
qed

lemma timings_ok_preset:
  assumes "base_checked vals" and "q \<in> {4, 8, 16}" and "0 < t"
    and "2 \<le> cycles (tRFC_ns Mb) t" and "cycles (tRFC_ns Mb) t < cycles 7800 t"
  shows "timings_ok (preset_vals q Mb vals t)"
proof -
  define i j where "i = nat (DDR4_dq_id q)" and "j = nat (DDR4_rate_id (vals ! 0))"
  let ?vals = "preset_vals q Mb vals t"
  have len: "length ?vals = 21" "length vals = 21" using assms(1) by (simp_all add: base_checked_def preset_vals_def Let_def)
  have "i < 3" "j < 7" using assms(1,2) by (auto simp: i_def j_def DDR4_dq_id_def DDR4_rate_id_def base_checked_def)
  note tab = tables_checked [OF this]
  have vals: "?vals ! k = (if k = 20 then t else if k = 12 then nRRDS_TABLE ! i ! j else if k = 13 then nRRDL_TABLE ! i ! j
     else if k = 16 then nFAW_TABLE ! i ! j else if k = 17 then cycles (tRFC_ns Mb) t else if k = 18 then cycles 7800 t
     else vals ! k)" if "k < 21" for k
    using that len by (auto simp: preset_vals_def i_def j_def nth_list_update Let_def)
  have pos: "0 < vals ! k" if "k < 12 \<or> k \<in> {14, 15, 19}" for k
    using assms(1) that by (auto simp: base_checked_def list_all_iff)
  have "0 < ?vals ! k" if "k < 21" for k
  proof (cases "k < 12 \<or> k \<in> {14, 15, 19}")
    case True
    then have "k \<notin> {12, 13, 16, 17, 18, 20}" by auto
    then have "?vals ! k = vals ! k" using vals [OF that] by simp
    then show ?thesis using pos [OF True] by simp
  next
    case False
    then have "k \<in> {12, 13, 16, 17, 18, 20}" using that by auto
    then show ?thesis using vals [OF that] tab assms(3-5) by auto
  qed
  then have "list_all (\<lambda>v. 0 < v) ?vals" using len by (simp add: list_all_length)
  moreover have "vals ! 6 = vals ! 5 + vals ! 4" "vals ! 10 \<le> vals ! 11" "vals ! 9 \<le> vals ! 2 + vals ! 1 + 2"
    using assms(1) by (simp_all add: base_checked_def)
  ultimately show ?thesis
    using len tab assms(4,5) by (simp add: timings_ok_def timing_val_def vals)
qed

lemma timing_presets_ok:
  assumes "(m, vals0) \<in> set DDR4_timing_presets" and "dq org \<in> {4, 8, 16}" "density org \<in> {2048, 4096, 8192, 16384}"
  shows "\<exists>vals. DDR4_timing_vals (preset_params n m) org = Inr vals \<and> timings_ok vals"
proof -
  have base: "base_checked vals0" using bases_checked assms(1) by (auto simp: list_all_iff)
  then obtain t where t: "rate_tCK_ps (vals0 ! 0) = Inr t" "0 < t" "t < 2 ^ 31"
    "2 \<le> cycles (tRFC_ns (density org)) t" "cycles (tRFC_ns (density org)) t < cycles 7800 t"
    using cycles_checked [OF _ assms(3)] by (auto simp: base_checked_def)
  note ok = timings_ok_preset [OF base assms(2) t(2,4,5)]
  have vals: "(secondary_timings (dq org) (vals0[20 := t]))[17 := cycles (tRFC_ns (density org)) t, 18 := cycles 7800 t]
      = preset_vals (dq org) (density org) vals0 t"
    using base assms(2)
    by (auto simp: preset_vals_def secondary_timings_def Let_def timing_val_def set_timing_val_def DDR4_dq_id_def
        DDR4_rate_id_def base_checked_def)
  have "-1 \<notin> set (preset_vals (dq org) (density org) vals0 t)"
    using ok by (auto simp: timings_ok_def list_all_iff)
  moreover have "timing_preset (preset_params n m) = Some m" "timing_rate (preset_params n m) = None"
    by (simp_all add: preset_params_def)
  ultimately have "DDR4_timing_vals (preset_params n m) org = Inr (preset_vals (dq org) (density org) vals0 t)"
    using t(1) preset_lookup [OF timing_preset_names assms(1)] refresh_timings_cycles [OF assms(3) t(2,3)] vals
    by (simp add: DDR4_timing_vals_def no_overrides Let_def override_def set_timing_val_def timing_val_def)
  with ok show ?thesis by blast
qed


section \<open>The timing constraints\<close>

lemma DDR4_names_ok: "list_all (names_ok DDR4_levels DDR4_commands) (DDR4_timing_constraints V)"
proof -
  have "list_all (\<lambda>n. known DDR4_levels n) [''channel'', ''rank'', ''bankgroup'', ''bank'']"
    "list_all (\<lambda>n. known DDR4_commands n) [''ACT'', ''PRE'', ''PREA'', ''RD'', ''WR'', ''RDA'', ''WRA'', ''REFab'']"
    by code_simp+
  then show ?thesis by (simp add: DDR4_timing_constraints_def names_ok_def cons_def)
qed

lemma DDR4_timing_cons_Some: "\<exists>cs. DDR4_timing_cons vals = Some cs"
  using populate_timingcons_Some [OF DDR4_names_ok] by (simp add: DDR4_timing_cons_def)

lemma DDR4_init_eq:
  assumes "DDR4_init P = Inr d"
  shows "DDR4_set_organization P = Inr (d_org d)" "DDR4_timing_vals P (d_org d) = Inr (d_timing_vals d)"
    "DDR4_timing_cons (d_timing_vals d) = Some (d_timing_cons d)" "d_nodes d = new_nodes (DDR4_spec d)"
    "d_future_actions d = []" "d_clk d = 0" "d_channels d = nat (count (d_org d) ! 0)"
  using assms
  by (auto simp: DDR4_init_def split: sum.splits option.splits prod.splits)

lemma DDR4_init_preset:
  assumes n: "(n, org) \<in> set DDR4_org_presets" and m: "(m, vals0) \<in> set DDR4_timing_presets"
  shows "\<exists>d. DDR4_init (preset_params n m) = Inr d \<and> d_org d = org \<and> org_ok org \<and> timings_ok (d_timing_vals d)
    \<and> \<not> d_drampower_enable d"
proof -
  note org = org_presets_ok [OF n]
  obtain vals where vals: "DDR4_timing_vals (preset_params n m) org = Inr vals" "timings_ok vals"
    using timing_presets_ok [OF m org(3,4)] by blast
  obtain cs where cs: "DDR4_timing_cons vals = Some cs" using DDR4_timing_cons_Some by blast
  have "DDR4_set_powers (preset_params n m) org = Inr ([], [], [])" "\<not> drampower_enable (preset_params n m)"
    by (simp_all add: DDR4_set_powers_def preset_params_def)
  with org vals cs show ?thesis by (simp add: DDR4_init_def)
qed

text \<open>
  C31. The presets are consistent. Every organization preset together with every speed preset
  initialises the device, with the organization of the preset and timing values that are all
  given and satisfy the relations of \<^const>\<open>timings_ok\<close>.
\<close>

theorem ddr4_presets_initialise:
  "list_all (\<lambda>(n, org). list_all (\<lambda>(m, vals).
      case DDR4_init (preset_params n m) of
        Inl e \<Rightarrow> False
      | Inr d \<Rightarrow> d_org d = org \<and> org_ok org \<and> timings_ok (d_timing_vals d)) DDR4_timing_presets) DDR4_org_presets"
  unfolding list_all_iff using DDR4_init_preset by fastforce

section \<open>Runs\<close>

text \<open>The runs of the device with the trace of its commands, whatever the host issues.\<close>

inductive ddr4_run :: "dram_params \<Rightarrow> issued list \<Rightarrow> DDR4 \<Rightarrow> bool" for P where
  ddr4_start: "DDR4_init P = Inr d \<Longrightarrow> ddr4_run P [] d"
| ddr4_tick: "ddr4_run P trace d \<Longrightarrow> DDR4_tick d = Inr d' \<Longrightarrow> ddr4_run P trace d'"
| ddr4_issue: "ddr4_run P trace d \<Longrightarrow> DDR4_issue_command c addr_vec d = Inr d' \<Longrightarrow>
     ddr4_run P ((c, addr_vec, nat (addr_vec ! 0), d_clk d) # trace) d'"

text \<open>What no operation changes.\<close>

definition same_setup :: "DDR4 \<Rightarrow> DDR4 \<Rightarrow> bool" where
  "same_setup d d' \<longleftrightarrow> d_org d' = d_org d \<and> d_timing_vals d' = d_timing_vals d \<and> d_timing_cons d' = d_timing_cons d
     \<and> d_drampower_enable d' = d_drampower_enable d \<and> d_channels d' = d_channels d"

lemma update_device_eq:
  assumes "update_device c addr_vec p d = Inr d'"
  shows "update_states (DDR4_spec d) c addr_vec (d_clk d) p (d_nodes d) = Inr (d_nodes d')"
    "same_setup d d'" "d_clk d' = d_clk d" "d_future_actions d' = d_future_actions d"
  using assms by (auto simp: update_device_def same_setup_def split: sum.splits)

lemma handle_future_action_eq:
  assumes "handle_future_action c addr_vec d = Inr d'"
  shows "same_setup d d'" "d_clk d' = d_clk d" "d_future_actions d' = d_future_actions d"
    "d_nodes d' = d_nodes d \<or> (\<exists>p. channel_of d addr_vec = Inr p
       \<and> update_states (DDR4_spec d) 8 addr_vec (d_clk d) p (d_nodes d) = Inr (d_nodes d'))"
proof -
  obtain p where p: "channel_of d addr_vec = Inr p"
    and u: "if c = 7 then update_device 8 addr_vec p d = Inr d' else d' = d"
    using assms by (auto simp: handle_future_action_def split: sum.splits if_splits)
  have "same_setup d d' \<and> d_clk d' = d_clk d \<and> d_future_actions d' = d_future_actions d
    \<and> (d_nodes d' = d_nodes d \<or> update_states (DDR4_spec d) 8 addr_vec (d_clk d) p (d_nodes d) = Inr (d_nodes d'))"
  proof (cases "c = 7")
    case True
    then show ?thesis using update_device_eq [of 8 addr_vec p d d'] u by simp
  next
    case False
    then show ?thesis using u by (simp add: same_setup_def)
  qed
  with p show "same_setup d d'" "d_clk d' = d_clk d" "d_future_actions d' = d_future_actions d"
    "d_nodes d' = d_nodes d \<or> (\<exists>p. channel_of d addr_vec = Inr p
       \<and> update_states (DDR4_spec d) 8 addr_vec (d_clk d) p (d_nodes d) = Inr (d_nodes d'))" by blast+
qed

lemma issue_command_eq:
  assumes "DDR4_issue_command c addr_vec d = Inr d'"
  shows "\<exists>s. update_timing (DDR4_spec d) c addr_vec (d_clk d) [nat (addr_vec ! 0)] (d_nodes d) = Inr s
      \<and> update_states (DDR4_spec d) c addr_vec (d_clk d) [nat (addr_vec ! 0)] s = Inr (d_nodes d')"
    "same_setup d d'" "d_clk d' = d_clk d" "nat (addr_vec ! 0) < d_channels d" "channel_of d addr_vec = Inr [nat (addr_vec ! 0)]"
    "d_future_actions d' = (if c = 7 then d_future_actions d @ [\<lparr>fa_cmd = 7, fa_addr_vec = addr_vec,
        fa_clk = d_clk d + timing_val (d_timing_vals d) ''nRFC'' - 1\<rparr>] else d_future_actions d)"
proof -
  obtain s d1 where ch: "channel_of d addr_vec = Inr [nat (addr_vec ! 0)]" "nat (addr_vec ! 0) < d_channels d"
    and t: "update_timing (DDR4_spec d) c addr_vec (d_clk d) [nat (addr_vec ! 0)] (d_nodes d) = Inr s"
    and u: "update_device c addr_vec [nat (addr_vec ! 0)] (d\<lparr>d_nodes := s\<rparr>) = Inr d1"
    and d': "d' = check_future_action c addr_vec d1"
    using assms
    by (auto simp: DDR4_issue_command_def channel_of_def vec_at_def split: sum.splits option.splits if_splits)
  note e = update_device_eq [OF u]
  show "\<exists>s. update_timing (DDR4_spec d) c addr_vec (d_clk d) [nat (addr_vec ! 0)] (d_nodes d) = Inr s
      \<and> update_states (DDR4_spec d) c addr_vec (d_clk d) [nat (addr_vec ! 0)] s = Inr (d_nodes d')"
    using t e(1) by (auto simp: d' check_future_action_def)
  show "same_setup d d'" "d_clk d' = d_clk d" "nat (addr_vec ! 0) < d_channels d"
    "channel_of d addr_vec = Inr [nat (addr_vec ! 0)]"
    "d_future_actions d' = (if c = 7 then d_future_actions d @ [\<lparr>fa_cmd = 7, fa_addr_vec = addr_vec,
        fa_clk = d_clk d + timing_val (d_timing_vals d) ''nRFC'' - 1\<rparr>] else d_future_actions d)"
    using e(2-4) ch by (auto simp: d' check_future_action_def same_setup_def)
qed


lemma same_setup_refl [simp]: "same_setup d d"
  by (simp add: same_setup_def)

lemma same_setup_trans: "same_setup a b \<Longrightarrow> same_setup b c \<Longrightarrow> same_setup a c"
  by (simp add: same_setup_def)

text \<open>A predicate every pending action keeps holds after the loop; the actions that were due are gone.\<close>

lemma run_future_actions_rule:
  assumes "run_future_actions fas d = Inr (rest, d')" and "Q d"
    and "\<And>fa d1 d2. fa \<in> set fas \<Longrightarrow> fa_clk fa = d_clk d \<Longrightarrow> d_clk d1 = d_clk d \<Longrightarrow> same_setup d d1 \<Longrightarrow> Q d1 \<Longrightarrow>
      handle_future_action (fa_cmd fa) (fa_addr_vec fa) d1 = Inr d2 \<Longrightarrow> Q d2"
  shows "Q d' \<and> rest = filter (\<lambda>fa. fa_clk fa \<noteq> d_clk d) fas \<and> d_clk d' = d_clk d \<and> same_setup d d'"
  using assms
proof (induction fas arbitrary: rest d')
  case Nil
  then show ?case by simp
next
  case (Cons fa fas)
  obtain rest1 d1 where run: "run_future_actions fas d = Inr (rest1, d1)"
    using Cons.prems(1) by (cases "run_future_actions fas d") auto
  have ih: "Q d1 \<and> rest1 = filter (\<lambda>fa. fa_clk fa \<noteq> d_clk d) fas \<and> d_clk d1 = d_clk d \<and> same_setup d d1"
    by (rule Cons.IH [OF run Cons.prems(2)]) (use Cons.prems(3) in auto)
  show ?case
  proof (cases "fa_clk fa = d_clk d")
    case True
    then obtain h: "handle_future_action (fa_cmd fa) (fa_addr_vec fa) d1 = Inr d'" and "rest = rest1"
      using Cons.prems(1) run ih by (auto split: sum.splits)
    moreover have "Q d'" using Cons.prems(3) [OF _ True _ _ _ h] ih by auto
    ultimately show ?thesis
      using ih True handle_future_action_eq(1,2) [OF h] same_setup_trans by auto
  next
    case False
    then show ?thesis using Cons.prems(1) run ih by auto
  qed
qed


lemma same_setup_spec: "same_setup d d' \<Longrightarrow> DDR4_spec d' = DDR4_spec d"
  by (simp add: same_setup_def)

lemma tick_rule:
  assumes "DDR4_tick d = Inr d'" and "Q (d\<lparr>d_clk := d_clk d + 1\<rparr>)"
    and "\<And>fa d1 d2. fa \<in> set (d_future_actions d) \<Longrightarrow> fa_clk fa = d_clk d + 1 \<Longrightarrow> d_clk d1 = d_clk d + 1 \<Longrightarrow>
      same_setup d d1 \<Longrightarrow> Q d1 \<Longrightarrow> handle_future_action (fa_cmd fa) (fa_addr_vec fa) d1 = Inr d2 \<Longrightarrow> Q d2"
  shows "\<exists>d1. Q d1 \<and> d' = d1\<lparr>d_future_actions := filter (\<lambda>fa. fa_clk fa \<noteq> d_clk d + 1) (d_future_actions d)\<rparr>
    \<and> d_clk d1 = d_clk d + 1 \<and> same_setup d d1"
proof -
  let ?d = "d\<lparr>d_clk := d_clk d + 1\<rparr>"
  obtain rest d1 where run: "run_future_actions (d_future_actions d) ?d = Inr (rest, d1)"
    and d': "d' = d1\<lparr>d_future_actions := rest\<rparr>"
    using assms(1) by (auto simp: DDR4_tick_def split: sum.splits)
  have "Q d1 \<and> rest = filter (\<lambda>fa. fa_clk fa \<noteq> d_clk ?d) (d_future_actions d) \<and> d_clk d1 = d_clk ?d \<and> same_setup ?d d1"
    by (rule run_future_actions_rule [OF run, of Q]) (use assms(2,3) in \<open>auto simp: same_setup_def\<close>)
  then show ?thesis using d' by (auto simp: same_setup_def)
qed

lemma ddr4_run_device:
  assumes "ddr4_run P trace d"
  shows "device_run (DDR4_spec d) trace (d_nodes d)" and "0 \<le> d_clk d" and "\<forall>(c, a, ch, k) \<in> set trace. 0 \<le> k"
    and "DDR4_timing_cons (d_timing_vals d) = Some (d_timing_cons d)"
proof -
  have "device_run (DDR4_spec d) trace (d_nodes d) \<and> 0 \<le> d_clk d \<and> (\<forall>(c, a, ch, k) \<in> set trace. 0 \<le> k)
    \<and> DDR4_timing_cons (d_timing_vals d) = Some (d_timing_cons d)"
    using assms
  proof (induction rule: ddr4_run.induct)
    case (ddr4_start d)
    note init = DDR4_init_eq [OF ddr4_start]
    have "device_run (DDR4_spec d) [] (d_nodes d)" unfolding init(4) by (rule run_start)
    with init show ?case by simp
  next
    case (ddr4_tick trace d d')
    let ?Q = "\<lambda>d1. same_setup d d1 \<and> device_run (DDR4_spec d) trace (d_nodes d1)"
    have step: "?Q d2" if Q: "?Q d1" and h: "handle_future_action c a d1 = Inr d2" for c a d1 d2
    proof -
      have "DDR4_spec d1 = DDR4_spec d" by (rule same_setup_spec) (use Q in simp)
      then show ?thesis
        using Q handle_future_action_eq(1,4) [OF h] run_states same_setup_trans by fastforce
    qed
    have "\<exists>d1. ?Q d1 \<and> d' = d1\<lparr>d_future_actions := filter (\<lambda>fa. fa_clk fa \<noteq> d_clk d + 1) (d_future_actions d)\<rparr>
        \<and> d_clk d1 = d_clk d + 1 \<and> same_setup d d1"
    proof (rule tick_rule [OF ddr4_tick(2)])
      show "?Q (d\<lparr>d_clk := d_clk d + 1\<rparr>)" using ddr4_tick(3) by (simp add: same_setup_def)
    qed (rule step)
    then obtain d1 where d1: "?Q d1" "d_clk d1 = d_clk d + 1"
      "d' = d1\<lparr>d_future_actions := filter (\<lambda>fa. fa_clk fa \<noteq> d_clk d + 1) (d_future_actions d)\<rparr>"
      by blast
    then have "DDR4_spec d1 = DDR4_spec d" using same_setup_spec by simp
    with d1 ddr4_tick(3) show ?case by (auto simp: same_setup_def)
  next
    case (ddr4_issue trace d c addr_vec d')
    note e = issue_command_eq [OF ddr4_issue(2)]
    obtain s where s: "update_timing (DDR4_spec d) c addr_vec (d_clk d) [nat (addr_vec ! 0)] (d_nodes d) = Inr s"
      "update_states (DDR4_spec d) c addr_vec (d_clk d) [nat (addr_vec ! 0)] s = Inr (d_nodes d')"
      using e(1) by blast
    have "device_run (DDR4_spec d) ((c, addr_vec, nat (addr_vec ! 0), d_clk d) # trace) (d_nodes d')"
      by (rule run_states [OF run_issue [OF _ s(1)] s(2)]) (use ddr4_issue in simp)
    then show ?case using ddr4_issue(3) e(2,3) by (simp add: same_setup_def)
  qed
  then show "device_run (DDR4_spec d) trace (d_nodes d)" "0 \<le> d_clk d" "\<forall>(c, a, ch, k) \<in> set trace. 0 \<le> k"
    "DDR4_timing_cons (d_timing_vals d) = Some (d_timing_cons d)" by blast+
qed


lemma DDR4_constraint_shapes:
  "list_all (\<lambda>ts. ti_window ts \<in> {1, 4}
      \<and> list_all (\<lambda>y. d_level (ti_level ts) \<le> [4, 3, 1, 5, 5, 5, 5, 1, 1] ! d_cmd y) (ti_following ts))
     (DDR4_timing_constraints V)"
  by (simp add: DDR4_timing_constraints_def cons_def)

lemma known_id: "known names x \<Longrightarrow> ImplDef_id names x = Some (name_id names x) \<and> name_id names x < length names"
  using ImplDef_id_Some [of names x] by (auto simp: known_def name_id_def)

lemma DDR4_constraint_entry:
  assumes "DDR4_timing_cons vals = Some cs" and ts: "ts \<in> set (DDR4_timing_constraints (timing_val vals))"
    and "x \<in> set (ti_preceding ts)" and "y \<in> set (ti_following ts)"
  shows "entry_of ts (d_cmd y) \<in> set (cs ! d_level (ti_level ts) ! d_cmd x)"
    and "d_cmd x < 9" and "d_cmd y < 9" and "d_level (ti_level ts) \<le> [4, 3, 1, 5, 5, 5, 5, 1, 1] ! d_cmd y"
    and "ti_window ts \<in> {1, 4}"
proof -
  have names: "known DDR4_levels (ti_level ts)" "known DDR4_commands x" "known DDR4_commands y"
    using DDR4_names_ok [of "timing_val vals"] assms(2-4) by (auto simp: list_all_iff names_ok_def)
  note ids = names [THEN known_id]
  show "entry_of ts (d_cmd y) \<in> set (cs ! d_level (ti_level ts) ! d_cmd x)"
    using populate_timingcons_set [OF assms(1) [unfolded DDR4_timing_cons_def]] ids assms(2-4)
    by (auto simp: ids_def)
  show "d_cmd x < 9" "d_cmd y < 9" using ids by (simp_all add: DDR4_tables)
  show "d_level (ti_level ts) \<le> [4, 3, 1, 5, 5, 5, 5, 1, 1] ! d_cmd y" "ti_window ts \<in> {1, 4}"
    using DDR4_constraint_shapes [of "timing_val vals"] ts assms(4) unfolding list_all_iff by blast+
qed

lemma issue_times_nonneg:
  "\<forall>(c, a, ch, k) \<in> set trace. 0 \<le> k \<Longrightarrow> j < length (issue_times q c trace) \<Longrightarrow> 0 \<le> issue_times q c trace ! j"
proof -
  assume nonneg: "\<forall>(c, a, ch, k) \<in> set trace. 0 \<le> (k::int)" and j: "j < length (issue_times q c trace)"
  have "\<forall>k \<in> set (issue_times q c trace). 0 \<le> k"
    using nonneg by (induction q c trace rule: issue_times.induct) auto
  with j show ?thesis by simp
qed

text \<open>
  C5. Every constraint of the DDR4 standard is kept. Whatever the host issues from
  initialisation on, let a line of the constraint list of \<^verbatim>\<open>DDR4.cpp\<close> name a level, a preceding
  command \<open>x\<close>, a following command \<open>y\<close>, a latency and a window \<open>w\<close>. Then the device reports \<open>y\<close>
  as ready for an address of a node of that level only from the latency after the \<open>w\<close>-th latest
  \<open>x\<close> of that node on. The constraints between sibling ranks are not covered.
\<close>

theorem ddr4_constraints_respected:
  assumes run: "ddr4_run P trace d"
    and ts: "ts \<in> set (DDR4_timing_constraints (timing_val (d_timing_vals d)))" "\<not> ti_is_sibling ts" "0 \<le> ti_latency ts"
    and cmds: "x \<in> set (ti_preceding ts)" "y \<in> set (ti_following ts)"
    and node: "in_tree (DDR4_spec d) [ch] r" "d_level (ti_level ts) = length r"
    and past: "nat (ti_window ts) \<le> length (issue_times (ch # r) (d_cmd x) trace)"
    and ready: "DDR4_check_ready (d_cmd y) addr_vec d = Inr True" "selects addr_vec 0 (ch # r)"
  shows "issue_times (ch # r) (d_cmd x) trace ! (nat (ti_window ts) - 1) + ti_latency ts \<le> d_clk d"
proof -
  note dev = ddr4_run_device [OF run]
  note e = DDR4_constraint_entry [OF dev(4) ts(1) cmds]
  have check: "check_ready (DDR4_spec d) (d_cmd y) addr_vec (d_clk d) [ch] (d_nodes d) = Inr True"
    using ready selects_head [of 0 "ch # r" addr_vec]
    by (auto simp: DDR4_check_ready_def channel_of_def split: sum.splits option.splits if_splits)
  have sel: "selects addr_vec 1 (ch # r)" using ready(2) selects_mono by blast
  have entry: "entry_of ts (d_cmd y) = \<lparr>tc_cmd = d_cmd y, tc_val = ti_latency ts, tc_window = ti_window ts,
      tc_sibling = False\<rparr>"
    using e(5) ts(2) by (auto simp: entry_of_def TimingConsEntry_of_def)
  show ?thesis
    using window_respected [OF dev(1) DDR4_timing_neutral node(1), of "d_cmd x" "entry_of ts (d_cmd y)"
        "nat (ti_window ts)" addr_vec "d_clk d"] e ts node(2) past check sel
      issue_times_nonneg [OF dev(3), of "nat (ti_window ts) - 1" "ch # r" "d_cmd x"]
    by (auto simp: entry)
qed


section \<open>Valid commands are served\<close>

lemma DDR4_windows_ok:
  assumes "DDR4_timing_cons vals = Some cs"
  shows "windows_ok (DDR4_spec_of org cs pw)"
proof -
  have "1 \<le> tc_window t" if lc: "l < 4" "c < 9" and t: "t \<in> set (cs ! l ! c)" for l c t
  proof -
    obtain ts f where "ts \<in> set (DDR4_timing_constraints (timing_val vals))" "t = entry_of ts f"
      using populate_timingcons_set [OF assms [unfolded DDR4_timing_cons_def], of l c] lc t
      by (auto simp: DDR4_tables)
    then show ?thesis
      using DDR4_constraint_shapes [of "timing_val vals"]
      by (auto simp: list_all_iff entry_of_def TimingConsEntry_of_def)
  qed
  then show ?thesis by (auto simp: windows_ok_def)
qed

text \<open>An address vector of the device: it names a channel, and below it a node or all nodes of a level.\<close>

definition ddr4_addr :: "DDR4 \<Rightarrow> int list \<Rightarrow> bool" where
  "ddr4_addr d addr_vec \<longleftrightarrow> addr_ok (DDR4_spec d) addr_vec \<and> 0 \<le> addr_vec ! 0 \<and> nat (addr_vec ! 0) < d_channels d"

lemma ddr4_addr_channel: "ddr4_addr d addr_vec \<Longrightarrow> channel_of d addr_vec = Inr [nat (addr_vec ! 0)]"
  by (auto simp: ddr4_addr_def addr_ok_def channel_of_def vec_at_def)

lemma ddr4_issue_total:
  assumes "ddr4_run P trace d" and "\<not> d_drampower_enable d" and "ddr4_addr d addr_vec" and "c < 9"
  shows "\<exists>d'. DDR4_issue_command c addr_vec d = Inr d'"
proof -
  note dev = ddr4_run_device [OF assms(1)]
  have addr: "addr_ok (DDR4_spec d) addr_vec" using assms(3) by (simp add: ddr4_addr_def)
  have "histories_ok (DDR4_spec d) (d_nodes d)"
    using device_run_ok [OF dev(1) DDR4_timing_neutral] by (simp add: run_ok_def)
  then obtain s where s: "update_timing (DDR4_spec d) c addr_vec (d_clk d) [nat (addr_vec ! 0)] (d_nodes d) = Inr s"
    using update_timing_total [OF DDR4_timing_neutral DDR4_windows_ok [OF dev(4)] addr, of c "d_nodes d"
        "[nat (addr_vec ! 0)]" "d_clk d"] assms(4) by auto
  obtain s' where "update_states (DDR4_spec d) c addr_vec (d_clk d) [nat (addr_vec ! 0)] s = Inr s'"
    using update_states_total [OF addr, of "[nat (addr_vec ! 0)]" c "d_clk d" s] by auto
  moreover have "update_powers (DDR4_spec d) c addr_vec clk p n ps = Inr ps" for clk p n ps
    using assms(2) by (subst update_powers.simps) simp
  ultimately show ?thesis
    using s ddr4_addr_channel [OF assms(3)] by (simp add: DDR4_issue_command_def update_device_def)
qed


lemma ddr4_idle_ticks:
  "ddr4_run P trace d \<Longrightarrow> d_future_actions d = [] \<Longrightarrow> ddr4_run P trace (d\<lparr>d_clk := d_clk d + int n\<rparr>)"
proof (induction n)
  case (Suc n)
  have "DDR4_tick (d\<lparr>d_clk := d_clk d + int n\<rparr>) = Inr (d\<lparr>d_clk := d_clk d + int (Suc n)\<rparr>)"
    using Suc.prems(2) by (simp add: DDR4_tick_def add.assoc add.commute)
  with Suc show ?case using ddr4_tick by blast
qed simp


section \<open>A device\<close>

definition demo_params :: dram_params where
  "demo_params = preset_params ''DDR4_2Gb_x8'' ''DDR4_1600J''"

definition demo_addr :: "int list" where
  "demo_addr = [0, 0, 0, 0, 5, 0]"

lemma demo_device:
  "\<exists>d. DDR4_init demo_params = Inr d \<and> count (d_org d) = [1, 1, 4, 4, 2 ^ 14, 2 ^ 10] \<and> timings_ok (d_timing_vals d)
    \<and> \<not> d_drampower_enable d \<and> d_channels d = 1"
proof -
  have n: "(''DDR4_2Gb_x8'', \<lparr>density = 2048, dq = 8, count = [1, 1, 4, 4, 2 ^ 14, 2 ^ 10]\<rparr>) \<in> set DDR4_org_presets"
    unfolding DDR4_org_presets_def by (simp only: list.set insert_iff) simp
  have m: "(''DDR4_1600J'', snd (hd DDR4_timing_presets)) \<in> set DDR4_timing_presets"
    by (simp add: DDR4_timing_presets_def)
  obtain d where d: "DDR4_init demo_params = Inr d" "d_org d = \<lparr>density = 2048, dq = 8, count = [1, 1, 4, 4, 2 ^ 14, 2 ^ 10]\<rparr>"
    "timings_ok (d_timing_vals d)" "\<not> d_drampower_enable d"
    using DDR4_init_preset [OF n m] by (auto simp: demo_params_def)
  with DDR4_init_eq(7) [OF d(1)] show ?thesis by auto
qed

lemma demo_addr_ok: "count (d_org d) = [1, 1, 4, 4, 2 ^ 14, 2 ^ 10] \<Longrightarrow> d_channels d = 1 \<Longrightarrow> ddr4_addr d demo_addr"
  by (simp add: ddr4_addr_def addr_ok_def demo_addr_def nth_Cons' numeral_eq_Suc less_Suc_eq)


theorem ddr4_constraints_respected_witness:
  "\<exists>trace d. ddr4_run demo_params trace d \<and> issue_times [0, 0] (d_cmd ''ACT'') trace = [0]
     \<and> DDR4_check_ready (d_cmd ''ACT'') demo_addr d = Inr True
     \<and> 0 + timing_val (d_timing_vals d) ''nRRDS'' \<le> d_clk d"
proof -
  obtain d where d: "DDR4_init demo_params = Inr d" "count (d_org d) = [1, 1, 4, 4, 2 ^ 14, 2 ^ 10]"
    "timings_ok (d_timing_vals d)" "\<not> d_drampower_enable d" "d_channels d = 1"
    using demo_device by blast
  obtain d1 where d1: "DDR4_issue_command 0 demo_addr d = Inr d1"
    using ddr4_issue_total [OF ddr4_start [OF d(1)] d(4) demo_addr_ok [OF d(2,5)], of 0] by auto
  note e = issue_command_eq(2,3,6) [OF d1] DDR4_init_eq(5,6) [OF d(1)]
  let ?trace = "[(0, demo_addr, 0, 0)]"
  have run: "ddr4_run demo_params ?trace d1"
    using ddr4_issue [OF ddr4_start [OF d(1)] d1] e by (simp add: demo_addr_def)
  have addr: "ddr4_addr d1 demo_addr" using demo_addr_ok e(1) d by (simp add: same_setup_def)
  have "\<exists>K. \<forall>clk \<ge> K. check_ready (DDR4_spec d1) 0 demo_addr clk [nat (demo_addr ! 0)] (d_nodes d1) = Inr True"
    by (rule check_ready_eventually) (use addr in \<open>auto simp: ddr4_addr_def\<close>)
  then obtain K where K: "\<And>clk. K \<le> clk \<Longrightarrow> check_ready (DDR4_spec d1) 0 demo_addr clk [nat (demo_addr ! 0)] (d_nodes d1) = Inr True"
    by blast
  define d2 where "d2 = d1\<lparr>d_clk := d_clk d1 + int (nat K)\<rparr>"
  have run2: "ddr4_run demo_params ?trace d2"
    unfolding d2_def by (rule ddr4_idle_ticks [OF run]) (use e in simp)
  have "ddr4_addr d2 demo_addr" using addr by (simp add: d2_def ddr4_addr_def)
  then have ready: "DDR4_check_ready (d_cmd ''ACT'') demo_addr d2 = Inr True"
    using K [of "d_clk d2"] ddr4_addr_channel e by (auto simp: DDR4_check_ready_def d2_def)
  have sel: "selects demo_addr 0 [0, 0]"
    by (auto simp: selects_def demo_addr_def vec_at_def nth_Cons' less_Suc_eq)
  then have times: "issue_times [0, 0] (d_cmd ''ACT'') ?trace = [0]" by simp
  have vals: "timings_ok (d_timing_vals d2)" "count (d_org d2) = [1, 1, 4, 4, 2 ^ 14, 2 ^ 10]"
    using d e(1) by (simp_all add: d2_def same_setup_def)
  then have pos: "0 < timing_val (d_timing_vals d2) ''nRRDS''"
    by (simp add: timings_ok_def timing_val_def list_all_length)
  have "in_tree (DDR4_spec d2) [0] [0]" using vals(2) by (simp add: org_children_def)
  then have "0 + timing_val (d_timing_vals d2) ''nRRDS'' \<le> d_clk d2"
    using ddr4_constraints_respected [OF run2, of "cons ''rank'' [''ACT''] [''ACT''] (timing_val (d_timing_vals d2) ''nRRDS'') 1 False"
        "''ACT''" "''ACT''" 0 "[0]" demo_addr] ready sel pos times
    by (simp add: DDR4_timing_constraints_def) (simp add: cons_def)
  with run2 times ready show ?thesis by blast
qed

end
