(* ===== verification/DDR4_Banks.thy ===== *)
theory DDR4_Banks
  imports DDR4_Device
begin

text \<open>
  The state of the DDR4 banks when the host follows the device: it issues the command the
  device names as prerequisite of the final command of a request, and only when the device
  reports that command as ready. Then a bank has at most one open row, no bank of a rank is
  open while the rank refreshes, and a request reaches its final command after at most two
  other commands.
\<close>

section \<open>What commands do to banks\<close>

text \<open>The rank and the bank an address vector names below its channel.\<close>

definition names_rank :: "Organization \<Rightarrow> int list \<Rightarrow> nat \<Rightarrow> nat \<Rightarrow> bool" where
  "names_rank org addr_vec ch ra \<longleftrightarrow>
     vec_at addr_vec 1 = Some (int ra) \<and> ra < org_children org [ch] \<and> vec_at addr_vec 2 \<noteq> None"

definition names_bank :: "Organization \<Rightarrow> int list \<Rightarrow> nat \<Rightarrow> nat \<Rightarrow> nat \<Rightarrow> nat \<Rightarrow> bool" where
  "names_bank org addr_vec ch ra bg ba \<longleftrightarrow>
     vec_at addr_vec 1 = Some (int ra) \<and> ra < org_children org [ch]
     \<and> vec_at addr_vec 2 = Some (int bg) \<and> bg < org_children org [ch, ra]
     \<and> vec_at addr_vec 3 = Some (int ba) \<and> ba < org_children org [ch, ra, bg] \<and> vec_at addr_vec 4 \<noteq> None"

lemma org_children_pos: "org_ok org \<Longrightarrow> 1 \<le> length p \<Longrightarrow> length p < 4 \<Longrightarrow> org_children org p \<noteq> 0"
  by (auto simp: org_children_def org_ok_def list_all_length not_le)

lemma org_children_leaf: "4 \<le> length p \<Longrightarrow> org_children org p = 0"
  by (simp add: org_children_def)

lemma preq_not_None:
  "RequireRowOpen T s p c addr_vec clk \<noteq> Inr None" "RequireBankClosed T s p c addr_vec clk \<noteq> Inr None"
  by (auto simp: RequireRowOpen_def RequireBankClosed_def split: option.splits)

text \<open>The prerequisite of a command to a bank is asked of the bank the address names.\<close>

lemma preq_of_bank_command:
  assumes ok: "org_ok org" and c: "c \<in> {0, 1, 3, 4}"
    and preq: "get_preq_command (DDR4_spec_of org cs pw) c addr_vec clk [ch] s = Inr c'"
  shows "\<exists>ra bg ba. names_bank org addr_vec ch ra bg ba
    \<and> (if c = 1 then RequireBankClosed DDR4_std else RequireRowOpen DDR4_std) s [ch, ra, bg, ba] c addr_vec clk = Inr (Some c')"
proof -
  have tab: "DDR4_preqs org l c = (if l = 3 then Some (if c = 1 then RequireBankClosed DDR4_std else RequireRowOpen DDR4_std) else None)" for l
    using c by (auto simp: DDR4_preqs_table)
  have child: "\<exists>i. vec_at addr_vec (int (length p)) = Some (int i) \<and> i < org_children org p
      \<and> get_preq_command (DDR4_spec_of org cs pw) c addr_vec clk (p @ [i]) s = Inr c'"
    if "get_preq_command (DDR4_spec_of org cs pw) c addr_vec clk p s = Inr c'" "1 \<le> length p" "length p < 4" for p
  proof -
    have "level_of p \<noteq> 3" using that(3) by (simp add: level_of_def)
    with that org_children_pos [OF ok that(2,3)] show ?thesis
      by (subst (asm) get_preq_command.simps)
        (auto simp: tab split: option.splits if_splits intro!: exI [of _ "nat (the (vec_at addr_vec (int (length p))))"])
  qed
  obtain ra where ra: "vec_at addr_vec 1 = Some (int ra)" "ra < org_children org [ch]"
    "get_preq_command (DDR4_spec_of org cs pw) c addr_vec clk [ch, ra] s = Inr c'"
    using child [OF preq] by auto
  obtain bg where bg: "vec_at addr_vec 2 = Some (int bg)" "bg < org_children org [ch, ra]"
    "get_preq_command (DDR4_spec_of org cs pw) c addr_vec clk [ch, ra, bg] s = Inr c'"
    using child [OF ra(3)] by auto
  obtain ba where ba: "vec_at addr_vec 3 = Some (int ba)" "ba < org_children org [ch, ra, bg]"
    "get_preq_command (DDR4_spec_of org cs pw) c addr_vec clk [ch, ra, bg, ba] s = Inr c'"
    using child [OF bg(3)] by auto
  have "vec_at addr_vec 4 \<noteq> None"
    using ba(3) by (subst (asm) get_preq_command.simps) (auto split: option.splits)
  moreover have "(if c = 1 then RequireBankClosed DDR4_std else RequireRowOpen DDR4_std) s [ch, ra, bg, ba] c addr_vec clk = Inr (Some c')"
    using ba(3) preq_not_None
    by (subst (asm) get_preq_command.simps)
      (auto simp: tab level_of_def split: option.splits if_splits sum.splits)
  ultimately show ?thesis using ra bg ba unfolding names_bank_def by blast
qed


lemma preq_of_refresh:
  assumes ok: "org_ok org" and preq: "get_preq_command (DDR4_spec_of org cs pw) 7 addr_vec clk [ch] s = Inr c'"
  shows "\<exists>ra. names_rank org addr_vec ch ra
    \<and> c' = rank_banks_closed DDR4_std s 7 (descendants (org_children org) 2 [ch, ra])"
proof -
  have tab: "DDR4_preqs org l 7 = (if l = 1 then Some (Rank_RequireAllBanksClosed DDR4_std (org_children org)) else None)" for l
    by (auto simp: DDR4_preqs_table)
  obtain ra where ra: "vec_at addr_vec 1 = Some (int ra)" "ra < org_children org [ch]"
    "get_preq_command (DDR4_spec_of org cs pw) 7 addr_vec clk [ch, ra] s = Inr c'"
    using preq org_children_pos [OF ok, of "[ch]"]
    by (subst (asm) get_preq_command.simps)
      (auto simp: tab level_of_def split: option.splits if_splits intro!: that [of "nat (the (vec_at addr_vec 1))"])
  have "vec_at addr_vec 2 \<noteq> None" "c' = rank_banks_closed DDR4_std s 7 (descendants (org_children org) 2 [ch, ra])"
    using ra(3)
    by (subst (asm) get_preq_command.simps,
        auto simp: tab level_of_def Rank_RequireAllBanksClosed_def numeral_2_eq_2 split: option.splits)+
  with ra show ?thesis by (auto simp: names_rank_def)
qed

lemma states_of_bank_command:
  assumes ok: "org_ok org" and c: "c \<in> {0, 1, 3, 4}" and bank: "names_bank org addr_vec ch ra bg ba"
    and upd: "update_states (DDR4_spec_of org cs pw) c addr_vec clk [ch] s = Inr s'"
  shows "s' = (if c = 0 then Bank_ACT DDR4_std s [ch, ra, bg, ba] 0 (the (vec_at addr_vec 4)) clk
               else if c = 1 then Bank_PRE DDR4_std s [ch, ra, bg, ba] 1 (the (vec_at addr_vec 4)) clk else s)"
proof -
  let ?sp = "DDR4_spec_of org cs pw"
  have scope: "[4, 3, 1, 5, 5, 5, 5, 1, 1] ! c \<ge> (3::nat)" using c by auto
  have down: "update_states ?sp c addr_vec clk (p @ [i]) s = Inr s'"
    if "update_states ?sp c addr_vec clk p s = Inr s'" "1 \<le> length p" "length p < 4"
      "vec_at addr_vec (int (length p)) = Some (int i)" "i < org_children org p" for p i
  proof -
    have lev: "level_of p < 3" using that(2,3) by (simp add: level_of_def)
    have "DDR4_actions org (level_of p) c = None" using lev c by (auto simp: DDR4_actions_table)
    with that lev scope org_children_pos [OF ok that(2,3)] show ?thesis
      by (subst (asm) update_states.simps) (auto simp: Let_def split: if_splits)
  qed
  have "update_states ?sp c addr_vec clk [ch, ra, bg, ba] s = Inr s'"
    using down [OF down [OF down [OF upd]], of ra bg ba] bank by (simp add: names_bank_def)
  moreover have "level_of [ch, ra, bg, ba] = 3" by (simp add: level_of_def)
  ultimately show ?thesis
    using c bank org_children_leaf [of "[ch, ra, bg, ba]" org]
    by (subst (asm) update_states.simps) (auto simp: Let_def DDR4_actions_table names_bank_def split: option.splits)
qed

lemma states_of_rank_command:
  assumes ok: "org_ok org" and c: "c \<in> {2, 7, 8}" and rank: "names_rank org addr_vec ch ra"
    and upd: "update_states (DDR4_spec_of org cs pw) c addr_vec clk [ch] s = Inr s'"
  shows "s' = (if c = 2 then Rank_PREab DDR4_std (org_children org) s [ch, ra] 2 (the (vec_at addr_vec 2)) clk
               else if c = 7 then Rank_REFab DDR4_std (org_children org) s [ch, ra] 7 (the (vec_at addr_vec 2)) clk
               else Rank_REFab_end DDR4_std (org_children org) s [ch, ra] 8 (the (vec_at addr_vec 2)) clk)"
proof -
  let ?sp = "DDR4_spec_of org cs pw"
  have scope: "[4, 3, 1, 5, 5, 5, 5, 1, 1] ! c = (1::nat)" using c by auto
  have "DDR4_actions org 0 c = None" using c by (auto simp: DDR4_actions_table)
  then have "update_states ?sp c addr_vec clk [ch, ra] s = Inr s'"
    using upd scope rank org_children_pos [OF ok, of "[ch]"]
    by (subst (asm) update_states.simps) (auto simp: Let_def level_of_def names_rank_def split: if_splits)
  then show ?thesis
    using scope rank c
    by (subst (asm) update_states.simps)
      (auto simp: Let_def level_of_def names_rank_def DDR4_actions_table split: option.splits)
qed


section \<open>The invariant\<close>

definition bank_row_ok :: "node \<Rightarrow> bool" where
  "bank_row_ok n \<longleftrightarrow> (if m_state n = st_opened DDR4_std then \<exists>r. m_row_state n = [r \<mapsto> st_opened DDR4_std]
     else m_state n \<in> {st_closed DDR4_std, st_refreshing DDR4_std} \<and> m_row_state n = Map.empty)"

definition is_bank :: "DDR4 \<Rightarrow> nat list \<Rightarrow> bool" where
  "is_bank d q \<longleftrightarrow> (\<exists>ch ra bg ba. q = [ch, ra, bg, ba] \<and> ra < org_children (d_org d) [ch]
     \<and> bg < org_children (d_org d) [ch, ra] \<and> ba < org_children (d_org d) [ch, ra, bg])"

text \<open>The banks whose refresh a pending action will end.\<close>

definition fa_banks :: "Organization \<Rightarrow> FutureAction \<Rightarrow> nat list set" where
  "fa_banks org fa = {q. \<exists>ra. names_rank org (fa_addr_vec fa) (nat (fa_addr_vec fa ! 0)) ra
     \<and> q \<in> set (descendants (org_children org) 2 [nat (fa_addr_vec fa ! 0), ra])}"

definition fa_ok :: "DDR4 \<Rightarrow> FutureAction \<Rightarrow> bool" where
  "fa_ok d fa \<longleftrightarrow> fa_cmd fa = d_cmd ''REFab'' \<and> d_clk d < fa_clk fa
     \<and> (\<exists>ra. names_rank (d_org d) (fa_addr_vec fa) (nat (fa_addr_vec fa ! 0)) ra)
     \<and> channel_of d (fa_addr_vec fa) = Inr [nat (fa_addr_vec fa ! 0)]
     \<and> (\<forall>q \<in> fa_banks (d_org d) fa. fa_clk fa < m_cmd_ready_clk (d_nodes d (take 2 q)) ! d_cmd ''ACT'')"

definition banks_inv :: "DDR4 \<Rightarrow> bool" where
  "banks_inv d \<longleftrightarrow> org_ok (d_org d) \<and> DDR4_timing_cons (d_timing_vals d) = Some (d_timing_cons d)
     \<and> 2 \<le> timing_val (d_timing_vals d) ''nRFC'' \<and> histories_ok (DDR4_spec d) (d_nodes d) \<and> 0 \<le> d_clk d
     \<and> list_all (fa_ok d) (d_future_actions d)
     \<and> (\<forall>q. is_bank d q \<longrightarrow> bank_row_ok (d_nodes d q)
          \<and> (m_state (d_nodes d q) = st_refreshing DDR4_std \<longrightarrow> (\<exists>fa \<in> set (d_future_actions d). q \<in> fa_banks (d_org d) fa))
          \<and> ((\<exists>fa \<in> set (d_future_actions d). q \<in> fa_banks (d_org d) fa) \<longrightarrow> m_state (d_nodes d q) \<noteq> st_opened DDR4_std))"

lemma rank_banks:
  "q \<in> set (descendants (org_children org) 2 [ch, ra]) \<longleftrightarrow>
     (\<exists>bg ba. q = [ch, ra, bg, ba] \<and> bg < org_children org [ch, ra] \<and> ba < org_children org [ch, ra, bg])"
  by (auto simp: descendants_2)

lemma names_rank_unique: "names_rank org a ch ra \<Longrightarrow> names_rank org a ch ra' \<Longrightarrow> ra' = ra"
  by (simp add: names_rank_def)

lemma fa_banks_rank:
  "names_rank org (fa_addr_vec fa) (nat (fa_addr_vec fa ! 0)) ra \<Longrightarrow>
   fa_banks org fa = set (descendants (org_children org) 2 [nat (fa_addr_vec fa ! 0), ra])"
  by (auto simp: fa_banks_def dest: names_rank_unique)

lemma channel_of_same: "d_channels d' = d_channels d \<Longrightarrow> channel_of d' a = channel_of d a"
  by (simp add: channel_of_def cong: option.case_cong)

text \<open>Refresh ends of due actions close the banks of their ranks and leave everything else.\<close>

lemma run_future_actions_effect:
  assumes "run_future_actions fas d = Inr (rest, d')" and "org_ok (d_org d)"
    and "list_all (\<lambda>fa. fa_cmd fa = 7 \<and> channel_of d (fa_addr_vec fa) = Inr [nat (fa_addr_vec fa ! 0)]
      \<and> (\<exists>ra. names_rank (d_org d) (fa_addr_vec fa) (nat (fa_addr_vec fa ! 0)) ra)) fas"
  shows "d_nodes d' q = (if \<exists>fa \<in> set fas. fa_clk fa = d_clk d \<and> q \<in> fa_banks (d_org d) fa
      then (d_nodes d q)\<lparr>m_state := 1\<rparr> else d_nodes d q)"
  using assms
proof (induction fas arbitrary: rest d')
  case Nil
  then show ?case by simp
next
  case (Cons fa fas)
  obtain rest1 d1 where run: "run_future_actions fas d = Inr (rest1, d1)"
    using Cons.prems(1) by (cases "run_future_actions fas d") auto
  have ih: "d_nodes d1 q = (if \<exists>fa \<in> set fas. fa_clk fa = d_clk d \<and> q \<in> fa_banks (d_org d) fa
      then (d_nodes d q)\<lparr>m_state := 1\<rparr> else d_nodes d q)"
    using Cons.IH [OF run] Cons.prems(2,3) by simp
  have frame: "d_clk d1 = d_clk d" "same_setup d d1"
    using run_future_actions_rule [OF run, of "\<lambda>_. True"] by auto
  show ?case
  proof (cases "fa_clk fa = d_clk d")
    case True
    then have h: "handle_future_action (fa_cmd fa) (fa_addr_vec fa) d1 = Inr d'"
      using Cons.prems(1) run frame by (auto split: sum.splits)
    let ?ch = "nat (fa_addr_vec fa ! 0)"
    have chan: "channel_of d1 (fa_addr_vec fa) = Inr [?ch]"
      using Cons.prems(3) frame(2) channel_of_same [of d1 d] by (simp add: same_setup_def)
    obtain ra where ra: "names_rank (d_org d) (fa_addr_vec fa) ?ch ra" using Cons.prems(3) by auto
    have "update_device 8 (fa_addr_vec fa) [?ch] d1 = Inr d'"
      using h chan Cons.prems(3) by (simp add: handle_future_action_def)
    then have "update_states (DDR4_spec d1) 8 (fa_addr_vec fa) (d_clk d1) [?ch] (d_nodes d1) = Inr (d_nodes d')"
      by (rule update_device_eq(1))
    then have "update_states (DDR4_spec d) 8 (fa_addr_vec fa) (d_clk d1) [?ch] (d_nodes d1) = Inr (d_nodes d')"
      by (simp only: same_setup_spec [OF frame(2)])
    from states_of_rank_command [OF Cons.prems(2) _ ra this]
    have "d_nodes d' = Rank_REFab_end DDR4_std (org_children (d_org d)) (d_nodes d1) [?ch, ra] 8
        (the (vec_at (fa_addr_vec fa) 2)) (d_clk d1)" by simp
    then have "d_nodes d' q = (if q \<in> fa_banks (d_org d) fa then (d_nodes d1 q)\<lparr>m_state := 1\<rparr> else d_nodes d1 q)"
      by (simp add: Rank_REFab_end_def update_descendants fa_banks_rank [OF ra])
    with ih True show ?thesis by auto
  next
    case False
    then have "d' = d1" using Cons.prems(1) run frame(1) by auto
    with ih False show ?thesis by auto
  qed
qed


section \<open>Every step keeps the invariant\<close>

definition bank_ok :: "DDR4 \<Rightarrow> nat list \<Rightarrow> bool" where
  "bank_ok d q \<longleftrightarrow> bank_row_ok (d_nodes d q)
     \<and> (m_state (d_nodes d q) = st_refreshing DDR4_std \<longrightarrow> (\<exists>fa \<in> set (d_future_actions d). q \<in> fa_banks (d_org d) fa))
     \<and> ((\<exists>fa \<in> set (d_future_actions d). q \<in> fa_banks (d_org d) fa) \<longrightarrow> m_state (d_nodes d q) \<noteq> st_opened DDR4_std)"

lemma banks_inv_alt:
  "banks_inv d \<longleftrightarrow> org_ok (d_org d) \<and> DDR4_timing_cons (d_timing_vals d) = Some (d_timing_cons d)
     \<and> 2 \<le> timing_val (d_timing_vals d) ''nRFC'' \<and> histories_ok (DDR4_spec d) (d_nodes d) \<and> 0 \<le> d_clk d
     \<and> list_all (fa_ok d) (d_future_actions d) \<and> (\<forall>q. is_bank d q \<longrightarrow> bank_ok d q)"
  by (auto simp: banks_inv_def bank_ok_def)

lemma bank_row_ok_closed: "bank_row_ok n \<Longrightarrow> m_state n \<noteq> 0 \<Longrightarrow> m_row_state n = Map.empty"
  by (simp add: bank_row_ok_def)

lemma banks_inv_tick:
  assumes inv: "banks_inv d" and tick: "DDR4_tick d = Inr d'"
  shows "banks_inv d'"
proof -
  let ?d = "d\<lparr>d_clk := d_clk d + 1\<rparr>"
  obtain rest d1 where run: "run_future_actions (d_future_actions d) ?d = Inr (rest, d1)"
    and d': "d' = d1\<lparr>d_future_actions := rest\<rparr>"
    using tick by (auto simp: DDR4_tick_def split: sum.splits)
  have frame: "rest = filter (\<lambda>fa. fa_clk fa \<noteq> d_clk d + 1) (d_future_actions d)" "d_clk d1 = d_clk d + 1"
    "same_setup ?d d1"
    using run_future_actions_rule [OF run, of "\<lambda>_. True"] by simp_all
  define due where "due q \<longleftrightarrow> (\<exists>fa \<in> set (d_future_actions d). fa_clk fa = d_clk d + 1 \<and> q \<in> fa_banks (d_org d) fa)" for q
  have nodes: "d_nodes d1 q = (if due q then (d_nodes d q)\<lparr>m_state := 1\<rparr> else d_nodes d q)" for q
  proof -
    have "list_all (\<lambda>fa. fa_cmd fa = 7 \<and> channel_of ?d (fa_addr_vec fa) = Inr [nat (fa_addr_vec fa ! 0)]
        \<and> (\<exists>ra. names_rank (d_org ?d) (fa_addr_vec fa) (nat (fa_addr_vec fa ! 0)) ra)) (d_future_actions d)"
      using inv by (simp add: banks_inv_def list_all_iff fa_ok_def channel_of_same [of ?d d])
    from run_future_actions_effect [OF run _ this, of q] show ?thesis
      using inv by (auto simp: due_def banks_inv_def)
  qed
  have same: "d_org d' = d_org d" "d_timing_vals d' = d_timing_vals d" "d_timing_cons d' = d_timing_cons d"
    "d_channels d' = d_channels d" "d_drampower_enable d' = d_drampower_enable d" "d_nodes d' = d_nodes d1" "d_clk d' = d_clk d + 1"
    "d_future_actions d' = rest"
    using frame(2,3) by (simp_all add: d' same_setup_def)
  have "histories_ok (DDR4_spec d) (d_nodes d1)"
    using inv nodes by (auto simp: banks_inv_def histories_ok_def)
  moreover have "fa_ok d' fa" if "fa \<in> set rest" for fa
  proof -
    have "fa \<in> set (d_future_actions d)" "fa_clk fa \<noteq> d_clk d + 1" using that frame(1) by auto
    moreover have "m_cmd_ready_clk (d_nodes d1 q) = m_cmd_ready_clk (d_nodes d q)" for q using nodes by simp
    ultimately show ?thesis
      using inv by (auto simp: banks_inv_def list_all_iff fa_ok_def same channel_of_same [OF same(4)])
  qed
  moreover have "bank_ok d' q" if q: "is_bank d' q" for q
  proof -
    have old: "bank_ok d q" using inv q by (simp add: banks_inv_alt is_bank_def same(1))
    show ?thesis
    proof (cases "due q")
      case True
      then have "m_state (d_nodes d q) \<noteq> 0" using old by (auto simp: due_def bank_ok_def)
      then show ?thesis
        using True old bank_row_ok_closed nodes [of q] by (simp add: bank_ok_def bank_row_ok_def same)
    next
      case False
      then have "m_state (d_nodes d q) = 4 \<Longrightarrow> \<exists>fa \<in> set rest. q \<in> fa_banks (d_org d) fa"
        using old frame(1) by (auto simp: bank_ok_def due_def)
      then show ?thesis
        using False old nodes [of q] frame(1) by (auto simp: bank_ok_def same)
    qed
  qed
  ultimately show ?thesis using inv by (simp add: banks_inv_alt same list_all_iff)
qed


text \<open>An issued command only delays, so pending refreshes keep blocking activates.\<close>

lemma banks_inv_issue:
  assumes inv: "banks_inv d" and issue: "DDR4_issue_command c addr_vec d = Inr d'" and c: "c < 9"
    and new: "c = 7 \<Longrightarrow> fa_ok d' \<lparr>fa_cmd = 7, fa_addr_vec = addr_vec, fa_clk = d_clk d + timing_val (d_timing_vals d) ''nRFC'' - 1\<rparr>"
    and banks: "\<And>q. is_bank d q \<Longrightarrow> bank_ok d' q"
  shows "banks_inv d'"
proof -
  note e = issue_command_eq [OF issue]
  obtain s where s: "update_timing (DDR4_spec d) c addr_vec (d_clk d) [nat (addr_vec ! 0)] (d_nodes d) = Inr s"
    "update_states (DDR4_spec d) c addr_vec (d_clk d) [nat (addr_vec ! 0)] s = Inr (d_nodes d')"
    using e(1) by blast
  have steps: "(node_step (DDR4_spec d))\<^sup>*\<^sup>* (d_nodes d) (d_nodes d')"
    using step_timing [OF s(1)] step_states [OF s(2)] by (meson converse_rtranclp_into_rtranclp r_into_rtranclp)
  have hist: "histories_ok (DDR4_spec d) (d_nodes d)" using inv by (simp add: banks_inv_def)
  have le: "m_cmd_ready_clk (d_nodes d q) ! 0 \<le> m_cmd_ready_clk (d_nodes d' q) ! 0" for q
  proof -
    have "length (m_cmd_ready_clk (d_nodes d q)) = 9"
      using hist [unfolded histories_ok_def, rule_format, of 0 q] by simp
    then show ?thesis by (intro clocks_leD [OF node_steps_le [OF steps DDR4_timing_neutral]]) simp
  qed
  have "fa_ok d' fa" if "fa \<in> set (d_future_actions d)" for fa
  proof -
    have ok: "fa_ok d fa" using inv that by (simp add: banks_inv_def list_all_iff)
    then have "fa_clk fa < m_cmd_ready_clk (d_nodes d' (take 2 q)) ! 0" if "q \<in> fa_banks (d_org d) fa" for q
      using that le [of "take 2 q"] by (fastforce simp: fa_ok_def)
    with ok show ?thesis using e(2,3) channel_of_same [of d' d] by (simp add: fa_ok_def same_setup_def)
  qed
  then have "list_all (fa_ok d') (d_future_actions d')" using new by (simp add: e(6) list_all_iff)
  moreover have "histories_ok (DDR4_spec d) (d_nodes d')"
    by (rule node_steps_histories [OF steps DDR4_timing_neutral hist])
  ultimately show ?thesis
    using inv e(2,3) banks by (simp add: banks_inv_alt same_setup_def is_bank_def)
qed

text \<open>The states of the nodes after an issue: those of the action on the nodes before it.\<close>

lemma issue_states:
  assumes "DDR4_issue_command c addr_vec d = Inr d'"
  shows "\<exists>s. update_states (DDR4_spec d) c addr_vec (d_clk d) [nat (addr_vec ! 0)] s = Inr (d_nodes d')
    \<and> update_timing (DDR4_spec d) c addr_vec (d_clk d) [nat (addr_vec ! 0)] (d_nodes d) = Inr s
    \<and> (\<forall>q. m_state (s q) = m_state (d_nodes d q) \<and> m_row_state (s q) = m_row_state (d_nodes d q))"
  using issue_command_eq(1) [OF assms] update_timing_states by blast

lemma bank_ok_unchanged:
  assumes "bank_ok d q" and "d_org d' = d_org d" and "d_future_actions d' = d_future_actions d"
    and "m_state (d_nodes d' q) = m_state (d_nodes d q)" and "m_row_state (d_nodes d' q) = m_row_state (d_nodes d q)"
  shows "bank_ok d' q"
  using assms by (cases "m_state (d_nodes d q) = 0") (auto simp: bank_ok_def bank_row_ok_def)

lemma selects_rank: "vec_at addr_vec 1 = Some (int ra) \<Longrightarrow> selects addr_vec 1 [ch, ra]"
  using selects_head [of 1 "[ch, ra]" addr_vec] selects_beyond [of "[ch, ra]" 2 addr_vec] by (simp add: numeral_2_eq_2)

text \<open>An activate that is ready finds no refresh of its rank pending.\<close>

lemma no_pending_refresh:
  assumes inv: "banks_inv d" and ready: "DDR4_check_ready 0 addr_vec d = Inr True"
    and chan: "channel_of d addr_vec = Inr [ch]" and bank: "names_bank (d_org d) addr_vec ch ra bg ba"
    and fa: "fa \<in> set (d_future_actions d)"
  shows "[ch, ra, bg, ba] \<notin> fa_banks (d_org d) fa"
proof
  assume "[ch, ra, bg, ba] \<in> fa_banks (d_org d) fa"
  then have "d_clk d < fa_clk fa" "fa_clk fa < m_cmd_ready_clk (d_nodes d [ch, ra]) ! 0" "0 \<le> d_clk d"
    using inv fa by (fastforce simp: banks_inv_def list_all_iff fa_ok_def numeral_2_eq_2)+
  moreover have "check_ready (DDR4_spec d) 0 addr_vec (d_clk d) [ch] (d_nodes d) = Inr True"
    using ready chan by (simp add: DDR4_check_ready_def)
  then have "m_cmd_ready_clk (d_nodes d [ch, ra]) ! 0 = -1 \<or> m_cmd_ready_clk (d_nodes d [ch, ra]) ! 0 \<le> d_clk d"
    using check_ready_clocks [of "DDR4_spec d" 0 addr_vec "d_clk d" "[ch]" "d_nodes d" "[ra]"] bank
      selects_rank [of addr_vec ra ch]
    by (auto simp: names_bank_def level_of_def)
  ultimately show False by linarith
qed

lemma banks_inv_bank_command:
  assumes inv: "banks_inv d" and final: "final \<in> {0, 1, 3, 4}"
    and preq: "DDR4_get_preq_command final addr_vec d = Inr c"
    and ready: "DDR4_check_ready c addr_vec d = Inr True" and issue: "DDR4_issue_command c addr_vec d = Inr d'"
  shows "banks_inv d'"
proof -
  let ?ch = "nat (addr_vec ! 0)"
  note e = issue_command_eq [OF issue]
  have ok: "org_ok (d_org d)" using inv by (simp add: banks_inv_def)
  obtain ra bg ba where bank: "names_bank (d_org d) addr_vec ?ch ra bg ba"
    and f: "(if final = 1 then RequireBankClosed DDR4_std else RequireRowOpen DDR4_std) (d_nodes d) [?ch, ra, bg, ba]
      final addr_vec (d_clk d) = Inr (Some c)"
    using preq_of_bank_command [OF ok final] preq e(5) by (fastforce simp: DDR4_get_preq_command_def)
  let ?b = "[?ch, ra, bg, ba]"
  obtain row where row: "vec_at addr_vec 4 = Some row" using bank by (auto simp: names_bank_def)
  have c: "c \<in> {0, 1, 3, 4}"
    using f final row by (auto simp: RequireBankClosed_def RequireRowOpen_def split: if_splits)
  obtain s where s: "update_states (DDR4_spec d) c addr_vec (d_clk d) [?ch] s = Inr (d_nodes d')"
    and same: "\<And>q. m_state (s q) = m_state (d_nodes d q)" "\<And>q. m_row_state (s q) = m_row_state (d_nodes d q)"
    using issue_states [OF issue] by blast
  note eff = states_of_bank_command [OF ok c bank s]
  have fas: "d_future_actions d' = d_future_actions d" using e(6) c by auto
  have org: "d_org d' = d_org d" using e(2) by (simp add: same_setup_def)
  have isb: "is_bank d ?b" using bank by (simp add: is_bank_def names_bank_def)
  have old: "bank_ok d q" if "is_bank d q" for q using inv that by (simp add: banks_inv_alt)
  have "bank_ok d' q" if q: "is_bank d q" for q
  proof (cases "q = ?b \<and> c \<in> {0, 1}")
    case False
    then have "d_nodes d' q = s q" using eff c by (auto simp: Bank_ACT_def Bank_PRE_def split: if_splits)
    then show ?thesis using bank_ok_unchanged [OF old [OF q] org fas] same by simp
  next
    case True
    have row_ok: "bank_row_ok (d_nodes d ?b)" using old [OF isb] by (simp add: bank_ok_def)
    show ?thesis
    proof (cases "c = 0")
      case act: True
      have "?b \<notin> fa_banks (d_org d) fa" if "fa \<in> set (d_future_actions d)" for fa
        using no_pending_refresh [OF inv _ e(5) bank that] ready act by simp
      moreover have "m_row_state (d_nodes d ?b) \<in> {Map.empty, [row \<mapsto> 0]}"
        using f act row row_ok by (auto simp: RequireBankClosed_def RequireRowOpen_def bank_row_ok_def split: if_splits)
      then have "(m_row_state (d_nodes d ?b))(row \<mapsto> 0) = [row \<mapsto> 0]" by auto
      ultimately show ?thesis
        using True act eff same [of ?b] row fas org by (simp add: bank_ok_def bank_row_ok_def Bank_ACT_def) blast
    next
      case False
      with True have "c = 1" by auto
      then show ?thesis
        using True eff by (simp add: bank_ok_def bank_row_ok_def Bank_PRE_def close_bank_def)
    qed
  qed
  then show ?thesis using banks_inv_issue [OF inv issue] c by auto
qed


lemma rank_banks_closed_cases:
  "rank_banks_closed DDR4_std s 7 qs = c \<Longrightarrow>
   c = 2 \<or> (c = 7 \<and> ((\<forall>q \<in> set qs. m_state (s q) = 1) \<or> (\<exists>q \<in> set qs. m_state (s q) = 4)))"
  by (induction qs) (auto split: if_splits)

text \<open>The timing constraint that keeps activates away from a refreshing rank.\<close>

lemma refresh_blocks_activate:
  assumes inv: "banks_inv d" and issue: "DDR4_issue_command 7 addr_vec d = Inr d'"
    and rank: "names_rank (d_org d) addr_vec (nat (addr_vec ! 0)) ra"
  shows "d_clk d + timing_val (d_timing_vals d) ''nRFC'' \<le> m_cmd_ready_clk (d_nodes d' [nat (addr_vec ! 0), ra]) ! 0"
proof -
  let ?ch = "nat (addr_vec ! 0)"
  let ?ts = "cons ''rank'' [''REFab''] [''ACT'', ''PREA''] (timing_val (d_timing_vals d) ''nRFC'') 1 False"
  note e = issue_command_eq [OF issue]
  obtain s where s: "update_timing (DDR4_spec d) 7 addr_vec (d_clk d) [?ch] (d_nodes d) = Inr s"
    "update_states (DDR4_spec d) 7 addr_vec (d_clk d) [?ch] s = Inr (d_nodes d')"
    using e(1) by blast
  have "?ts \<in> set (DDR4_timing_constraints (timing_val (d_timing_vals d)))"
    by (simp add: DDR4_timing_constraints_def)
  then have entry: "entry_of ?ts 0 \<in> set (d_timing_cons d ! 1 ! 7)"
    using DDR4_constraint_entry(1) [of "d_timing_vals d" "d_timing_cons d" ?ts "''REFab''" "''ACT''"] inv
    by (simp add: banks_inv_def) (simp add: cons_def)
  have chan: "vec_at addr_vec 0 = Some (int ?ch)"
    using e(5) by (auto simp: channel_of_def vec_at_def split: option.splits if_splits)
  have sel: "selects addr_vec 0 [?ch, ra]"
    using selects_head [of 0 "[?ch, ra]" addr_vec] chan rank selects_rank [of addr_vec ra ?ch] by (simp add: names_rank_def)
  have "d_clk d + tc_val (entry_of ?ts 0) \<le> m_cmd_ready_clk (s [?ch, ra]) ! tc_cmd (entry_of ?ts 0)"
    by (rule update_timing_charges [OF _ s(1) _ sel])
      (use inv rank entry in \<open>auto simp: banks_inv_def names_rank_def entry_of_def TimingConsEntry_of_def cons_def\<close>)
  then show ?thesis
    using update_states_timing [OF DDR4_timing_neutral s(2)] by (simp add: entry_of_def TimingConsEntry_of_def cons_def)
qed

lemma refresh_finds_closed:
  assumes inv: "banks_inv d" and rank: "names_rank (d_org d) addr_vec ch ra"
    and q: "q \<in> set (descendants (org_children (d_org d)) 2 [ch, ra])"
    and seen: "(\<forall>q \<in> set (descendants (org_children (d_org d)) 2 [ch, ra]). m_state (d_nodes d q) = 1)
      \<or> (\<exists>q \<in> set (descendants (org_children (d_org d)) 2 [ch, ra]). m_state (d_nodes d q) = 4)"
  shows "m_state (d_nodes d q) \<noteq> 0"
proof (cases "\<exists>q \<in> set (descendants (org_children (d_org d)) 2 [ch, ra]). m_state (d_nodes d q) = 4")
  case False
  then show ?thesis using seen q by auto
next
  case True
  have bank: "bank_ok d q" if "q \<in> set (descendants (org_children (d_org d)) 2 [ch, ra])" for q
    using that rank inv by (auto simp: rank_banks is_bank_def names_rank_def banks_inv_alt)
  obtain q0 fa where q0: "q0 \<in> set (descendants (org_children (d_org d)) 2 [ch, ra])"
    and fa: "fa \<in> set (d_future_actions d)" "q0 \<in> fa_banks (d_org d) fa"
    using True bank by (fastforce simp: bank_ok_def)
  then have "q \<in> fa_banks (d_org d) fa" using q by (auto simp: fa_banks_def rank_banks)
  with fa(1) bank [OF q] show ?thesis by (auto simp: bank_ok_def)
qed

lemma banks_inv_refresh:
  assumes inv: "banks_inv d" and preq: "DDR4_get_preq_command 7 addr_vec d = Inr c"
    and issue: "DDR4_issue_command c addr_vec d = Inr d'"
  shows "banks_inv d'"
proof -
  let ?ch = "nat (addr_vec ! 0)"
  note e = issue_command_eq [OF issue]
  have ok: "org_ok (d_org d)" using inv by (simp add: banks_inv_def)
  obtain ra where rank: "names_rank (d_org d) addr_vec ?ch ra"
    and c: "c = rank_banks_closed DDR4_std (d_nodes d) 7 (descendants (org_children (d_org d)) 2 [?ch, ra])"
    using preq_of_refresh [OF ok] preq e(5) by (fastforce simp: DDR4_get_preq_command_def)
  let ?qs = "descendants (org_children (d_org d)) 2 [?ch, ra]"
  note cc = rank_banks_closed_cases [OF c [symmetric]]
  then have c27: "c \<in> {2, 7, 8}" by auto
  obtain s where s: "update_states (DDR4_spec d) c addr_vec (d_clk d) [?ch] s = Inr (d_nodes d')"
    and same: "\<And>q. m_state (s q) = m_state (d_nodes d q)" "\<And>q. m_row_state (s q) = m_row_state (d_nodes d q)"
    using issue_states [OF issue] by blast
  note eff = states_of_rank_command [OF ok c27 rank s]
  have org: "d_org d' = d_org d" using e(2) by (simp add: same_setup_def)
  have old: "bank_ok d q" if "is_bank d q" for q using inv that by (simp add: banks_inv_alt)
  have isb: "is_bank d q" if "q \<in> set ?qs" for q
    using that rank by (auto simp: rank_banks is_bank_def names_rank_def)
  show ?thesis
  proof (cases "c = 7")
    case False
    with cc have c2: "c = 2" by auto
    have fas: "d_future_actions d' = d_future_actions d" using e(6) c2 by simp
    have "bank_ok d' q" if "is_bank d q" for q
    proof (cases "q \<in> set ?qs")
      case True
      then show ?thesis
        using eff c2 by (simp add: bank_ok_def bank_row_ok_def Rank_PREab_def update_descendants close_bank_def)
    next
      case False
      then have "d_nodes d' q = s q" using eff c2 by (simp add: Rank_PREab_def update_descendants)
      then show ?thesis using bank_ok_unchanged [OF old [OF that] org fas] same by simp
    qed
    then show ?thesis using banks_inv_issue [OF inv issue] c2 by auto
  next
    case True
    let ?fa = "\<lparr>fa_cmd = 7, fa_addr_vec = addr_vec, fa_clk = d_clk d + timing_val (d_timing_vals d) ''nRFC'' - 1\<rparr>"
    have fas: "d_future_actions d' = d_future_actions d @ [?fa]" using e(6) True by simp
    have fab: "fa_banks (d_org d) ?fa = set ?qs" using fa_banks_rank [of "d_org d" ?fa ra] rank by simp
    have closed: "m_state (d_nodes d q) \<noteq> 0" if "q \<in> set ?qs" for q
      by (rule refresh_finds_closed [OF inv rank]) (use that cc True in auto)
    have "bank_ok d' q" if q: "is_bank d q" for q
    proof (cases "q \<in> set ?qs")
      case qs: True
      have "m_row_state (d_nodes d q) = Map.empty"
        using old [OF q] closed [OF qs] bank_row_ok_closed by (simp add: bank_ok_def)
      then show ?thesis
        using qs True eff same(2) [of q] fab org fas
        by (simp add: bank_ok_def bank_row_ok_def Rank_REFab_def update_descendants)
    next
      case qs: False
      then have "d_nodes d' q = s q" using eff True by (simp add: Rank_REFab_def update_descendants)
      then show ?thesis
        using old [OF q] qs same [of q] fab
        by (cases "m_state (d_nodes d q) = 0") (auto simp: bank_ok_def bank_row_ok_def org fas)
    qed
    moreover have "fa_ok d' ?fa"
      using refresh_blocks_activate [OF inv issue [unfolded True] rank] inv e(2,3,5) rank channel_of_same [of d' d]
      by (auto simp: fa_ok_def same_setup_def banks_inv_def fab rank_banks numeral_2_eq_2)
    ultimately show ?thesis using banks_inv_issue [OF inv issue] True by simp
  qed
qed


section \<open>Hosts that follow the device\<close>

inductive ddr4_protocol :: "dram_params \<Rightarrow> DDR4 \<Rightarrow> bool" for P where
  proto_start: "DDR4_init P = Inr d \<Longrightarrow> ddr4_protocol P d"
| proto_tick: "ddr4_protocol P d \<Longrightarrow> DDR4_tick d = Inr d' \<Longrightarrow> ddr4_protocol P d'"
| proto_issue: "ddr4_protocol P d \<Longrightarrow> final \<in> set (the DDR4_request_translations) \<Longrightarrow>
     DDR4_get_preq_command final addr_vec d = Inr c \<Longrightarrow> DDR4_check_ready c addr_vec d = Inr True \<Longrightarrow>
     DDR4_issue_command c addr_vec d = Inr d' \<Longrightarrow> ddr4_protocol P d'"

lemma banks_inv_init:
  assumes "DDR4_init P = Inr d" and "org_ok (d_org d)" and "2 \<le> timing_val (d_timing_vals d) ''nRFC''"
  shows "banks_inv d"
proof -
  note init = DDR4_init_eq [OF assms(1)]
  have "m_state (d_nodes d [ch, ra, bg, ba]) = 1" "m_row_state (d_nodes d [ch, ra, bg, ba]) = Map.empty" for ch ra bg ba
    by (simp_all add: init(4) new_nodes_def new_node_def level_of_def)
  then show ?thesis
    using assms(2,3) init new_nodes_histories [of "DDR4_spec d"]
    by (auto simp: banks_inv_def is_bank_def bank_row_ok_def)
qed

lemma protocol_config:
  "ddr4_protocol P d \<Longrightarrow> \<exists>d0. DDR4_init P = Inr d0 \<and> same_setup d0 d"
proof (induction rule: ddr4_protocol.induct)
  case (proto_start d)
  then show ?case by auto
next
  case (proto_tick d d')
  then obtain d0 where "DDR4_init P = Inr d0" "same_setup d0 d" by blast
  moreover have "same_setup d d'"
    using tick_rule [OF proto_tick(2), of "\<lambda>_. True"] by (auto simp: same_setup_def)
  ultimately show ?case using same_setup_trans by blast
next
  case (proto_issue d final addr_vec c d')
  then show ?case using issue_command_eq(2) [OF proto_issue(5)] same_setup_trans by blast
qed

lemma protocol_inv:
  assumes "ddr4_protocol P d"
  shows "org_ok (d_org d) \<Longrightarrow> 2 \<le> timing_val (d_timing_vals d) ''nRFC'' \<Longrightarrow> banks_inv d"
  using assms
proof (induction rule: ddr4_protocol.induct)
  case (proto_start d)
  then show ?case by (rule banks_inv_init)
next
  case (proto_tick d d')
  have "same_setup d d'" using tick_rule [OF proto_tick(2), of "\<lambda>_. True"] by (auto simp: same_setup_def)
  with proto_tick have "banks_inv d" by (simp add: same_setup_def)
  then show ?case using banks_inv_tick proto_tick(2) by blast
next
  case (proto_issue d final addr_vec c d')
  have inv: "banks_inv d"
    using proto_issue.IH proto_issue.prems issue_command_eq(2) [OF proto_issue(5)] by (simp add: same_setup_def)
  show ?case
  proof (cases "final = 7")
    case True
    then show ?thesis using banks_inv_refresh [OF inv] proto_issue(3,5) by blast
  next
    case False
    then have "final \<in> {0, 1, 3, 4}" using proto_issue(2) by (auto simp: DDR4_tables)
    then show ?thesis using banks_inv_bank_command [OF inv _ proto_issue(3-5)] by blast
  qed
qed

text \<open>
  C6. One open row per bank. For a host that follows the device (it issues the prerequisite the
  device names, and only when it is ready), in every reachable state a bank is closed,
  refreshing, or open with exactly one row in its row buffer; it holds no row when it is not
  open; and while the end of a refresh of its rank is pending it is not open.
\<close>

theorem ddr4_one_row_per_bank:
  assumes "ddr4_protocol P d" and "org_ok (d_org d)" and "2 \<le> timing_val (d_timing_vals d) ''nRFC''"
    and "is_bank d q"
  shows "bank_row_ok (d_nodes d q)
    \<and> ((\<exists>fa \<in> set (d_future_actions d). q \<in> fa_banks (d_org d) fa) \<longrightarrow> m_state (d_nodes d q) \<noteq> st_opened DDR4_std)"
  using protocol_inv [OF assms(1-3)] assms(4) by (simp add: banks_inv_def)


section \<open>Progress of requests\<close>

lemma preq_of_named_bank:
  assumes ok: "org_ok org" and c: "c \<in> {3, 4}" and bank: "names_bank org addr_vec ch ra bg ba"
    and f: "RequireRowOpen DDR4_std s [ch, ra, bg, ba] c addr_vec clk = Inr (Some c')"
  shows "get_preq_command (DDR4_spec_of org cs pw) c addr_vec clk [ch] s = Inr c'"
proof -
  let ?sp = "DDR4_spec_of org cs pw"
  have tab: "DDR4_preqs org l c = (if l = 3 then Some (RequireRowOpen DDR4_std) else None)" for l
    using c by (auto simp: DDR4_preqs_table)
  have down: "get_preq_command ?sp c addr_vec clk p s = get_preq_command ?sp c addr_vec clk (p @ [i]) s"
    if "1 \<le> length p" "length p < 4" "vec_at addr_vec (int (length p)) = Some (int i)" "i < org_children org p" for p i
    using that org_children_pos [OF ok that(1,2)]
    by (subst get_preq_command.simps) (auto simp: tab level_of_def)
  have "get_preq_command ?sp c addr_vec clk [ch, ra, bg, ba] s = Inr c'"
    using f bank by (subst get_preq_command.simps) (auto simp: tab level_of_def names_bank_def)
  then show ?thesis
    using down [of "[ch]" ra] down [of "[ch, ra]" bg] down [of "[ch, ra, bg]" ba] bank by (simp add: names_bank_def)
qed

lemma preq_of_named_rank:
  assumes ok: "org_ok org" and rank: "names_rank org addr_vec ch ra"
  shows "get_preq_command (DDR4_spec_of org cs pw) 7 addr_vec clk [ch] s =
     Inr (rank_banks_closed DDR4_std s 7 (descendants (org_children org) 2 [ch, ra]))"
proof -
  have tab: "DDR4_preqs org l 7 = (if l = 1 then Some (Rank_RequireAllBanksClosed DDR4_std (org_children org)) else None)" for l
    by (auto simp: DDR4_preqs_table)
  have "get_preq_command (DDR4_spec_of org cs pw) 7 addr_vec clk [ch, ra] s =
     Inr (rank_banks_closed DDR4_std s 7 (descendants (org_children org) 2 [ch, ra]))"
    using rank
    by (subst get_preq_command.simps)
      (auto simp: tab level_of_def Rank_RequireAllBanksClosed_def names_rank_def numeral_2_eq_2)
  then show ?thesis
    using rank org_children_pos [OF ok, of "[ch]"]
    by (subst get_preq_command.simps) (auto simp: tab level_of_def names_rank_def)
qed

lemma rank_banks_all_closed: "\<forall>q \<in> set qs. m_state (s q) = 1 \<Longrightarrow> rank_banks_closed DDR4_std s cmd qs = cmd"
  by (induction qs) auto

text \<open>
  C16. Requests make progress. The prerequisite of a read or a write is the access itself, an
  activate or a precharge; once the precharge is issued it is the activate, and once the
  activate is issued it is the access. The prerequisite of a refresh is the refresh or a
  precharge of all banks, and after that precharge it is the refresh. So no request needs
  more than two commands before its final one.
\<close>

theorem ddr4_request_progress:
  assumes ok: "org_ok (d_org d)" and final: "final \<in> {d_cmd ''RD'', d_cmd ''WR'', d_cmd ''REFab''}"
    and preq: "DDR4_get_preq_command final addr_vec d = Inr c" and issue: "DDR4_issue_command c addr_vec d = Inr d'"
  shows "(if final = d_cmd ''REFab'' then c \<in> {d_cmd ''PREA'', d_cmd ''REFab''} else c \<in> {d_cmd ''PRE'', d_cmd ''ACT'', final})
    \<and> (c = d_cmd ''PRE'' \<longrightarrow> DDR4_get_preq_command final addr_vec d' = Inr (d_cmd ''ACT''))
    \<and> (c \<in> {d_cmd ''ACT'', d_cmd ''PREA''} \<longrightarrow> DDR4_get_preq_command final addr_vec d' = Inr final)"
proof -
  let ?ch = "nat (addr_vec ! 0)"
  note e = issue_command_eq [OF issue]
  have chan: "channel_of d' addr_vec = Inr [?ch]" using e(2,5) channel_of_same [of d' d] by (simp add: same_setup_def)
  have p': "DDR4_get_preq_command final addr_vec d' = get_preq_command (DDR4_spec d) final addr_vec (d_clk d) [?ch] (d_nodes d')"
    using chan e(2,3) by (simp add: DDR4_get_preq_command_def same_setup_def)
  have p: "get_preq_command (DDR4_spec d) final addr_vec (d_clk d) [?ch] (d_nodes d) = Inr c"
    using preq e(5) by (simp add: DDR4_get_preq_command_def)
  obtain s where s: "update_states (DDR4_spec d) c addr_vec (d_clk d) [?ch] s = Inr (d_nodes d')"
    using issue_states [OF issue] by blast
  show ?thesis
  proof (cases "final = 7")
    case True
    then obtain ra where rank: "names_rank (d_org d) addr_vec ?ch ra"
      and c: "c = rank_banks_closed DDR4_std (d_nodes d) 7 (descendants (org_children (d_org d)) 2 [?ch, ra])"
      using preq_of_refresh [OF ok] p by blast
    note cc = rank_banks_closed_cases [OF c [symmetric]]
    then have "c \<in> {2, 7, 8}" by auto
    note eff = states_of_rank_command [OF ok this rank s]
    have "DDR4_get_preq_command final addr_vec d' = Inr final" if "c = 2"
      using eff that True p' preq_of_named_rank [OF ok rank]
      by (simp add: rank_banks_all_closed Rank_PREab_def update_descendants close_bank_def)
    with cc True show ?thesis by auto
  next
    case False
    then have fin: "final \<in> {0, 1, 3, 4}" "final \<in> {3, 4}" using final by auto
    then obtain ra bg ba where bank: "names_bank (d_org d) addr_vec ?ch ra bg ba"
      and f: "RequireRowOpen DDR4_std (d_nodes d) [?ch, ra, bg, ba] final addr_vec (d_clk d) = Inr (Some c)"
      using preq_of_bank_command [OF ok fin(1) p] by auto
    obtain row where row: "vec_at addr_vec 4 = Some row" using bank by (auto simp: names_bank_def)
    have c: "c \<in> {0, 1, final}"
      using f row by (auto simp: RequireRowOpen_def split: if_splits)
    then have "c \<in> {0, 1, 3, 4}" using fin by auto
    note eff = states_of_bank_command [OF ok this bank s] and next_preq = preq_of_named_bank [OF ok fin(2) bank]
    have "DDR4_get_preq_command final addr_vec d' = Inr 0" if "c = 1"
      using eff that p' by (simp add: next_preq RequireRowOpen_def Bank_PRE_def close_bank_def)
    moreover have "DDR4_get_preq_command final addr_vec d' = Inr final" if "c = 0"
      using eff that p' row by (simp add: next_preq RequireRowOpen_def Bank_ACT_def)
    ultimately show ?thesis using c fin False by auto
  qed
qed


section \<open>A first access\<close>

lemma demo_activate:
  "\<exists>d d'. DDR4_init demo_params = Inr d \<and> org_ok (d_org d) \<and> timings_ok (d_timing_vals d)
     \<and> DDR4_get_preq_command 3 demo_addr d = Inr 0 \<and> DDR4_check_ready 0 demo_addr d = Inr True
     \<and> DDR4_issue_command 0 demo_addr d = Inr d' \<and> is_bank d' [0, 0, 0, 0]
     \<and> m_state (d_nodes d' [0, 0, 0, 0]) = 0"
proof -
  obtain d where d: "DDR4_init demo_params = Inr d" "count (d_org d) = [1, 1, 4, 4, 2 ^ 14, 2 ^ 10]"
    "timings_ok (d_timing_vals d)" "\<not> d_drampower_enable d" "d_channels d = 1"
    using demo_device by blast
  note addr = demo_addr_ok [OF d(2,5)] and init = DDR4_init_eq [OF d(1)]
  have ok: "org_ok (d_org d)" using d(2) by (simp add: org_ok_def)
  have chan: "channel_of d demo_addr = Inr [0]" using ddr4_addr_channel [OF addr] by (simp add: demo_addr_def)
  obtain d' where d': "DDR4_issue_command 0 demo_addr d = Inr d'"
    using ddr4_issue_total [OF ddr4_start [OF d(1)] d(4) addr, of 0] by auto
  have bank: "names_bank (d_org d) demo_addr 0 0 0 0"
    using d(2) by (simp add: names_bank_def demo_addr_def vec_at_def org_children_def)
  have closed: "m_state (d_nodes d [0, 0, 0, 0]) = 1"
    by (simp add: init(4) new_nodes_def new_node_def level_of_def)
  have preq: "DDR4_get_preq_command 3 demo_addr d = Inr 0"
    using preq_of_named_bank [OF ok _ bank] closed chan by (simp add: DDR4_get_preq_command_def RequireRowOpen_def)
  have "check_ready (DDR4_spec d) 0 demo_addr (d_clk d) [0] (d_nodes d) = Inr True"
    by (rule check_ready_after) (use addr init in \<open>auto simp: ddr4_addr_def new_nodes_def new_node_def\<close>)
  then have ready: "DDR4_check_ready 0 demo_addr d = Inr True" using chan by (simp add: DDR4_check_ready_def)
  obtain s where s: "update_states (DDR4_spec d) 0 demo_addr (d_clk d) [0] s = Inr (d_nodes d')"
    using issue_states [OF d'] by (auto simp: demo_addr_def)
  have "m_state (d_nodes d' [0, 0, 0, 0]) = 0"
    using states_of_bank_command [OF ok _ bank s] by (simp add: Bank_ACT_def)
  moreover have "is_bank d' [0, 0, 0, 0]"
    using bank issue_command_eq(2) [OF d'] by (simp add: is_bank_def names_bank_def same_setup_def)
  ultimately show ?thesis using d(1,3) ok preq ready d' by blast
qed

theorem ddr4_one_row_per_bank_witness:
  "\<exists>d. ddr4_protocol demo_params d \<and> is_bank d [0, 0, 0, 0]
     \<and> m_state (d_nodes d [0, 0, 0, 0]) = st_opened DDR4_std \<and> bank_row_ok (d_nodes d [0, 0, 0, 0])"
proof -
  obtain d d' where d: "DDR4_init demo_params = Inr d" "org_ok (d_org d)" "timings_ok (d_timing_vals d)"
    "DDR4_get_preq_command 3 demo_addr d = Inr 0" "DDR4_check_ready 0 demo_addr d = Inr True"
    and d': "DDR4_issue_command 0 demo_addr d = Inr d'" "is_bank d' [0, 0, 0, 0]" "m_state (d_nodes d' [0, 0, 0, 0]) = 0"
    using demo_activate by blast
  have run: "ddr4_protocol demo_params d'"
    by (rule proto_issue [OF proto_start [OF d(1)] _ d(4,5) d'(1)]) (simp add: DDR4_tables)
  have "org_ok (d_org d')" "2 \<le> timing_val (d_timing_vals d') ''nRFC''"
    using d(2,3) issue_command_eq(2) [OF d'(1)] by (simp_all add: same_setup_def timings_ok_def)
  then have "bank_row_ok (d_nodes d' [0, 0, 0, 0])" using ddr4_one_row_per_bank [OF run _ _ d'(2)] by blast
  with run d' show ?thesis by auto
qed

theorem ddr4_request_progress_witness:
  "\<exists>d d'. DDR4_get_preq_command (d_cmd ''RD'') demo_addr d = Inr (d_cmd ''ACT'')
     \<and> DDR4_issue_command (d_cmd ''ACT'') demo_addr d = Inr d'
     \<and> DDR4_get_preq_command (d_cmd ''RD'') demo_addr d' = Inr (d_cmd ''RD'')"
proof -
  obtain d d' where d: "org_ok (d_org d)" "DDR4_get_preq_command 3 demo_addr d = Inr 0"
    "DDR4_issue_command 0 demo_addr d = Inr d'"
    using demo_activate by blast
  with ddr4_request_progress [OF d(1) _ d(2,3)] show ?thesis by auto
qed

end
