(* ===== verification/Scheduler.thy ===== *)
theory Scheduler
  imports Dram_Ifce DDR4_Banks "HOL-Library.Product_Lexorder"
begin

text \<open>
  The request schedulers of \<^verbatim>\<open>dram_controller/impl/scheduler\<close>. A scheduler first stores in
  every request of a buffer the command the request needs next, then runs through the
  buffer and keeps the better of two requests at a time. An iterator is a position;
  \<^verbatim>\<open>buffer.end()\<close> is \<open>None\<close>.

  \<open>keyed_scheduler\<close> is the contract the comparisons share: they prefer the request with the
  smaller key, and the earlier one of two with the same key.
\<close>

section \<open>The common scan\<close>

definition update_command :: "'d IDRAM \<Rightarrow> 'd \<Rightarrow> Request \<Rightarrow> Request result" where
  "update_command I d req =
     bindr (i_get_preq_command I (final_command req) (addr_vec req) d) (\<lambda>c. Inr (req\<lparr>command := c\<rparr>))"

text \<open>The comparison tells whether the candidate stays.\<close>

fun best_loop :: "(Request \<Rightarrow> Request \<Rightarrow> bool result) \<Rightarrow> nat \<Rightarrow> Request \<Rightarrow> nat \<Rightarrow> Request list \<Rightarrow> nat result" where
  "best_loop cmp candidate req1 nxt [] = Inr candidate"
| "best_loop cmp candidate req1 nxt (req2 # reqs) =
     bindr (cmp req1 req2) (\<lambda>stays.
       if stays then best_loop cmp candidate req1 (Suc nxt) reqs
       else best_loop cmp nxt req2 (Suc nxt) reqs)"

definition best_request ::
  "(Request \<Rightarrow> Request result) \<Rightarrow> (Request \<Rightarrow> Request \<Rightarrow> bool result) \<Rightarrow> ReqBuffer \<Rightarrow> (ReqBuffer \<times> nat option) result" where
  "best_request prepare cmp b =
     (if buf_size b = 0 then Inr (b, None)
      else bindr (map_result prepare (buffer b)) (\<lambda>reqs.
        bindr (best_loop cmp 0 (hd reqs) 1 (tl reqs)) (\<lambda>i. Inr (b\<lparr>buffer := reqs\<rparr>, Some i))))"

text \<open>Whether the first of two requests is returned: the flag decides if it differs, otherwise the rest.\<close>

definition decide :: "bool \<Rightarrow> bool \<Rightarrow> bool \<Rightarrow> bool" where
  "decide flag1 flag2 rest = (if flag1 \<noteq> flag2 then flag1 else rest)"


section \<open>FRFCFS\<close>

definition FRFCFS_compare :: "'d IDRAM \<Rightarrow> 'd \<Rightarrow> Request \<Rightarrow> Request \<Rightarrow> bool result" where
  "FRFCFS_compare I d req1 req2 =
     bindr (i_check_ready I (command req1) (addr_vec req1) d) (\<lambda>ready1.
     bindr (i_check_ready I (command req2) (addr_vec req2) d) (\<lambda>ready2.
       Inr (decide ready1 ready2 (arrive req1 \<le> arrive req2))))"

definition FRFCFS_get_best_request :: "'d IDRAM \<Rightarrow> 'd \<Rightarrow> ReqBuffer \<Rightarrow> (ReqBuffer \<times> nat option) result" where
  "FRFCFS_get_best_request I d = best_request (update_command I d) (FRFCFS_compare I d)"


section \<open>BHScheduler\<close>

record BHScheduler =
  bh_clk :: int

definition BHScheduler_compare :: "'d IDRAM \<Rightarrow> 'd \<Rightarrow> Request \<Rightarrow> Request \<Rightarrow> bool result" where
  "BHScheduler_compare I d req1 req2 =
     bindr (i_check_ready I (command req1) (addr_vec req1) d) (\<lambda>ready1.
     bindr (i_check_ready I (command req2) (addr_vec req2) d) (\<lambda>ready2.
       Inr (decide ready1 ready2 (arrive req1 \<le> arrive req2))))"

definition BHScheduler_get_best_request :: "'d IDRAM \<Rightarrow> 'd \<Rightarrow> ReqBuffer \<Rightarrow> (ReqBuffer \<times> nat option) result" where
  "BHScheduler_get_best_request I d = best_request (update_command I d) (BHScheduler_compare I d)"

definition BHScheduler_tick :: "BHScheduler \<Rightarrow> BHScheduler" where
  "BHScheduler_tick s = s\<lparr>bh_clk := bh_clk s + 1\<rparr>"


section \<open>BLISS\<close>

text \<open>\<open>is_blacklisted\<close> is the query of the BLISS plugin. The flags are kept in the scratchpad of a request.\<close>

definition SAFE_IDX :: nat where
  "SAFE_IDX = 0"

definition READY_IDX :: nat where
  "READY_IDX = 1"

definition flag :: "Request \<Rightarrow> nat \<Rightarrow> bool" where
  "flag req i \<longleftrightarrow> scratchpad req ! i \<noteq> 0"

definition set_flag :: "nat \<Rightarrow> bool \<Rightarrow> Request \<Rightarrow> Request" where
  "set_flag i b req = req\<lparr>scratchpad := (scratchpad req)[i := of_bool b]\<rparr>"

record BLISSScheduler =
  bl_clk :: int
  bl_req_rd :: int
  bl_req_wr :: int

definition BLISS_setup :: "'d IDRAM \<Rightarrow> bool \<Rightarrow> BLISSScheduler \<Rightarrow> BLISSScheduler result" where
  "BLISS_setup I has_plugin s =
     bindr (SpecDef_id (i_requests I) ''read'') (\<lambda>rd.
     bindr (SpecDef_id (i_requests I) ''write'') (\<lambda>wr.
       if \<not> has_plugin then Inl Configuration_Error
       else Inr (s\<lparr>bl_req_rd := int rd, bl_req_wr := int wr\<rparr>)))"

definition BLISS_compare :: "Request \<Rightarrow> Request \<Rightarrow> bool result" where
  "BLISS_compare req1 req2 =
     Inr (decide (flag req1 SAFE_IDX) (flag req2 SAFE_IDX)
       (decide (flag req1 READY_IDX) (flag req2 READY_IDX) (arrive req1 \<le> arrive req2)))"

definition BLISS_prepare :: "'d IDRAM \<Rightarrow> (int \<Rightarrow> bool) \<Rightarrow> BLISSScheduler \<Rightarrow> 'd \<Rightarrow> Request \<Rightarrow> Request result" where
  "BLISS_prepare I is_blacklisted s d req0 =
     bindr (update_command I d req0) (\<lambda>req.
       let isrw = (type_id req = bl_req_rd s \<or> type_id req = bl_req_wr s);
           safe = (\<not> isrw \<or> \<not> is_blacklisted (source_id req))
       in bindr (i_check_ready I (command req) (addr_vec req) d) (\<lambda>ready.
            Inr (set_flag READY_IDX ready (set_flag SAFE_IDX safe req))))"

definition BLISS_get_best_request ::
  "'d IDRAM \<Rightarrow> (int \<Rightarrow> bool) \<Rightarrow> BLISSScheduler \<Rightarrow> 'd \<Rightarrow> ReqBuffer \<Rightarrow> (ReqBuffer \<times> nat option) result" where
  "BLISS_get_best_request I is_blacklisted s d = best_request (BLISS_prepare I is_blacklisted s d) BLISS_compare"

definition BLISS_tick :: "BLISSScheduler \<Rightarrow> BLISSScheduler" where
  "BLISS_tick s = s\<lparr>bl_clk := bl_clk s + 1\<rparr>"


section \<open>PRAC\<close>

text \<open>\<open>next_recovery\<close> and \<open>min_cycles\<close> are the queries of the PRAC plugin.\<close>

definition FITS_IDX :: nat where
  "FITS_IDX = 0"

record PRACScheduler =
  pr_clk :: int

definition PRAC_compare :: "Request \<Rightarrow> Request \<Rightarrow> bool result" where
  "PRAC_compare req1 req2 =
     Inr (decide (flag req1 FITS_IDX) (flag req2 FITS_IDX)
       (decide (flag req1 READY_IDX) (flag req2 READY_IDX) (arrive req1 \<le> arrive req2)))"

definition PRAC_prepare :: "'d IDRAM \<Rightarrow> int \<Rightarrow> (Request \<Rightarrow> int) \<Rightarrow> PRACScheduler \<Rightarrow> 'd \<Rightarrow> Request \<Rightarrow> Request result" where
  "PRAC_prepare I next_recovery min_cycles s d req0 =
     bindr (update_command I d req0) (\<lambda>req.
     bindr (i_check_ready I (command req) (addr_vec req) d) (\<lambda>ready.
       Inr (set_flag READY_IDX ready (set_flag FITS_IDX (pr_clk s + min_cycles req < next_recovery) req))))"

definition PRAC_get_best_request ::
  "'d IDRAM \<Rightarrow> int \<Rightarrow> (Request \<Rightarrow> int) \<Rightarrow> PRACScheduler \<Rightarrow> 'd \<Rightarrow> ReqBuffer \<Rightarrow> (ReqBuffer \<times> nat option) result" where
  "PRAC_get_best_request I next_recovery min_cycles s d =
     best_request (PRAC_prepare I next_recovery min_cycles s d) PRAC_compare"

definition PRAC_tick :: "PRACScheduler \<Rightarrow> PRACScheduler" where
  "PRAC_tick s = s\<lparr>pr_clk := pr_clk s + 1\<rparr>"


section \<open>BlockingScheduler\<close>

definition Blocking_compare :: "'d IDRAM \<Rightarrow> 'd \<Rightarrow> Request \<Rightarrow> Request \<Rightarrow> bool result" where
  "Blocking_compare I d req1 req2 =
     bindr (i_check_ready I (command req1) (addr_vec req1) d) (\<lambda>ready1.
     bindr (i_check_ready I (command req2) (addr_vec req2) d) (\<lambda>ready2.
       Inr (decide ready1 ready2 (arrive req1 \<le> arrive req2))))"

text \<open>
  \<open>is_act_safe\<close> is the query of the BlockHammer plugin. The first safe request starts as the
  candidate, and the scan runs over all safe requests but the first element of the buffer.
\<close>

fun first_safe :: "(Request \<Rightarrow> bool) \<Rightarrow> nat \<Rightarrow> Request list \<Rightarrow> (nat \<times> Request) option" where
  "first_safe is_act_safe i [] = None"
| "first_safe is_act_safe i (req # reqs) =
     (if is_act_safe req then Some (i, req) else first_safe is_act_safe (Suc i) reqs)"

fun safe_loop ::
  "(Request \<Rightarrow> bool) \<Rightarrow> (Request \<Rightarrow> Request \<Rightarrow> bool result) \<Rightarrow> nat \<Rightarrow> Request \<Rightarrow> nat \<Rightarrow> Request list \<Rightarrow> nat result" where
  "safe_loop is_act_safe cmp candidate req1 nxt [] = Inr candidate"
| "safe_loop is_act_safe cmp candidate req1 nxt (req2 # reqs) =
     (if \<not> is_act_safe req2 then safe_loop is_act_safe cmp candidate req1 (Suc nxt) reqs
      else bindr (cmp req1 req2) (\<lambda>stays.
        if stays then safe_loop is_act_safe cmp candidate req1 (Suc nxt) reqs
        else safe_loop is_act_safe cmp nxt req2 (Suc nxt) reqs))"

definition Blocking_get_best_request ::
  "'d IDRAM \<Rightarrow> (Request \<Rightarrow> bool) \<Rightarrow> 'd \<Rightarrow> ReqBuffer \<Rightarrow> (ReqBuffer \<times> nat option) result" where
  "Blocking_get_best_request I is_act_safe d b =
     (if buf_size b = 0 then Inr (b, None)
      else bindr (map_result (update_command I d) (buffer b)) (\<lambda>reqs.
        case first_safe is_act_safe 0 reqs of
          None \<Rightarrow> Inr (b\<lparr>buffer := reqs\<rparr>, None)
        | Some (i, req) \<Rightarrow>
            bindr (safe_loop is_act_safe (Blocking_compare I d) i req 1 (tl reqs)) (\<lambda>j.
              Inr (b\<lparr>buffer := reqs\<rparr>, Some j))))"


section \<open>The contract of the comparisons\<close>

text \<open>The abstract choice: a position with the least key, and the first of those.\<close>

definition is_best :: "(Request \<Rightarrow> 'k::linorder) \<Rightarrow> Request list \<Rightarrow> nat \<Rightarrow> bool" where
  "is_best key reqs i \<longleftrightarrow> i < length reqs \<and> (\<forall>j < length reqs. key (reqs ! i) \<le> key (reqs ! j))
     \<and> (\<forall>j < i. key (reqs ! i) < key (reqs ! j))"

definition picks_best :: "(Request \<Rightarrow> Request result) \<Rightarrow> (Request \<Rightarrow> 'k::linorder) \<Rightarrow> ReqBuffer \<Rightarrow> ReqBuffer \<times> nat option \<Rightarrow> bool" where
  "picks_best prepare key b res \<longleftrightarrow> map_result prepare (buffer b) = Inr (buffer (fst res))
     \<and> max_size (fst res) = max_size b
     \<and> (case snd res of None \<Rightarrow> buffer b = [] | Some i \<Rightarrow> is_best key (buffer (fst res)) i)"

locale keyed_scheduler =
  fixes prepare :: "Request \<Rightarrow> Request result"
    and cmp :: "Request \<Rightarrow> Request \<Rightarrow> bool result"
    and key :: "Request \<Rightarrow> 'k::linorder"
    and answered :: "Request \<Rightarrow> bool"
  assumes cmp_key: "cmp req1 req2 = Inr stays \<Longrightarrow> stays \<longleftrightarrow> key req1 \<le> key req2"
    and cmp_returns: "answered req1 \<Longrightarrow> answered req2 \<Longrightarrow> \<exists>stays. cmp req1 req2 = Inr stays"
begin

lemma best_loop_best:
  "best_loop cmp c req1 n reqs = Inr i \<Longrightarrow> reqs = drop n all \<Longrightarrow> req1 = all ! c \<Longrightarrow> c < n \<Longrightarrow> n \<le> length all \<Longrightarrow>
   \<forall>j < n. key (all ! c) \<le> key (all ! j) \<Longrightarrow> \<forall>j < c. key (all ! c) < key (all ! j) \<Longrightarrow> is_best key all i"
proof (induction reqs arbitrary: c req1 n)
  case Nil
  then show ?case by (simp add: is_best_def)
next
  case (Cons req2 reqs)
  then have n: "n < length all" by (metis drop_eq_Nil list.discI not_le)
  then have req2: "req2 = all ! n" "reqs = drop (Suc n) all"
    using Cons.prems(2) by (simp_all add: Cons_nth_drop_Suc [symmetric])
  obtain stays where s: "cmp req1 req2 = Inr stays"
    "(if stays then best_loop cmp c req1 (Suc n) reqs else best_loop cmp n req2 (Suc n) reqs) = Inr i"
    using Cons.prems(1) by auto
  show ?case
  proof (cases stays)
    case True
    then show ?thesis
      using s cmp_key [OF s(1)] Cons.prems n req2
      by (intro Cons.IH [of c req1 "Suc n"]) (auto simp: less_Suc_eq)
  next
    case False
    then have "key (all ! n) < key (all ! c)" using cmp_key [OF s(1)] Cons.prems(3) req2 by auto
    with False show ?thesis
      using s Cons.prems n req2
      by (intro Cons.IH [of n req2 "Suc n"]) (auto simp: less_Suc_eq intro: less_imp_le order_less_le_trans)
  qed
qed

lemma best_loop_returns:
  "answered req1 \<Longrightarrow> list_all answered reqs \<Longrightarrow> \<exists>i. best_loop cmp c req1 n reqs = Inr i"
proof (induction reqs arbitrary: c req1 n)
  case (Cons req2 reqs)
  then obtain stays where "cmp req1 req2 = Inr stays" using cmp_returns by fastforce
  with Cons show ?case by (cases stays) auto
qed simp

lemma best_request_best:
  assumes "best_request prepare cmp b = Inr res"
  shows "picks_best prepare key b res"
proof (cases "buffer b = []")
  case False
  then obtain reqs i where r: "map_result prepare (buffer b) = Inr reqs"
    "best_loop cmp 0 (hd reqs) 1 (tl reqs) = Inr i" "res = (b\<lparr>buffer := reqs\<rparr>, Some i)"
    using assms by (auto simp: best_request_def buf_size_def split: if_splits)
  have "length reqs = length (buffer b)" using r(1) by (simp add: map_result_Inr list_all2_lengthD)
  with False have "reqs \<noteq> []" by auto
  then have "is_best key reqs i"
    by (intro best_loop_best [OF r(2)]) (auto simp: hd_conv_nth drop_Suc Suc_le_eq)
  with r show ?thesis by (simp add: picks_best_def)
qed (use assms in \<open>auto simp: best_request_def buf_size_def picks_best_def split: if_splits\<close>)

lemma best_request_returns:
  assumes "\<And>req. req \<in> set (buffer b) \<Longrightarrow> \<exists>req'. prepare req = Inr req' \<and> answered req'"
  shows "\<exists>res. best_request prepare cmp b = Inr res"
proof (cases "buffer b = []")
  case False
  have "\<exists>reqs. map_result prepare (buffer b) = Inr reqs \<and> list_all answered reqs"
    using assms
  proof (induction "buffer b" arbitrary: b)
    case (Cons req reqs)
    then have "\<exists>rs. map_result prepare reqs = Inr rs \<and> list_all answered rs"
      using Cons.hyps(1) [of "b\<lparr>buffer := reqs\<rparr>"] by (metis ReqBuffer.select_convs(1) ReqBuffer.surjective ReqBuffer.update_convs(1) list.set_intros(2))
    moreover obtain req' where "prepare req = Inr req'" "answered req'"
      using Cons.prems Cons.hyps(2) by (metis list.set_intros(1))
    ultimately show ?case using Cons.hyps(2) [symmetric] by fastforce
  qed auto
  then obtain reqs where reqs: "map_result prepare (buffer b) = Inr reqs" "list_all answered reqs" by blast
  then have "reqs \<noteq> []" using False by (auto simp: map_result_Inr)
  then obtain i where "best_loop cmp 0 (hd reqs) 1 (tl reqs) = Inr i"
    using best_loop_returns [of "hd reqs" "tl reqs" 0 1] reqs(2) by (cases reqs) auto
  with False reqs(1) show ?thesis by (simp add: best_request_def buf_size_def)
qed (simp add: best_request_def buf_size_def)

end

text \<open>The keys of the schedulers, smaller is better.\<close>

definition ready_at :: "'d IDRAM \<Rightarrow> 'd \<Rightarrow> Request \<Rightarrow> bool" where
  "ready_at I d req \<longleftrightarrow> i_check_ready I (command req) (addr_vec req) d = Inr True"

definition ready_answered :: "'d IDRAM \<Rightarrow> 'd \<Rightarrow> Request \<Rightarrow> bool" where
  "ready_answered I d req \<longleftrightarrow> (\<exists>ready. i_check_ready I (command req) (addr_vec req) d = Inr ready)"

definition frfcfs_key :: "'d IDRAM \<Rightarrow> 'd \<Rightarrow> Request \<Rightarrow> bool \<times> int" where
  "frfcfs_key I d req = (\<not> ready_at I d req, arrive req)"

definition flags_key :: "Request \<Rightarrow> bool \<times> bool \<times> int" where
  "flags_key req = (\<not> flag req 0, \<not> flag req 1, arrive req)"

lemma decide_key: "decide flag1 flag2 (k1 \<le> k2) \<longleftrightarrow> (\<not> flag1, k1) \<le> (\<not> flag2, k2)"
  by (auto simp: decide_def less_eq_prod_def)

lemma flags_compare:
  "decide (flag req1 0) (flag req2 0) (decide (flag req1 1) (flag req2 1) (arrive req1 \<le> arrive req2))
     \<longleftrightarrow> flags_key req1 \<le> flags_key req2"
  unfolding decide_key flags_key_def ..

lemma ready_compare:
  assumes "\<And>req1 req2. compare req1 req2 =
     bindr (i_check_ready I (command req1) (addr_vec req1) d) (\<lambda>ready1.
     bindr (i_check_ready I (command req2) (addr_vec req2) d) (\<lambda>ready2.
       Inr (decide ready1 ready2 (arrive req1 \<le> arrive req2))))"
  shows "keyed_scheduler compare (frfcfs_key I d) (ready_answered I d)"
proof
  show "stays \<longleftrightarrow> frfcfs_key I d req1 \<le> frfcfs_key I d req2" if "compare req1 req2 = Inr stays" for req1 req2 stays
    using that by (auto simp: assms decide_key frfcfs_key_def ready_at_def)
  show "\<exists>stays. compare req1 req2 = Inr stays" if "ready_answered I d req1" "ready_answered I d req2" for req1 req2
    using that by (auto simp: assms ready_answered_def simp del: bindr_Inr)
qed

interpretation frfcfs: keyed_scheduler "update_command I d" "FRFCFS_compare I d" "frfcfs_key I d" "ready_answered I d"
  for I :: "'d IDRAM" and d
  by (rule ready_compare) (rule FRFCFS_compare_def)

interpretation bh: keyed_scheduler "update_command I d" "BHScheduler_compare I d" "frfcfs_key I d" "ready_answered I d"
  for I :: "'d IDRAM" and d
  by (rule ready_compare) (rule BHScheduler_compare_def)

interpretation bliss: keyed_scheduler "BLISS_prepare I bl s d" BLISS_compare flags_key "\<lambda>_. True"
  for I :: "'d IDRAM" and bl s d
  by unfold_locales (simp_all only: BLISS_compare_def SAFE_IDX_def READY_IDX_def flags_compare sum.inject simp_thms)

interpretation prac: keyed_scheduler "PRAC_prepare I nr mc s d" PRAC_compare flags_key "\<lambda>_. True"
  for I :: "'d IDRAM" and nr mc s d
  by unfold_locales (simp_all only: PRAC_compare_def FITS_IDX_def READY_IDX_def flags_compare sum.inject simp_thms)


definition demo_request :: "int \<Rightarrow> Request" where
  "demo_request t = (Request_vec demo_addr Type_Read)\<lparr>final_command := int (d_cmd ''RD''), arrive := t\<rparr>"


end
