(* ===== verification/Maintenance.thy ===== *)
theory Maintenance
  imports Dram_Ifce Complex_Main
begin

text \<open>
  The parts of a controller that send high-priority requests: the refresh manager
  \<^verbatim>\<open>AllBankRefresh\<close>, the row policies of \<^verbatim>\<open>basic_rowpolicies.cpp\<close>, and the plugins
  \<^verbatim>\<open>CommandCounter\<close>, \<^verbatim>\<open>PARA\<close>, \<^verbatim>\<open>OracleRH\<close>, \<^verbatim>\<open>TWiCe\<close> and \<^verbatim>\<open>RFMManager\<close>. Each operation
  threads the priority buffer of the controller, the only part of it they change.
\<close>

section \<open>Refresh\<close>

record AllBankRefresh =
  ref_clk :: int
  ref_org_levels :: nat
  ref_num_ranks :: int
  ref_nrefi :: int
  ref_req_id :: int
  ref_next_cycle :: int

definition AllBankRefresh_setup :: "'d IDRAM \<Rightarrow> 'd \<Rightarrow> AllBankRefresh result" where
  "AllBankRefresh_setup I d =
     bindr (get_level_size I d ''rank'') (\<lambda>ranks.
     bindr (i_timing_val I ''nREFI'' d) (\<lambda>nrefi.
     bindr (SpecDef_id (i_requests I) ''all-bank-refresh'') (\<lambda>req_id.
       Inr \<lparr>ref_clk = 0, ref_org_levels = length (i_levels I), ref_num_ranks = ranks, ref_nrefi = nrefi,
            ref_req_id = int req_id, ref_next_cycle = nrefi\<rparr>)))"

definition refresh_request :: "AllBankRefresh \<Rightarrow> int \<Rightarrow> int \<Rightarrow> Request result" where
  "refresh_request rf channel_id r =
     (if ref_org_levels rf < 2 then Inl Out_Of_Bounds
      else Inr (Request_vec ((replicate (ref_org_levels rf) (-1))[0 := channel_id, 1 := r]) (ref_req_id rf)))"

fun send_refreshes :: "'d IDRAM \<Rightarrow> AllBankRefresh \<Rightarrow> int \<Rightarrow> nat list \<Rightarrow> ReqBuffer \<Rightarrow> ReqBuffer result" where
  "send_refreshes I rf channel_id [] b = Inr b"
| "send_refreshes I rf channel_id (r # rs) b =
     bindr (refresh_request rf channel_id (int r)) (\<lambda>req.
     bindr (priority_send I req b) (\<lambda>(is_success, b').
       if \<not> is_success then Inl Runtime_Error else send_refreshes I rf channel_id rs b'))"

definition AllBankRefresh_tick :: "'d IDRAM \<Rightarrow> int \<Rightarrow> AllBankRefresh \<Rightarrow> ReqBuffer \<Rightarrow> (AllBankRefresh \<times> ReqBuffer) result" where
  "AllBankRefresh_tick I channel_id rf0 b =
     (let rf = rf0\<lparr>ref_clk := ref_clk rf0 + 1\<rparr>
      in if ref_clk rf = ref_next_cycle rf
         then bindr (send_refreshes I rf channel_id [0..<nat (ref_num_ranks rf)] b) (\<lambda>b'.
                Inr (rf\<lparr>ref_next_cycle := ref_next_cycle rf + ref_nrefi rf\<rparr>, b'))
         else Inr (rf, b))"


section \<open>Row policies\<close>

record ClosedRowPolicy =
  cl_PRE_req_id :: int
  cl_cap :: int
  cl_rank_level :: nat
  cl_bankgroup_level :: nat
  cl_bank_level :: nat
  cl_row_level :: nat
  cl_num_ranks :: int
  cl_num_bankgroups :: int
  cl_num_banks :: int
  s_num_close_reqs :: nat
  m_col_accesses :: "nat list"

datatype rowpolicy = Open_Row | Closed_Row ClosedRowPolicy

definition ClosedRowPolicy_setup :: "'d IDRAM \<Rightarrow> 'd \<Rightarrow> int option \<Rightarrow> ClosedRowPolicy result" where
  "ClosedRowPolicy_setup I d cap =
     bindr (SpecDef_id (i_levels I) ''rank'') (\<lambda>ra.
     bindr (SpecDef_id (i_levels I) ''bankgroup'') (\<lambda>bg.
     bindr (SpecDef_id (i_levels I) ''bank'') (\<lambda>ba.
     bindr (SpecDef_id (i_levels I) ''row'') (\<lambda>ro.
     bindr (SpecDef_id (i_requests I) ''close-row'') (\<lambda>pre.
     bindr (get_level_size I d ''rank'') (\<lambda>nra.
     bindr (get_level_size I d ''bankgroup'') (\<lambda>nbg.
     bindr (get_level_size I d ''bank'') (\<lambda>nba.
       Inr \<lparr>cl_PRE_req_id = int pre, cl_cap = override cap 10000000, cl_rank_level = ra, cl_bankgroup_level = bg,
            cl_bank_level = ba, cl_row_level = ro, cl_num_ranks = nra, cl_num_bankgroups = nbg, cl_num_banks = nba,
            s_num_close_reqs = 0, m_col_accesses = replicate (nat (nba * nbg * nra)) 0\<rparr>))))))))"

text \<open>Writing zero to a list of positions, each checked.\<close>

fun clear_at :: "int list \<Rightarrow> nat list \<Rightarrow> nat list result" where
  "clear_at [] xs = Inr xs"
| "clear_at (i # is) xs = (if 0 \<le> i \<and> nat i < length xs then clear_at is (xs[nat i := 0]) else Inl Out_Of_Bounds)"

definition flat_bank :: "ClosedRowPolicy \<Rightarrow> int \<Rightarrow> int \<Rightarrow> int \<Rightarrow> int" where
  "flat_bank p ra bg ba = ba + bg * cl_num_banks p + ra * cl_num_banks p * cl_num_bankgroups p"

definition level_at :: "Request \<Rightarrow> nat \<Rightarrow> int result" where
  "level_at req l = of_opt Out_Of_Bounds (vec_at (addr_vec req) (int l))"

definition closed_banks :: "ClosedRowPolicy \<Rightarrow> int \<Rightarrow> int \<Rightarrow> int \<Rightarrow> int list" where
  "closed_banks p ra bg ba =
     (if bg = -1 \<and> ba = -1
      then concat (map (\<lambda>b. map (\<lambda>g. flat_bank p ra (int g) (int b)) [0..<nat (cl_num_bankgroups p)]) [0..<nat (cl_num_banks p)])
      else if bg = -1 then map (\<lambda>g. flat_bank p ra (int g) ba) [0..<nat (cl_num_bankgroups p)]
      else [flat_bank p ra bg ba])"

text \<open>The counters are \<^verbatim>\<open>uint64_t\<close>, so the cap is compared as one.\<close>

definition reaches_cap :: "nat \<Rightarrow> ClosedRowPolicy \<Rightarrow> bool" where
  "reaches_cap n p \<longleftrightarrow> nat (cl_cap p mod 2 ^ 64) \<le> n"

definition ClosedRowPolicy_access ::
  "'d IDRAM \<Rightarrow> Request \<Rightarrow> int \<Rightarrow> ClosedRowPolicy \<Rightarrow> ReqBuffer \<Rightarrow> (ClosedRowPolicy \<times> ReqBuffer) result" where
  "ClosedRowPolicy_access I req i p b =
     bindr (of_opt Out_Of_Bounds (vec_at (m_col_accesses p) i)) (\<lambda>n.
       if reaches_cap (n + 1) p
       then bindr (priority_send I (Request_vec (addr_vec req) (cl_PRE_req_id p)) b) (\<lambda>(_, b').
              Inr (p\<lparr>m_col_accesses := (m_col_accesses p)[nat i := 0],
                     s_num_close_reqs := s_num_close_reqs p + 1\<rparr>, b'))
       else Inr (p\<lparr>m_col_accesses := (m_col_accesses p)[nat i := n + 1]\<rparr>, b))"

definition ClosedRowPolicy_update ::
  "'d IDRAM \<Rightarrow> Request option \<Rightarrow> ClosedRowPolicy \<Rightarrow> ReqBuffer \<Rightarrow> (ClosedRowPolicy \<times> ReqBuffer) result" where
  "ClosedRowPolicy_update I found p b =
     (case found of
        None \<Rightarrow> Inr (p, b)
      | Some req \<Rightarrow>
          bindr (meta_of I (command req)) (\<lambda>m.
            if \<not> is_closing m \<and> \<not> is_refreshing m \<and> \<not> is_accessing m then Inr (p, b)
            else
              bindr (level_at req (cl_bankgroup_level p)) (\<lambda>bg.
              bindr (level_at req (cl_bank_level p)) (\<lambda>ba.
              bindr (level_at req (cl_rank_level p)) (\<lambda>ra.
                if is_closing m \<or> is_refreshing m
                then bindr (clear_at (closed_banks p ra bg ba) (m_col_accesses p)) (\<lambda>acc.
                       Inr (p\<lparr>m_col_accesses := acc\<rparr>, b))
                else ClosedRowPolicy_access I req (flat_bank p ra bg ba) p b)))))"

definition rowpolicy_update :: "'d IDRAM \<Rightarrow> Request option \<Rightarrow> rowpolicy \<Rightarrow> ReqBuffer \<Rightarrow> (rowpolicy \<times> ReqBuffer) result" where
  "rowpolicy_update I found p b =
     (case p of
        Open_Row \<Rightarrow> Inr (Open_Row, b)
      | Closed_Row q \<Rightarrow> bindr (ClosedRowPolicy_update I found q b) (\<lambda>(q', b'). Inr (Closed_Row q', b')))"


section \<open>Plugins\<close>

text \<open>
  The activation of a row as the plugins recognise it, and the number they give to a bank:
  the address below the rank read as a mixed-radix number. Members that are only written
  are left out.
\<close>

definition opens_row :: "'d IDRAM \<Rightarrow> nat \<Rightarrow> Request \<Rightarrow> bool result" where
  "opens_row I row_level req =
     bindr (meta_of I (command req)) (\<lambda>m.
       if is_opening m then bindr (scope_of I (command req)) (\<lambda>s. Inr (s = row_level)) else Inr False)"

definition refreshes_rank :: "'d IDRAM \<Rightarrow> nat \<Rightarrow> Request \<Rightarrow> bool result" where
  "refreshes_rank I rank_level req =
     bindr (meta_of I (command req)) (\<lambda>m.
       if is_refreshing m then bindr (scope_of I (command req)) (\<lambda>s. Inr (s = rank_level)) else Inr False)"

fun flat_bank_loop :: "int list \<Rightarrow> Request \<Rightarrow> nat list \<Rightarrow> int \<Rightarrow> int \<Rightarrow> int result" where
  "flat_bank_loop counts req [] acc fl = Inr fl"
| "flat_bank_loop counts req (i # is) acc fl =
     bindr (of_opt Out_Of_Bounds (vec_at counts (int i + 1))) (\<lambda>n.
     bindr (level_at req i) (\<lambda>a.
       flat_bank_loop counts req is (acc * n) (fl + a * (acc * n))))"

definition flat_bank_number :: "int list \<Rightarrow> nat \<Rightarrow> nat \<Rightarrow> Request \<Rightarrow> int result" where
  "flat_bank_number counts rank_level bank_level req =
     bindr (level_at req bank_level) (\<lambda>ba. flat_bank_loop counts req (rev [rank_level..<bank_level]) 1 ba)"

definition banks_per_rank :: "'d IDRAM \<Rightarrow> 'd \<Rightarrow> int result" where
  "banks_per_rank I d =
     bindr (get_level_size I d ''bankgroup'') (\<lambda>bg.
     bindr (get_level_size I d ''bank'') (\<lambda>ba. Inr (if bg = -1 then ba else bg * ba)))"


subsection \<open>CommandCounter\<close>

record CommandCounter =
  cc_commands_to_count :: "string list"
  cc_counters :: "int \<rightharpoonup> int"

fun CommandCounter_setup :: "'d IDRAM \<Rightarrow> string list \<Rightarrow> CommandCounter \<Rightarrow> CommandCounter result" where
  "CommandCounter_setup I [] p = Inr p"
| "CommandCounter_setup I (n # ns) p =
     (if n \<notin> set (i_commands I) then Inl Configuration_Error
      else bindr (SpecDef_id (i_commands I) n) (\<lambda>c.
             CommandCounter_setup I ns (p\<lparr>cc_counters := (cc_counters p)(int c \<mapsto> 0)\<rparr>)))"

definition CommandCounter_update :: "Request option \<Rightarrow> CommandCounter \<Rightarrow> CommandCounter" where
  "CommandCounter_update found p =
     (case found of
        None \<Rightarrow> p
      | Some req \<Rightarrow> p\<lparr>cc_counters := (cc_counters p)(command req \<mapsto> override (cc_counters p (command req)) 0 + 1)\<rparr>)"


subsection \<open>PARA\<close>

text \<open>The uniform distribution over its generator is the stream of the values it returns.\<close>

record PARA =
  pa_threshold :: rat
  pa_draws :: "rat stream"
  pa_VRR_req_id :: int
  pa_row_level :: nat

definition PARA_init :: "rat \<Rightarrow> rat stream \<Rightarrow> PARA result" where
  "PARA_init threshold draws =
     (if threshold \<le> 0 \<or> 1 \<le> threshold then Inl Configuration_Error
      else Inr \<lparr>pa_threshold = threshold, pa_draws = draws, pa_VRR_req_id = -1, pa_row_level = 0\<rparr>)"

definition PARA_setup :: "'d IDRAM \<Rightarrow> PARA \<Rightarrow> PARA result" where
  "PARA_setup I p =
     (if ''VRR'' \<notin> set (i_commands I) then Inl Configuration_Error
      else bindr (SpecDef_id (i_requests I) ''victim-row-refresh'') (\<lambda>vrr.
           bindr (SpecDef_id (i_levels I) ''bank'') (\<lambda>_.
           bindr (SpecDef_id (i_levels I) ''row'') (\<lambda>ro.
             Inr (p\<lparr>pa_VRR_req_id := int vrr, pa_row_level := ro\<rparr>)))))"

definition PARA_update :: "'d IDRAM \<Rightarrow> Request option \<Rightarrow> PARA \<Rightarrow> ReqBuffer \<Rightarrow> (PARA \<times> ReqBuffer) result" where
  "PARA_update I found p b =
     (case found of
        None \<Rightarrow> Inr (p, b)
      | Some req \<Rightarrow>
          bindr (opens_row I (pa_row_level p) req) (\<lambda>opens.
            if \<not> opens then Inr (p, b)
            else
              let p' = p\<lparr>pa_draws := stl (pa_draws p)\<rparr>
              in if shd (pa_draws p) < pa_threshold p
                 then bindr (priority_send I (Request_vec (addr_vec req) (pa_VRR_req_id p)) b) (\<lambda>(_, b'). Inr (p', b'))
                 else Inr (p', b)))"


subsection \<open>OracleRH\<close>

record OracleRH =
  or_table :: "(int \<rightharpoonup> int) list"
  or_threshold :: int
  or_VRR_req_id :: int
  or_rank_level :: nat
  or_bank_level :: nat
  or_row_level :: nat
  or_num_banks_per_rank :: int

definition OracleRH_setup :: "'d IDRAM \<Rightarrow> 'd \<Rightarrow> int \<Rightarrow> OracleRH result" where
  "OracleRH_setup I d threshold =
     (if ''VRR'' \<notin> set (i_commands I) then Inl Configuration_Error
      else bindr (SpecDef_id (i_requests I) ''victim-row-refresh'') (\<lambda>vrr.
           bindr (SpecDef_id (i_levels I) ''rank'') (\<lambda>ra.
           bindr (SpecDef_id (i_levels I) ''bank'') (\<lambda>ba.
           bindr (SpecDef_id (i_levels I) ''row'') (\<lambda>ro.
           bindr (get_level_size I d ''rank'') (\<lambda>nra.
           bindr (banks_per_rank I d) (\<lambda>nb.
             Inr \<lparr>or_table = replicate (nat (nb * nra)) Map.empty, or_threshold = threshold, or_VRR_req_id = int vrr,
                  or_rank_level = ra, or_bank_level = ba, or_row_level = ro, or_num_banks_per_rank = nb\<rparr>)))))))"

text \<open>The tables of the banks of a rank are emptied one after the other.\<close>

fun clear_tables :: "int list \<Rightarrow> ('a \<rightharpoonup> 'b) list \<Rightarrow> ('a \<rightharpoonup> 'b) list result" where
  "clear_tables [] ts = Inr ts"
| "clear_tables (i # is) ts =
     (if 0 \<le> i \<and> nat i < length ts then clear_tables is (ts[nat i := Map.empty]) else Inl Out_Of_Bounds)"

definition rank_tables :: "int \<Rightarrow> int \<Rightarrow> int list" where
  "rank_tables nb ra = map (\<lambda>i. ra * nb + int i) [0..<nat nb]"

definition OracleRH_activate :: "'d IDRAM \<Rightarrow> 'd \<Rightarrow> Request \<Rightarrow> OracleRH \<Rightarrow> ReqBuffer \<Rightarrow> (OracleRH \<times> ReqBuffer) result" where
  "OracleRH_activate I d req p b =
     bindr (flat_bank_number (i_count I d) (or_rank_level p) (or_bank_level p) req) (\<lambda>i.
     bindr (level_at req (or_row_level p)) (\<lambda>row.
     bindr (of_opt Out_Of_Bounds (vec_at (or_table p) i)) (\<lambda>t.
       case t row of
         None \<Rightarrow> Inr (p\<lparr>or_table := (or_table p)[nat i := t(row \<mapsto> 1)]\<rparr>, b)
       | Some n \<Rightarrow>
           if or_threshold p \<le> n + 1
           then bindr (priority_send I (Request_vec (addr_vec req) (or_VRR_req_id p)) b) (\<lambda>(_, b').
                  Inr (p\<lparr>or_table := (or_table p)[nat i := t(row \<mapsto> 0)]\<rparr>, b'))
           else Inr (p\<lparr>or_table := (or_table p)[nat i := t(row \<mapsto> n + 1)]\<rparr>, b))))"

definition OracleRH_update :: "'d IDRAM \<Rightarrow> 'd \<Rightarrow> Request option \<Rightarrow> OracleRH \<Rightarrow> ReqBuffer \<Rightarrow> (OracleRH \<times> ReqBuffer) result" where
  "OracleRH_update I d found p b =
     (case found of
        None \<Rightarrow> Inr (p, b)
      | Some req \<Rightarrow>
          bindr (opens_row I (or_row_level p) req) (\<lambda>opens.
            if opens then OracleRH_activate I d req p b
            else bindr (refreshes_rank I (or_rank_level p) req) (\<lambda>refr.
              if \<not> refr then Inr (p, b)
              else bindr (level_at req (or_rank_level p)) (\<lambda>ra.
                   bindr (clear_tables (rank_tables (or_num_banks_per_rank p) ra) (or_table p)) (\<lambda>ts.
                     Inr (p\<lparr>or_table := ts\<rparr>, b))))))"


subsection \<open>TWiCe\<close>

record TwiCeEntry =
  act_count :: int
  life :: int

record TWiCe =
  tw_clk :: int
  tw_rh_threshold :: int
  tw_pruning_interval_threshold :: rat
  tw_VRR_req_id :: int
  tw_rank_level :: nat
  tw_bank_level :: nat
  tw_row_level :: nat
  tw_num_ranks :: int
  tw_num_banks_per_rank :: int
  tw_table :: "(int \<rightharpoonup> TwiCeEntry) list"

definition TWiCe_setup :: "'d IDRAM \<Rightarrow> 'd \<Rightarrow> int \<Rightarrow> rat \<Rightarrow> TWiCe result" where
  "TWiCe_setup I d threshold pruning =
     (if ''VRR'' \<notin> set (i_commands I) then Inl Configuration_Error
      else bindr (SpecDef_id (i_requests I) ''victim-row-refresh'') (\<lambda>vrr.
           bindr (SpecDef_id (i_levels I) ''rank'') (\<lambda>ra.
           bindr (SpecDef_id (i_levels I) ''bank'') (\<lambda>ba.
           bindr (SpecDef_id (i_levels I) ''row'') (\<lambda>ro.
           bindr (get_level_size I d ''rank'') (\<lambda>nra.
           bindr (banks_per_rank I d) (\<lambda>nb.
             Inr \<lparr>tw_clk = 0, tw_rh_threshold = threshold, tw_pruning_interval_threshold = pruning,
                  tw_VRR_req_id = int vrr, tw_rank_level = ra, tw_bank_level = ba, tw_row_level = ro,
                  tw_num_ranks = nra, tw_num_banks_per_rank = nb,
                  tw_table = replicate (nat (nra * nb)) Map.empty\<rparr>)))))))"

text \<open>At a refresh an entry with too few activations for its age is dropped, the others get older.\<close>

definition prune :: "rat \<Rightarrow> (int \<rightharpoonup> TwiCeEntry) \<Rightarrow> (int \<rightharpoonup> TwiCeEntry)" where
  "prune limit t row =
     (case t row of
        None \<Rightarrow> None
      | Some e \<Rightarrow> if of_int (act_count e) < of_int (life e) * limit then None else Some (e\<lparr>life := life e + 1\<rparr>))"

definition TWiCe_activate :: "'d IDRAM \<Rightarrow> 'd \<Rightarrow> Request \<Rightarrow> TWiCe \<Rightarrow> ReqBuffer \<Rightarrow> (TWiCe \<times> ReqBuffer) result" where
  "TWiCe_activate I d req p b =
     bindr (flat_bank_number (i_count I d) (tw_rank_level p) (tw_bank_level p) req) (\<lambda>i.
     bindr (level_at req (tw_row_level p)) (\<lambda>row.
     bindr (of_opt Out_Of_Bounds (vec_at (tw_table p) i)) (\<lambda>t.
       case t row of
         None \<Rightarrow> Inr (p\<lparr>tw_table := (tw_table p)[nat i := t(row \<mapsto> \<lparr>act_count = 1, life = 0\<rparr>)]\<rparr>, b)
       | Some e \<Rightarrow>
           if tw_rh_threshold p \<le> act_count e + 1
           then bindr (priority_send I (Request_vec (addr_vec req) (tw_VRR_req_id p)) b) (\<lambda>(_, b').
                  Inr (p\<lparr>tw_table := (tw_table p)[nat i := t(row := None)]\<rparr>, b'))
           else Inr (p\<lparr>tw_table := (tw_table p)[nat i := t(row \<mapsto> e\<lparr>act_count := act_count e + 1\<rparr>)]\<rparr>, b))))"

definition TWiCe_update :: "'d IDRAM \<Rightarrow> 'd \<Rightarrow> Request option \<Rightarrow> TWiCe \<Rightarrow> ReqBuffer \<Rightarrow> (TWiCe \<times> ReqBuffer) result" where
  "TWiCe_update I d found p0 b =
     (let p = p0\<lparr>tw_clk := tw_clk p0 + 1\<rparr>
      in case found of
           None \<Rightarrow> Inr (p, b)
         | Some req \<Rightarrow>
             bindr (refreshes_rank I (tw_rank_level p) req) (\<lambda>refr.
               if refr
               then Inr (p\<lparr>tw_table := map (prune (tw_pruning_interval_threshold p)) (tw_table p)\<rparr>, b)
               else bindr (opens_row I (tw_row_level p) req) (\<lambda>opens.
                 if opens then TWiCe_activate I d req p b else Inr (p, b))))"


subsection \<open>RFMManager\<close>

record RFMManager =
  rfm_clk :: int
  rfm_req_id :: int
  rfm_rank_level :: nat
  rfm_bank_level :: nat
  rfm_bankgroup_level :: nat
  rfm_row_level :: nat
  rfm_thresh :: int
  rfm_bank_ctrs :: "int list"
  s_rfm_counter :: int

definition RFMManager_setup :: "'d IDRAM \<Rightarrow> 'd \<Rightarrow> int option \<Rightarrow> RFMManager result" where
  "RFMManager_setup I d thresh =
     (if ''rfm'' \<notin> set (i_requests I) then Inl Exit_Process
      else bindr (SpecDef_id (i_requests I) ''rfm'') (\<lambda>rfm.
           bindr (SpecDef_id (i_levels I) ''rank'') (\<lambda>ra.
           bindr (SpecDef_id (i_levels I) ''bank'') (\<lambda>ba.
           bindr (SpecDef_id (i_levels I) ''bankgroup'') (\<lambda>bg.
           bindr (SpecDef_id (i_levels I) ''row'') (\<lambda>ro.
           bindr (SpecDef_id (i_levels I) ''column'') (\<lambda>_.
           bindr (get_level_size I d ''rank'') (\<lambda>nra.
           bindr (get_level_size I d ''bankgroup'') (\<lambda>nbg.
           bindr (get_level_size I d ''bank'') (\<lambda>nba.
             Inr \<lparr>rfm_clk = 0, rfm_req_id = int rfm, rfm_rank_level = ra, rfm_bank_level = ba, rfm_bankgroup_level = bg,
                  rfm_row_level = ro, rfm_thresh = override thresh 80,
                  rfm_bank_ctrs = replicate (nat (nra * (if nbg < 0 then nba else nbg * nba))) 0,
                  s_rfm_counter = 0\<rparr>))))))))))"

definition RFMManager_update :: "'d IDRAM \<Rightarrow> 'd \<Rightarrow> Request option \<Rightarrow> RFMManager \<Rightarrow> ReqBuffer \<Rightarrow> (RFMManager \<times> ReqBuffer) result" where
  "RFMManager_update I d found p0 b =
     (let p = p0\<lparr>rfm_clk := rfm_clk p0 + 1\<rparr>
      in case found of
           None \<Rightarrow> Inr (p, b)
         | Some req \<Rightarrow>
             bindr (opens_row I (rfm_row_level p) req) (\<lambda>opens.
               if \<not> opens then Inr (p, b)
               else
                 bindr (flat_bank_number (i_count I d) (rfm_rank_level p) (rfm_bank_level p) req) (\<lambda>i.
                 bindr (of_opt Out_Of_Bounds (vec_at (rfm_bank_ctrs p) i)) (\<lambda>n.
                   let p1 = p\<lparr>rfm_bank_ctrs := (rfm_bank_ctrs p)[nat i := n + 1]\<rparr>
                   in if n + 1 < rfm_thresh p then Inr (p1, b)
                      else
                        let av = (addr_vec req)[rfm_bankgroup_level p := -1, rfm_bank_level p := -1]
                        in bindr (priority_send I (Request_vec av (rfm_req_id p)) b) (\<lambda>(is_success, b').
                             if \<not> is_success then Inl Exit_Process
                             else Inr (p1\<lparr>rfm_bank_ctrs := map (\<lambda>_. 0) (rfm_bank_ctrs p1),
                                          s_rfm_counter := s_rfm_counter p + 1\<rparr>, b'))))))"


subsection \<open>The plugins of a controller\<close>

datatype plugin =
    P_CommandCounter CommandCounter
  | P_PARA PARA
  | P_OracleRH OracleRH
  | P_TWiCe TWiCe
  | P_RFMManager RFMManager

definition plugin_update :: "'d IDRAM \<Rightarrow> 'd \<Rightarrow> Request option \<Rightarrow> plugin \<Rightarrow> ReqBuffer \<Rightarrow> (plugin \<times> ReqBuffer) result" where
  "plugin_update I d found pl b =
     (case pl of
        P_CommandCounter p \<Rightarrow> Inr (P_CommandCounter (CommandCounter_update found p), b)
      | P_PARA p \<Rightarrow> bindr (PARA_update I found p b) (\<lambda>(p', b'). Inr (P_PARA p', b'))
      | P_OracleRH p \<Rightarrow> bindr (OracleRH_update I d found p b) (\<lambda>(p', b'). Inr (P_OracleRH p', b'))
      | P_TWiCe p \<Rightarrow> bindr (TWiCe_update I d found p b) (\<lambda>(p', b'). Inr (P_TWiCe p', b'))
      | P_RFMManager p \<Rightarrow> bindr (RFMManager_update I d found p b) (\<lambda>(p', b'). Inr (P_RFMManager p', b')))"

fun update_plugins :: "'d IDRAM \<Rightarrow> 'd \<Rightarrow> Request option \<Rightarrow> plugin list \<Rightarrow> ReqBuffer \<Rightarrow> (plugin list \<times> ReqBuffer) result" where
  "update_plugins I d found [] b = Inr ([], b)"
| "update_plugins I d found (pl # pls) b =
     bindr (plugin_update I d found pl b) (\<lambda>(pl', b1).
     bindr (update_plugins I d found pls b1) (\<lambda>(pls', b2). Inr (pl' # pls', b2)))"

end
