(* ===== verification/Controller.thy ===== *)
theory Controller
  imports Scheduler Maintenance Utils
begin

text \<open>
  The memory controller \<^verbatim>\<open>GenericDRAMController\<close> of \<^verbatim>\<open>generic_dram_controller.cpp\<close>, with the
  FRFCFS scheduler. A reference to a request is the buffer that holds it and its position.
  A cycle returns the controller, the device and the read whose callback it called. The
  latency matrix is the global of \<^verbatim>\<open>base/utils.h\<close>; the watermarks and averages are exact
  rationals.
\<close>

section \<open>State\<close>

record row_stats =
  s_row_hits :: nat
  s_row_misses :: nat
  s_row_conflicts :: nat
  s_read_row_hits :: nat
  s_read_row_misses :: nat
  s_read_row_conflicts :: nat
  s_write_row_hits :: nat
  s_write_row_misses :: nat
  s_write_row_conflicts :: nat
  s_read_row_hits_per_core :: "nat list"
  s_read_row_misses_per_core :: "nat list"
  s_read_row_conflicts_per_core :: "nat list"

record queue_stats =
  s_num_read_reqs :: nat
  s_num_write_reqs :: nat
  s_num_other_reqs :: nat
  s_queue_len :: nat
  s_read_queue_len :: nat
  s_write_queue_len :: nat
  s_priority_queue_len :: nat
  s_read_latency :: int

record GenericDRAMController =
  c_clk :: int
  m_channel_id :: int
  pending :: "Request list"
  m_active_buffer :: ReqBuffer
  m_priority_buffer :: ReqBuffer
  m_read_buffer :: ReqBuffer
  m_write_buffer :: ReqBuffer
  m_bank_addr_idx :: int
  m_wr_low_watermark :: rat
  m_wr_high_watermark :: rat
  m_is_write_mode :: bool
  c_rows :: row_stats
  c_queues :: queue_stats
  m_refresh :: AllBankRefresh
  m_rowpolicy :: rowpolicy
  m_plugins :: "plugin list"

definition new_row_stats :: "nat \<Rightarrow> row_stats" where
  "new_row_stats cores =
     \<lparr>s_row_hits = 0, s_row_misses = 0, s_row_conflicts = 0, s_read_row_hits = 0, s_read_row_misses = 0,
      s_read_row_conflicts = 0, s_write_row_hits = 0, s_write_row_misses = 0, s_write_row_conflicts = 0,
      s_read_row_hits_per_core = replicate cores 0, s_read_row_misses_per_core = replicate cores 0,
      s_read_row_conflicts_per_core = replicate cores 0\<rparr>"

definition new_queue_stats :: queue_stats where
  "new_queue_stats =
     \<lparr>s_num_read_reqs = 0, s_num_write_reqs = 0, s_num_other_reqs = 0, s_queue_len = 0, s_read_queue_len = 0,
      s_write_queue_len = 0, s_priority_queue_len = 0, s_read_latency = 0\<rparr>"

text \<open>
  \<^verbatim>\<open>init\<close> and \<^verbatim>\<open>setup\<close>: the two watermarks are parameters, the refresh manager is set up with
  the device, the row policy and the plugins are given.
\<close>

definition controller_setup ::
  "'d IDRAM \<Rightarrow> 'd \<Rightarrow> int \<Rightarrow> rat option \<Rightarrow> rat option \<Rightarrow> rowpolicy \<Rightarrow> plugin list \<Rightarrow> nat \<Rightarrow> GenericDRAMController result" where
  "controller_setup I d channel_id low high policy plugins cores =
     bindr (SpecDef_id (i_levels I) ''bank'') (\<lambda>ba.
     bindr (AllBankRefresh_setup I d) (\<lambda>rf.
       Inr \<lparr>c_clk = 0, m_channel_id = channel_id, pending = [], m_active_buffer = empty_ReqBuffer,
            m_priority_buffer = empty_ReqBuffer\<lparr>max_size := 512 * 3 + 32\<rparr>, m_read_buffer = empty_ReqBuffer,
            m_write_buffer = empty_ReqBuffer, m_bank_addr_idx = int ba,
            m_wr_low_watermark = override low (1 / 5), m_wr_high_watermark = override high (4 / 5),
            m_is_write_mode = False, c_rows = new_row_stats cores, c_queues = new_queue_stats,
            m_refresh = rf, m_rowpolicy = policy, m_plugins = plugins\<rparr>))"


section \<open>Accepting requests\<close>

definition count_request :: "int \<Rightarrow> queue_stats \<Rightarrow> queue_stats" where
  "count_request type q =
     (if type = Type_Read then q\<lparr>s_num_read_reqs := s_num_read_reqs q + 1\<rparr>
      else if type = Type_Write then q\<lparr>s_num_write_reqs := s_num_write_reqs q + 1\<rparr>
      else q\<lparr>s_num_other_reqs := s_num_other_reqs q + 1\<rparr>)"

definition uncount_request :: "int \<Rightarrow> queue_stats \<Rightarrow> queue_stats" where
  "uncount_request type q =
     (if type = Type_Read then q\<lparr>s_num_read_reqs := s_num_read_reqs q - 1\<rparr>
      else q\<lparr>s_num_write_reqs := s_num_write_reqs q - 1\<rparr>)"

definition controller_send :: "'d IDRAM \<Rightarrow> Request \<Rightarrow> GenericDRAMController \<Rightarrow> (bool \<times> Request \<times> GenericDRAMController) result" where
  "controller_send I req0 c0 =
     bindr (translation_of I (type_id req0)) (\<lambda>final.
       let req = req0\<lparr>final_command := final\<rparr>;
           c = c0\<lparr>c_queues := count_request (type_id req) (c_queues c0)\<rparr>
       in if type_id req = Type_Read \<and> (\<exists>wreq \<in> set (buffer (m_write_buffer c)). addr wreq = addr req)
          then let fwd = req\<lparr>depart := c_clk c + 1\<rparr>
               in Inr (True, fwd, c\<lparr>pending := pending c @ [fwd]\<rparr>)
          else
            let req' = req\<lparr>arrive := c_clk c\<rparr>;
                failed = (req'\<lparr>arrive := -1\<rparr>, c\<lparr>c_queues := uncount_request (type_id req) (c_queues c)\<rparr>)
            in if type_id req = Type_Read
               then (case enqueue (m_read_buffer c) req' of
                       (is_success, b) \<Rightarrow> if is_success then Inr (True, req', c\<lparr>m_read_buffer := b\<rparr>) else Inr (False, failed))
               else if type_id req = Type_Write
               then (case enqueue (m_write_buffer c) req' of
                       (is_success, b) \<Rightarrow> if is_success then Inr (True, req', c\<lparr>m_write_buffer := b\<rparr>) else Inr (False, failed))
               else Inl Runtime_Error)"

definition controller_priority_send :: "'d IDRAM \<Rightarrow> Request \<Rightarrow> GenericDRAMController \<Rightarrow> (bool \<times> GenericDRAMController) result" where
  "controller_priority_send I req c =
     bindr (priority_send I req (m_priority_buffer c)) (\<lambda>(is_success, b). Inr (is_success, c\<lparr>m_priority_buffer := b\<rparr>))"


section \<open>Completed reads\<close>

definition latency_at :: "int list list \<Rightarrow> int \<Rightarrow> int \<Rightarrow> int result" where
  "latency_at M core ch =
     bindr (of_opt Out_Of_Bounds (vec_at M core)) (\<lambda>row. of_opt Out_Of_Bounds (vec_at row ch))"

text \<open>The read that is finished, with its callback called if it has one.\<close>

definition serve_completed_reads ::
  "int list list \<Rightarrow> GenericDRAMController \<Rightarrow> (GenericDRAMController \<times> Request option) result" where
  "serve_completed_reads M c =
     (case pending c of
        [] \<Rightarrow> Inr (c, None)
      | req # rest \<Rightarrow>
          if depart req \<le> c_clk c
          then bindr
                 (if depart req - arrive req > 1
                  then bindr (of_opt Out_Of_Bounds (vec_at (addr_vec req) 0)) (\<lambda>ch.
                       bindr (latency_at M (source_id req) ch) (\<lambda>l. Inr (depart req - arrive req + 2 * l)))
                  else Inr 0)
                 (\<lambda>l. Inr (c\<lparr>pending := rest,
                            c_queues := (c_queues c)\<lparr>s_read_latency := s_read_latency (c_queues c) + l\<rparr>\<rparr>, Some req))
          else Inr (c, None))"


section \<open>Choosing a request\<close>

definition set_write_mode :: "GenericDRAMController \<Rightarrow> GenericDRAMController" where
  "set_write_mode c =
     (let writes = of_nat (buf_size (m_write_buffer c)); cap = of_nat (max_size (m_write_buffer c))
      in if \<not> m_is_write_mode c
         then (if m_wr_high_watermark c * cap < writes \<or> buf_size (m_read_buffer c) = 0 then c\<lparr>m_is_write_mode := True\<rparr> else c)
         else (if writes < m_wr_low_watermark c * cap \<and> buf_size (m_read_buffer c) \<noteq> 0 then c\<lparr>m_is_write_mode := False\<rparr> else c))"

datatype buf_id = Active | Priority | Reads | Writes

fun get_buf :: "buf_id \<Rightarrow> GenericDRAMController \<Rightarrow> ReqBuffer" where
  "get_buf Active c = m_active_buffer c"
| "get_buf Priority c = m_priority_buffer c"
| "get_buf Reads c = m_read_buffer c"
| "get_buf Writes c = m_write_buffer c"

fun set_buf :: "buf_id \<Rightarrow> ReqBuffer \<Rightarrow> GenericDRAMController \<Rightarrow> GenericDRAMController" where
  "set_buf Active b c = c\<lparr>m_active_buffer := b\<rparr>"
| "set_buf Priority b c = c\<lparr>m_priority_buffer := b\<rparr>"
| "set_buf Reads b c = c\<lparr>m_read_buffer := b\<rparr>"
| "set_buf Writes b c = c\<lparr>m_write_buffer := b\<rparr>"

definition request_at :: "GenericDRAMController \<Rightarrow> buf_id \<times> nat \<Rightarrow> Request" where
  "request_at c it = buffer (get_buf (fst it) c) ! snd it"

definition set_request :: "buf_id \<times> nat \<Rightarrow> Request \<Rightarrow> GenericDRAMController \<Rightarrow> GenericDRAMController" where
  "set_request it req c =
     (let b = get_buf (fst it) c in set_buf (fst it) (b\<lparr>buffer := (buffer b)[snd it := req]\<rparr>) c)"

definition remove_request :: "buf_id \<times> nat \<Rightarrow> GenericDRAMController \<Rightarrow> GenericDRAMController" where
  "remove_request it c = set_buf (fst it) (buf_remove (get_buf (fst it) c) (snd it)) c"

definition ready_request :: "'d IDRAM \<Rightarrow> 'd \<Rightarrow> GenericDRAMController \<Rightarrow> buf_id \<times> nat \<Rightarrow> bool result" where
  "ready_request I d c it = i_check_ready I (command (request_at c it)) (addr_vec (request_at c it)) d"

text \<open>The scheduler's choice in a buffer, if it is ready.\<close>

definition schedule_from ::
  "'d IDRAM \<Rightarrow> 'd \<Rightarrow> buf_id \<Rightarrow> GenericDRAMController \<Rightarrow> (GenericDRAMController \<times> (buf_id \<times> nat) option) result" where
  "schedule_from I d bi c0 =
     bindr (FRFCFS_get_best_request I d (get_buf bi c0)) (\<lambda>(b, it).
       let c = set_buf bi b c0
       in case it of
            None \<Rightarrow> Inr (c, None)
          | Some i \<Rightarrow> bindr (ready_request I d c (bi, i)) (\<lambda>ready. Inr (c, if ready then Some (bi, i) else None)))"

definition schedule_priority ::
  "'d IDRAM \<Rightarrow> 'd \<Rightarrow> GenericDRAMController \<Rightarrow> (GenericDRAMController \<times> (buf_id \<times> nat) option) result" where
  "schedule_priority I d c0 =
     bindr (update_command I d (request_at c0 (Priority, 0))) (\<lambda>req.
       let c = set_request (Priority, 0) req c0
       in bindr (ready_request I d c (Priority, 0)) (\<lambda>ready. Inr (c, if ready then Some (Priority, 0) else None)))"

definition choose_request ::
  "'d IDRAM \<Rightarrow> 'd \<Rightarrow> GenericDRAMController \<Rightarrow> (GenericDRAMController \<times> (buf_id \<times> nat) option) result" where
  "choose_request I d c0 =
     bindr (schedule_from I d Active c0) (\<lambda>(c, found).
       if found \<noteq> None then Inr (c, found)
       else if buf_size (m_priority_buffer c) \<noteq> 0 then schedule_priority I d c
       else
         let c' = set_write_mode c
         in schedule_from I d (if m_is_write_mode c' then Writes else Reads) c')"

text \<open>Whether two addresses agree down to the bank, where \<open>-1\<close> stands for all nodes of a level.\<close>

definition rowgroup_matches :: "int \<Rightarrow> int list \<Rightarrow> int list \<Rightarrow> bool result" where
  "rowgroup_matches bank_idx a b =
     all_result (\<lambda>i. bindr (of_opt Out_Of_Bounds (vec_at a (int i))) (\<lambda>x.
                     bindr (of_opt Out_Of_Bounds (vec_at b (int i))) (\<lambda>y. Inr (x = y \<or> x = -1 \<or> y = -1))))
       [0..<nat (bank_idx + 1)]"

fun closes_active :: "int \<Rightarrow> Request list \<Rightarrow> int list \<Rightarrow> bool result" where
  "closes_active bank_idx [] rowgroup = Inr False"
| "closes_active bank_idx (req # reqs) rowgroup =
     bindr (rowgroup_matches bank_idx (addr_vec req) rowgroup) (\<lambda>matching.
       if matching then Inr True else closes_active bank_idx reqs rowgroup)"

definition schedule_request ::
  "'d IDRAM \<Rightarrow> 'd \<Rightarrow> GenericDRAMController \<Rightarrow> (GenericDRAMController \<times> (buf_id \<times> nat) option) result" where
  "schedule_request I d c0 =
     bindr (choose_request I d c0) (\<lambda>(c, found).
       case found of
         None \<Rightarrow> Inr (c, None)
       | Some it \<Rightarrow>
           bindr (meta_of I (command (request_at c it))) (\<lambda>m.
             if is_closing m
             then bindr (closes_active (m_bank_addr_idx c) (buffer (m_active_buffer c)) (addr_vec (request_at c it))) (\<lambda>closes.
                    Inr (c, if closes then None else Some it))
             else Inr (c, Some it)))"


section \<open>Serving a request\<close>

definition bump :: "int \<Rightarrow> nat list \<Rightarrow> nat list result" where
  "bump i xs =
     (if i = -1 then Inr xs
      else if 0 \<le> i \<and> nat i < length xs then Inr (xs[nat i := xs ! nat i + 1]) else Inl Out_Of_Bounds)"

definition count_row :: "bool \<Rightarrow> bool \<Rightarrow> Request \<Rightarrow> row_stats \<Rightarrow> row_stats result" where
  "count_row hit opn req st =
     (if type_id req = Type_Read
      then (if hit then bindr (bump (source_id req) (s_read_row_hits_per_core st)) (\<lambda>v.
                Inr (st\<lparr>s_read_row_hits := s_read_row_hits st + 1, s_row_hits := s_row_hits st + 1,
                        s_read_row_hits_per_core := v\<rparr>))
            else if opn then bindr (bump (source_id req) (s_read_row_conflicts_per_core st)) (\<lambda>v.
                Inr (st\<lparr>s_read_row_conflicts := s_read_row_conflicts st + 1, s_row_conflicts := s_row_conflicts st + 1,
                        s_read_row_conflicts_per_core := v\<rparr>))
            else bindr (bump (source_id req) (s_read_row_misses_per_core st)) (\<lambda>v.
                Inr (st\<lparr>s_read_row_misses := s_read_row_misses st + 1, s_row_misses := s_row_misses st + 1,
                        s_read_row_misses_per_core := v\<rparr>)))
      else if type_id req = Type_Write
      then Inr (if hit then st\<lparr>s_write_row_hits := s_write_row_hits st + 1, s_row_hits := s_row_hits st + 1\<rparr>
                else if opn then st\<lparr>s_write_row_conflicts := s_write_row_conflicts st + 1, s_row_conflicts := s_row_conflicts st + 1\<rparr>
                else st\<lparr>s_write_row_misses := s_write_row_misses st + 1, s_row_misses := s_row_misses st + 1\<rparr>)
      else Inr st)"

definition is_row_hit :: "'d IDRAM \<Rightarrow> 'd \<Rightarrow> Request \<Rightarrow> bool result" where
  "is_row_hit I d req = i_check_rowbuffer_hit I (final_command req) (addr_vec req) d"

definition is_row_open :: "'d IDRAM \<Rightarrow> 'd \<Rightarrow> Request \<Rightarrow> bool result" where
  "is_row_open I d req = i_check_node_open I (final_command req) (addr_vec req) d"

definition update_request_stats ::
  "'d IDRAM \<Rightarrow> 'd \<Rightarrow> buf_id \<times> nat \<Rightarrow> GenericDRAMController \<Rightarrow> GenericDRAMController result" where
  "update_request_stats I d it c0 =
     (let req = (request_at c0 it)\<lparr>is_stat_updated := True\<rparr>;
          c = set_request it req c0
      in if type_id req = Type_Read \<or> type_id req = Type_Write
         then bindr (is_row_hit I d req) (\<lambda>hit.
              bindr (if hit then Inr False else is_row_open I d req) (\<lambda>opn.
              bindr (count_row hit opn req (c_rows c)) (\<lambda>st. Inr (c\<lparr>c_rows := st\<rparr>))))
         else Inr c)"

definition serve_request ::
  "'d IDRAM \<Rightarrow> buf_id \<times> nat \<Rightarrow> GenericDRAMController \<Rightarrow> 'd \<Rightarrow> (GenericDRAMController \<times> 'd) result" where
  "serve_request I it c0 d0 =
     bindr (if is_stat_updated (request_at c0 it) then Inr c0 else update_request_stats I d0 it c0) (\<lambda>c.
       let req = request_at c it
       in bindr (i_issue_command I (command req) (addr_vec req) d0) (\<lambda>d.
            if command req = final_command req
            then
              let req' = req\<lparr>depart := c_clk c + i_read_latency I d\<rparr>;
                  c1 = (if type_id req = Type_Read then (set_request it req' c)\<lparr>pending := pending c @ [req']\<rparr> else c)
              in Inr (remove_request it c1, d)
            else
              bindr (meta_of I (command req)) (\<lambda>m.
                if is_opening m
                then Inr (remove_request it (c\<lparr>m_active_buffer := snd (enqueue (m_active_buffer c) req)\<rparr>), d)
                else Inr (c, d))))"


section \<open>A cycle\<close>

definition count_queues :: "GenericDRAMController \<Rightarrow> queue_stats \<Rightarrow> queue_stats" where
  "count_queues c q =
     (let rd = buf_size (m_read_buffer c); wr = buf_size (m_write_buffer c);
          pr = buf_size (m_priority_buffer c); pe = length (pending c)
      in q\<lparr>s_queue_len := s_queue_len q + (rd + wr + pr + pe), s_read_queue_len := s_read_queue_len q + (rd + pe),
           s_write_queue_len := s_write_queue_len q + wr, s_priority_queue_len := s_priority_queue_len q + pr\<rparr>)"

definition controller_tick ::
  "int list list \<Rightarrow> 'd IDRAM \<Rightarrow> GenericDRAMController \<Rightarrow> 'd \<Rightarrow> (GenericDRAMController \<times> 'd \<times> Request option) result" where
  "controller_tick M I c0 d =
     (let c1 = c0\<lparr>c_clk := c_clk c0 + 1, c_queues := count_queues c0 (c_queues c0)\<rparr>
      in bindr (serve_completed_reads M c1) (\<lambda>(c2, served).
         bindr (AllBankRefresh_tick I (m_channel_id c2) (m_refresh c2) (m_priority_buffer c2)) (\<lambda>(rf, pb).
         bindr (schedule_request I d (c2\<lparr>m_refresh := rf, m_priority_buffer := pb\<rparr>)) (\<lambda>(c3, it).
           let found = map_option (request_at c3) it
           in bindr (rowpolicy_update I found (m_rowpolicy c3) (m_priority_buffer c3)) (\<lambda>(pol, pb1).
              bindr (update_plugins I d found (m_plugins c3) pb1) (\<lambda>(pls, pb2).
                let c4 = c3\<lparr>m_rowpolicy := pol, m_plugins := pls, m_priority_buffer := pb2\<rparr>
                in case it of
                     None \<Rightarrow> Inr (c4, d, served)
                   | Some i \<Rightarrow> bindr (serve_request I i c4 d) (\<lambda>(c5, d'). Inr (c5, d', served))))))))"


section \<open>The end of a simulation\<close>

text \<open>
  The global totals and the averages. A quotient by zero is not a number and stands as \<open>None\<close>.
\<close>

record globals =
  overall_latency :: int
  overall_request :: nat

record averages =
  s_avg_read_latency :: "rat option"
  s_queue_len_avg :: "rat option"
  s_read_queue_len_avg :: "rat option"
  s_write_queue_len_avg :: "rat option"
  s_priority_queue_len_avg :: "rat option"

definition quotient :: "int \<Rightarrow> int \<Rightarrow> rat option" where
  "quotient a b = (if b = 0 then None else Some (of_int a / of_int b))"

definition controller_finalize :: "GenericDRAMController \<Rightarrow> globals \<Rightarrow> globals \<times> averages" where
  "controller_finalize c g =
     (let q = c_queues c
      in (g\<lparr>overall_latency := overall_latency g + s_read_latency q,
            overall_request := overall_request g + s_num_read_reqs q\<rparr>,
          \<lparr>s_avg_read_latency = quotient (s_read_latency q) (int (s_num_read_reqs q)),
           s_queue_len_avg = quotient (int (s_queue_len q)) (c_clk c),
           s_read_queue_len_avg = quotient (int (s_read_queue_len q)) (c_clk c),
           s_write_queue_len_avg = quotient (int (s_write_queue_len q)) (c_clk c),
           s_priority_queue_len_avg = quotient (int (s_priority_queue_len q)) (c_clk c)\<rparr>))"

end
