(* ===== verification/Memory_System.thy ===== *)
theory Memory_System
  imports Controller
begin

text \<open>
  The memory systems \<^verbatim>\<open>GenericDRAMSystem\<close> and \<^verbatim>\<open>CustomDRAMSystem\<close>: one device, one controller per
  channel, and the address mapper, given as the function \<^verbatim>\<open>IAddrMapper::apply\<close> computes. The
  custom system keeps the globals \<^verbatim>\<open>top_cache\<close> and \<^verbatim>\<open>total_cache_req\<close> of \<^verbatim>\<open>base/utils.h\<close>.
\<close>

section \<open>GenericDRAMSystem\<close>

record 'd GenericDRAMSystem =
  sys_clk :: int
  sys_dram :: 'd
  sys_controllers :: "GenericDRAMController list"
  s_num_read_requests :: nat
  s_num_write_requests :: nat
  s_num_other_requests :: nat

text \<open>
  \<^verbatim>\<open>init\<close> and \<^verbatim>\<open>setup\<close>: a controller per channel of the device, all with the same configuration.
\<close>

definition system_init ::
  "'d IDRAM \<Rightarrow> 'd \<Rightarrow> rat option \<Rightarrow> rat option \<Rightarrow> rowpolicy \<Rightarrow> plugin list \<Rightarrow> nat \<Rightarrow> 'd GenericDRAMSystem result" where
  "system_init I d low high policy plugins cores =
     bindr (get_level_size I d ''channel'') (\<lambda>num_channels.
     bindr (map_result (\<lambda>i. controller_setup I d (int i) low high policy plugins cores) [0..<nat num_channels]) (\<lambda>cs.
       Inr \<lparr>sys_clk = 0, sys_dram = d, sys_controllers = cs,
            s_num_read_requests = 0, s_num_write_requests = 0, s_num_other_requests = 0\<rparr>))"

definition count_accepted :: "int \<Rightarrow> ('d, 'z) GenericDRAMSystem_scheme \<Rightarrow> ('d, 'z) GenericDRAMSystem_scheme" where
  "count_accepted type s =
     (if type = Type_Read then s\<lparr>s_num_read_requests := s_num_read_requests s + 1\<rparr>
      else if type = Type_Write then s\<lparr>s_num_write_requests := s_num_write_requests s + 1\<rparr>
      else s\<lparr>s_num_other_requests := s_num_other_requests s + 1\<rparr>)"

definition system_send ::
  "'d IDRAM \<Rightarrow> (Request \<Rightarrow> Request result) \<Rightarrow> Request \<Rightarrow> ('d, 'z) GenericDRAMSystem_scheme \<Rightarrow> (bool \<times> ('d, 'z) GenericDRAMSystem_scheme) result" where
  "system_send I mapper req0 s =
     bindr (mapper req0) (\<lambda>req.
     bindr (of_opt Out_Of_Bounds (vec_at (addr_vec req) 0)) (\<lambda>channel_id.
     bindr (of_opt Out_Of_Bounds (vec_at (sys_controllers s) channel_id)) (\<lambda>c.
     bindr (controller_send I req c) (\<lambda>(is_success, req', c').
       let s' = s\<lparr>sys_controllers := (sys_controllers s)[nat channel_id := c']\<rparr>
       in Inr (is_success, if is_success then count_accepted (type_id req') s' else s')))))"

fun tick_controllers ::
  "int list list \<Rightarrow> 'd IDRAM \<Rightarrow> GenericDRAMController list \<Rightarrow> 'd \<Rightarrow> (GenericDRAMController list \<times> 'd \<times> Request list) result" where
  "tick_controllers M I [] d = Inr ([], d, [])"
| "tick_controllers M I (c # cs) d =
     bindr (controller_tick M I c d) (\<lambda>(c', d1, served).
     bindr (tick_controllers M I cs d1) (\<lambda>(cs', d2, rest).
       Inr (c' # cs', d2, (case served of None \<Rightarrow> rest | Some req \<Rightarrow> req # rest))))"

text \<open>A cycle also returns the reads that were finished, in the order of their callbacks.\<close>

definition system_tick ::
  "int list list \<Rightarrow> 'd IDRAM \<Rightarrow> ('d, 'z) GenericDRAMSystem_scheme \<Rightarrow> (('d, 'z) GenericDRAMSystem_scheme \<times> Request list) result" where
  "system_tick M I s =
     bindr (i_tick I (sys_dram s)) (\<lambda>d.
     bindr (tick_controllers M I (sys_controllers s) d) (\<lambda>(cs, d', served).
       Inr (s\<lparr>sys_clk := sys_clk s + 1, sys_dram := d', sys_controllers := cs\<rparr>, served)))"

definition get_tCK :: "'d IDRAM \<Rightarrow> ('d, 'z) GenericDRAMSystem_scheme \<Rightarrow> rat result" where
  "get_tCK I s = bindr (i_timing_val I ''tCK_ps'' (sys_dram s)) (\<lambda>t. Inr (of_int t / 1000))"


section \<open>CustomDRAMSystem\<close>

record 'd CustomDRAMSystem = "'d GenericDRAMSystem" +
  vpn_access_counts :: "int \<rightharpoonup> nat"
  top_cache :: "int list"
  total_cache_req :: nat

definition is_in_top_cache :: "int \<Rightarrow> 'd CustomDRAMSystem \<Rightarrow> bool" where
  "is_in_top_cache vpn s \<longleftrightarrow> (\<exists>p \<in> set (top_cache s). p = vpn)"

text \<open>The loop that finds the cached page with the fewest accesses, starting from the largest \<^verbatim>\<open>size_t\<close>.\<close>

fun least_accessed :: "(int \<rightharpoonup> nat) \<Rightarrow> nat \<Rightarrow> int list \<Rightarrow> nat \<times> nat \<Rightarrow> nat \<times> nat" where
  "least_accessed counts i [] (min_index, min_count) = (min_index, min_count)"
| "least_accessed counts i (p # ps) (min_index, min_count) =
     least_accessed counts (Suc i) ps
       (if override (counts p) 0 < min_count then (i, override (counts p) 0) else (min_index, min_count))"

definition update_top_cache :: "int \<Rightarrow> nat \<Rightarrow> 'd CustomDRAMSystem \<Rightarrow> 'd CustomDRAMSystem" where
  "update_top_cache vpn total_count s =
     (if is_in_top_cache vpn s then s
      else if length (top_cache s) < 4 then s\<lparr>top_cache := top_cache s @ [vpn]\<rparr>
      else
        let (min_index, min_count) = least_accessed (vpn_access_counts s) 0 (top_cache s) (0, 2 ^ 64 - 1)
        in if min_count < total_count then s\<lparr>top_cache := (top_cache s)[min_index := vpn]\<rparr> else s)"

definition custom_send ::
  "'d IDRAM \<Rightarrow> (Request \<Rightarrow> Request result) \<Rightarrow> Request \<Rightarrow> 'd CustomDRAMSystem \<Rightarrow> (bool \<times> 'd CustomDRAMSystem) result" where
  "custom_send I mapper req s0 =
     (let vpn = drop_bit 12 (v_addr req);
          n = override (vpn_access_counts s0 vpn) 0 + 1;
          s = s0\<lparr>vpn_access_counts := (vpn_access_counts s0)(vpn \<mapsto> n)\<rparr>
      in if is_in_top_cache vpn s
         then Inr (False, count_accepted (type_id req) (s\<lparr>total_cache_req := total_cache_req s + 1\<rparr>))
         else system_send I mapper req (update_top_cache vpn n s))"

definition custom_tick ::
  "int list list \<Rightarrow> 'd IDRAM \<Rightarrow> 'd CustomDRAMSystem \<Rightarrow> ('d CustomDRAMSystem \<times> Request list) result" where
  "custom_tick M I s = system_tick M I s"

end
