(* ===== verification/Traces.thy ===== *)
theory Traces
  imports Memory_System
begin

text \<open>
  The trace frontends: \<^verbatim>\<open>custom_trace.cpp\<close>, \<^verbatim>\<open>new.cpp\<close>, \<^verbatim>\<open>loadstore_trace.cpp\<close>,
  \<^verbatim>\<open>readwrite_trace.cpp\<close>, and the simulation loop of \<^verbatim>\<open>main.cpp\<close>. A trace file is the list of
  its lines, or \<open>None\<close> when it does not exist or cannot be opened. The translation and the
  memory system a frontend calls are arguments of its cycle: \<open>translate\<close> is
  \<^verbatim>\<open>ITranslation::translate\<close>, \<open>send\<close> is \<^verbatim>\<open>IMemorySystem::send\<close>, each over its own state.
\<close>

type_synonym 't translate_op = "Request \<Rightarrow> 't \<Rightarrow> (bool \<times> Request \<times> 't) result"
type_synonym 'm send_op = "Request \<Rightarrow> 'm \<Rightarrow> (bool \<times> 'm) result"

section \<open>Reading traces\<close>

definition read_trace :: "(string \<Rightarrow> 'e result) \<Rightarrow> string list option \<Rightarrow> 'e list result" where
  "read_trace parse file = (case file of None \<Rightarrow> Inl Configuration_Error | Some lines \<Rightarrow> map_result parse lines)"

text \<open>The access type is the token for a read or the token for a write.\<close>

definition parse_kind :: "string \<Rightarrow> string \<Rightarrow> string \<Rightarrow> bool result" where
  "parse_kind rd wr tok = (if tok = rd then Inr False else if tok = wr then Inr True else Inl Configuration_Error)"

text \<open>A conversion whose exceptions are caught and turned into a configuration error.\<close>

definition or_config_error :: "'a result \<Rightarrow> 'a result" where
  "or_config_error x = (case x of Inl _ \<Rightarrow> Inl Configuration_Error | Inr v \<Rightarrow> Inr v)"

definition request_type :: "bool \<Rightarrow> int" where
  "request_type is_write = (if is_write then Type_Write else Type_Read)"


section \<open>CustomTrace\<close>

record custom_entry =
  ce_is_write :: bool
  ce_addr :: int
  ce_source_id :: int

record 't CustomTrace =
  ct_trace :: "custom_entry list"
  ct_trace_length :: nat
  ct_curr_trace_idx :: nat
  ct_translation :: 't
  vpn_access_count :: "int \<rightharpoonup> nat"

definition custom_line :: "string \<Rightarrow> custom_entry result" where
  "custom_line line =
     bindr (tokenize line '' '') (\<lambda>tokens.
       if length tokens \<noteq> 3 then Inl Configuration_Error
       else bindr (parse_kind ''R'' ''W'' (tokens ! 0)) (\<lambda>w.
            bindr (stoll (tokens ! 1)) (\<lambda>a.
            bindr (stoi (tokens ! 2)) (\<lambda>src.
              Inr \<lparr>ce_is_write = w, ce_addr = a, ce_source_id = src\<rparr>))))"

definition CustomTrace_init :: "string list option \<Rightarrow> 't \<Rightarrow> 't CustomTrace result" where
  "CustomTrace_init file translation =
     bindr (read_trace custom_line file) (\<lambda>es.
       Inr \<lparr>ct_trace = es, ct_trace_length = length es, ct_curr_trace_idx = 0, ct_translation = translation,
            vpn_access_count = Map.empty\<rparr>)"

definition custom_request :: "custom_entry \<Rightarrow> Request" where
  "custom_request t = Request_core (ce_addr t) (request_type (ce_is_write t)) (ce_source_id t)"

definition count_vpn :: "int \<Rightarrow> (int \<rightharpoonup> nat) \<Rightarrow> (int \<rightharpoonup> nat)" where
  "count_vpn a counts = counts(drop_bit 12 a \<mapsto> override (counts (drop_bit 12 a)) 0 + 1)"

definition CustomTrace_tick ::
  "'t translate_op \<Rightarrow> 'm send_op \<Rightarrow> 't CustomTrace \<Rightarrow> 'm \<Rightarrow> ('t CustomTrace \<times> 'm) result" where
  "CustomTrace_tick translate send f0 m =
     bindr (of_opt Out_Of_Bounds (vec_at (ct_trace f0) (int (ct_curr_trace_idx f0)))) (\<lambda>t.
       let req = custom_request t;
           f1 = f0\<lparr>vpn_access_count := count_vpn (addr req) (vpn_access_count f0)\<rparr>
       in bindr (translate req (ct_translation f1)) (\<lambda>(ok, req', tr).
            let f = f1\<lparr>ct_translation := tr\<rparr>
            in if \<not> ok then Inr (f\<lparr>ct_curr_trace_idx := ct_curr_trace_idx f + 1\<rparr>, m)
               else bindr (send req' m) (\<lambda>(sent, m').
                      Inr (if sent then f\<lparr>ct_curr_trace_idx := ct_curr_trace_idx f + 1\<rparr> else f, m'))))"

definition CustomTrace_is_finished :: "'t CustomTrace \<Rightarrow> bool" where
  "CustomTrace_is_finished f \<longleftrightarrow> length (ct_trace f) \<le> ct_curr_trace_idx f"


section \<open>CustomTrace2\<close>

record custom_entry2 = custom_entry +
  ce_clk :: nat

record 't CustomTrace2 =
  c2_trace :: "custom_entry2 list"
  c2_trace_length :: nat
  c2_curr_trace_idx :: nat
  c2_translation :: 't
  c2_clk :: nat
  c2_vpn_access_count :: "int \<rightharpoonup> nat"

definition custom_line2 :: "string \<Rightarrow> custom_entry2 result" where
  "custom_line2 line =
     bindr (tokenize line '' '') (\<lambda>tokens.
       if length tokens \<noteq> 4 then Inl Configuration_Error
       else bindr (or_config_error (stoull (tokens ! 0))) (\<lambda>clk.
            bindr (parse_kind ''R'' ''W'' (tokens ! 1)) (\<lambda>w.
            bindr (or_config_error (stoll (tokens ! 2))) (\<lambda>a.
            bindr (or_config_error (stoi (tokens ! 3))) (\<lambda>src.
              Inr \<lparr>ce_is_write = w, ce_addr = a, ce_source_id = src, ce_clk = clk\<rparr>)))))"

definition CustomTrace2_init :: "string list option \<Rightarrow> 't \<Rightarrow> 't CustomTrace2 result" where
  "CustomTrace2_init file translation =
     bindr (read_trace custom_line2 file) (\<lambda>es.
       Inr \<lparr>c2_trace = es, c2_trace_length = length es, c2_curr_trace_idx = 0, c2_translation = translation,
            c2_clk = 0, c2_vpn_access_count = Map.empty\<rparr>)"

definition custom_request2 :: "custom_entry2 \<Rightarrow> Request" where
  "custom_request2 t = Request_core (ce_addr t) (request_type (ce_is_write t)) (ce_source_id t)"

text \<open>After a request was accepted the clock stays if the next entry is for the same cycle.\<close>

definition CustomTrace2_advance :: "'t CustomTrace2 \<Rightarrow> 't CustomTrace2" where
  "CustomTrace2_advance f0 =
     (let f = f0\<lparr>c2_curr_trace_idx := c2_curr_trace_idx f0 + 1\<rparr>
      in if c2_curr_trace_idx f < length (c2_trace f) \<and> ce_clk (c2_trace f ! c2_curr_trace_idx f) = c2_clk f
         then f else f\<lparr>c2_clk := c2_clk f + 1\<rparr>)"

definition CustomTrace2_tick ::
  "'t translate_op \<Rightarrow> 'm send_op \<Rightarrow> 't CustomTrace2 \<Rightarrow> 'm \<Rightarrow> ('t CustomTrace2 \<times> 'm) result" where
  "CustomTrace2_tick translate send f0 m =
     bindr (of_opt Out_Of_Bounds (vec_at (c2_trace f0) (int (c2_curr_trace_idx f0)))) (\<lambda>t.
       if ce_clk t < c2_clk f0 then Inr (f0\<lparr>c2_clk := c2_clk f0 + 1\<rparr>, m)
       else
         let req = custom_request2 t;
             f1 = f0\<lparr>c2_vpn_access_count := count_vpn (addr req) (c2_vpn_access_count f0)\<rparr>
         in bindr (translate req (c2_translation f1)) (\<lambda>(ok, req', tr).
              let f = f1\<lparr>c2_translation := tr\<rparr>
              in if \<not> ok then Inr (f\<lparr>c2_curr_trace_idx := c2_curr_trace_idx f + 1\<rparr>, m)
                 else bindr (send req' m) (\<lambda>(sent, m').
                        Inr (if sent then CustomTrace2_advance f else f, m'))))"

definition CustomTrace2_is_finished :: "'t CustomTrace2 \<Rightarrow> bool" where
  "CustomTrace2_is_finished f \<longleftrightarrow> length (c2_trace f) \<le> c2_curr_trace_idx f"


section \<open>LoadStoreTrace\<close>

definition is_hex_digit :: "char \<Rightarrow> bool" where
  "is_hex_digit c \<longleftrightarrow> is_digit c \<or> (97 \<le> (of_char c :: nat) \<and> (of_char c :: nat) \<le> 102) \<or> (65 \<le> (of_char c :: nat) \<and> (of_char c :: nat) \<le> 70)"

definition hex_digit_value :: "char \<Rightarrow> nat" where
  "hex_digit_value c = (if is_digit c then of_char c - 48 else if 97 \<le> (of_char c :: nat) then of_char c - 87 else of_char c - 55)"

definition hex_value :: "string \<Rightarrow> nat" where
  "hex_value ds = foldl (\<lambda>acc c. acc * 16 + hex_digit_value c) 0 ds"

text \<open>\<^verbatim>\<open>std::stoll(s, nullptr, 16)\<close>: white space, sign, an optional \<^verbatim>\<open>0x\<close>, hexadecimal digits.\<close>

definition stoll_hex :: "string \<Rightarrow> int result" where
  "stoll_hex s =
     (let t = dropWhile is_space s;
          neg = (t \<noteq> [] \<and> hd t = CHR ''-'');
          u = (if t \<noteq> [] \<and> (hd t = CHR ''-'' \<or> hd t = CHR ''+'') then tl t else t);
          v = (if take 2 u \<in> {''0x'', ''0X''} \<and> 2 < length u \<and> is_hex_digit (u ! 2) then drop 2 u else u);
          ds = takeWhile is_hex_digit v;
          i = (if neg then - int (hex_value ds) else int (hex_value ds))
      in if ds = [] then Inl Invalid_Argument
         else if - (2 ^ 63) \<le> i \<and> i < 2 ^ 63 then Inr i else Inl Out_Of_Range)"

record load_store =
  ls_is_write :: bool
  ls_addr :: int

record LoadStoreTrace =
  ls_trace :: "load_store list"
  ls_trace_length :: nat
  ls_curr_trace_idx :: nat
  ls_trace_count :: nat

definition load_store_line :: "string \<Rightarrow> load_store result" where
  "load_store_line line =
     bindr (tokenize line '' '') (\<lambda>tokens.
       if length tokens \<noteq> 2 then Inl Configuration_Error
       else bindr (parse_kind ''LD'' ''ST'' (tokens ! 0)) (\<lambda>w.
            bindr (if take 2 (tokens ! 1) \<in> {''0x'', ''0X''} then stoll_hex (drop 2 (tokens ! 1)) else stoll (tokens ! 1)) (\<lambda>a.
              Inr \<lparr>ls_is_write = w, ls_addr = a\<rparr>)))"

definition LoadStoreTrace_init :: "string list option \<Rightarrow> LoadStoreTrace result" where
  "LoadStoreTrace_init file =
     bindr (read_trace load_store_line file) (\<lambda>es.
       Inr \<lparr>ls_trace = es, ls_trace_length = length es, ls_curr_trace_idx = 0, ls_trace_count = 0\<rparr>)"

definition LoadStoreTrace_tick :: "'m send_op \<Rightarrow> LoadStoreTrace \<Rightarrow> 'm \<Rightarrow> (LoadStoreTrace \<times> 'm) result" where
  "LoadStoreTrace_tick send f m =
     bindr (of_opt Out_Of_Bounds (vec_at (ls_trace f) (int (ls_curr_trace_idx f)))) (\<lambda>t.
     bindr (send (Request_addr (ls_addr t) (request_type (ls_is_write t))) m) (\<lambda>(sent, m').
       Inr (if sent
            then f\<lparr>ls_curr_trace_idx := (ls_curr_trace_idx f + 1) mod ls_trace_length f, ls_trace_count := ls_trace_count f + 1\<rparr>
            else f, m')))"

definition LoadStoreTrace_is_finished :: "LoadStoreTrace \<Rightarrow> bool" where
  "LoadStoreTrace_is_finished f \<longleftrightarrow> ls_trace_length f \<le> ls_trace_count f"


section \<open>ReadWriteTrace\<close>

record read_write =
  rw_is_write :: bool
  rw_addr_vec :: "int list"

record ReadWriteTrace =
  rw_trace :: "read_write list"
  rw_trace_length :: nat
  rw_curr_trace_idx :: nat

text \<open>A component of the address vector is an \<^verbatim>\<open>int\<close>, to which the number read is converted.\<close>

definition to_int32 :: "int \<Rightarrow> int" where
  "to_int32 i = signed_take_bit 31 i"

definition read_write_line :: "string \<Rightarrow> read_write result" where
  "read_write_line line =
     bindr (tokenize line '' '') (\<lambda>tokens.
       if length tokens \<noteq> 2 then Inl Configuration_Error
       else bindr (parse_kind ''R'' ''W'' (tokens ! 0)) (\<lambda>w.
            bindr (tokenize (tokens ! 1) '','') (\<lambda>addr_vec_tokens.
            bindr (map_result (\<lambda>tok. bindr (stoll tok) (\<lambda>i. Inr (to_int32 i))) addr_vec_tokens) (\<lambda>av.
              Inr \<lparr>rw_is_write = w, rw_addr_vec = av\<rparr>))))"

definition ReadWriteTrace_init :: "string list option \<Rightarrow> ReadWriteTrace result" where
  "ReadWriteTrace_init file =
     bindr (read_trace read_write_line file) (\<lambda>es.
       Inr \<lparr>rw_trace = es, rw_trace_length = length es, rw_curr_trace_idx = 0\<rparr>)"

definition ReadWriteTrace_tick :: "'m send_op \<Rightarrow> ReadWriteTrace \<Rightarrow> 'm \<Rightarrow> (ReadWriteTrace \<times> 'm) result" where
  "ReadWriteTrace_tick send f m =
     bindr (of_opt Out_Of_Bounds (vec_at (rw_trace f) (int (rw_curr_trace_idx f)))) (\<lambda>t.
     bindr (send (Request_vec (rw_addr_vec t) (request_type (rw_is_write t))) m) (\<lambda>(_, m').
       Inr (f\<lparr>rw_curr_trace_idx := (rw_curr_trace_idx f + 1) mod rw_trace_length f\<rparr>, m')))"

definition ReadWriteTrace_is_finished :: "ReadWriteTrace \<Rightarrow> bool" where
  "ReadWriteTrace_is_finished f = True"


section \<open>The simulation loop\<close>

text \<open>
  The loop of \<^verbatim>\<open>main\<close> over the state \<open>w\<close> of the frontend and the memory system, with the clock
  ratios of the two. An iteration returns the state and whether the loop ends.
\<close>

definition sim_step ::
  "('w \<Rightarrow> 'w result) \<Rightarrow> ('w \<Rightarrow> bool) \<Rightarrow> ('w \<Rightarrow> 'w result) \<Rightarrow> nat \<Rightarrow> nat \<Rightarrow> nat \<Rightarrow> 'w \<Rightarrow> (bool \<times> 'w) result" where
  "sim_step frontend_op is_finished memory_op frontend_tick mem_tick i w =
     (let tick_mult = frontend_tick * mem_tick
      in if tick_mult = 0 then Inl Div_By_Zero
         else
           bindr (if (i mod tick_mult) mod mem_tick = 0 then frontend_op w else Inr w) (\<lambda>w1.
             if is_finished w1 then Inr (True, w1)
             else bindr (if (i mod tick_mult) mod frontend_tick = 0 then memory_op w1 else Inr w1) (\<lambda>w2. Inr (False, w2))))"

partial_function (option) sim_loop ::
  "('w \<Rightarrow> 'w result) \<Rightarrow> ('w \<Rightarrow> bool) \<Rightarrow> ('w \<Rightarrow> 'w result) \<Rightarrow> nat \<Rightarrow> nat \<Rightarrow> nat \<Rightarrow> 'w \<Rightarrow> 'w result option" where
  "sim_loop frontend_op is_finished memory_op frontend_tick mem_tick i w =
     (case sim_step frontend_op is_finished memory_op frontend_tick mem_tick i w of
        Inl e \<Rightarrow> Some (Inl e)
      | Inr (finished, w') \<Rightarrow>
          if finished then Some (Inr w')
          else sim_loop frontend_op is_finished memory_op frontend_tick mem_tick (Suc i) w')"

end
