(* ===== verification/SimpleO3.thy ===== *)
theory SimpleO3
  imports Traces
begin

text \<open>
  The processor frontend \<^verbatim>\<open>SimpleO3\<close>: the instruction window, the cores, the last-level cache
  (which passes requests through) and the frontend. The translation and the memory system
  are shared by the cores, so their states are threaded through the cycle of each core. A
  request carries the number of the callback of the frontend.
\<close>

section \<open>The instruction trace of a core\<close>

record Inst =
  bubble_count :: int
  load_addr :: int
  store_addr :: int

record inst_trace =
  it_trace :: "Inst list"
  it_trace_length :: nat
  it_curr_trace_idx :: nat

text \<open>A bubble count that cannot be read counts as five.\<close>

definition inst_line :: "string \<Rightarrow> Inst result" where
  "inst_line line =
     bindr (tokenize line '' '') (\<lambda>tokens.
       if length tokens \<noteq> 2 \<and> length tokens \<noteq> 3 then Inl Configuration_Error
       else
         let bubbles = (case stoi (tokens ! 0) of Inl _ \<Rightarrow> 5 | Inr n \<Rightarrow> n)
         in bindr (stoll (tokens ! 1)) (\<lambda>ld.
            bindr (if length tokens = 2 then Inr (-1) else stoll (tokens ! 2)) (\<lambda>st.
              Inr \<lparr>bubble_count = bubbles, load_addr = ld, store_addr = st\<rparr>)))"

definition new_inst_trace :: "string list option \<Rightarrow> inst_trace result" where
  "new_inst_trace file =
     bindr (read_trace inst_line file) (\<lambda>is. Inr \<lparr>it_trace = is, it_trace_length = length is, it_curr_trace_idx = 0\<rparr>)"

definition get_next_inst :: "inst_trace \<Rightarrow> (Inst \<times> inst_trace) result" where
  "get_next_inst t =
     bindr (of_opt Out_Of_Bounds (vec_at (it_trace t) (int (it_curr_trace_idx t)))) (\<lambda>inst.
       Inr (inst, t\<lparr>it_curr_trace_idx := (it_curr_trace_idx t + 1) mod it_trace_length t\<rparr>))"


section \<open>The instruction window\<close>

record InstWindow =
  w_ipc :: int
  w_depth :: nat
  w_load :: nat
  w_head_idx :: nat
  w_tail_idx :: nat
  w_ready_list :: "bool list"
  w_addr_list :: "int list"

text \<open>A negative depth is not a length of a vector.\<close>

definition new_InstWindow :: "int \<Rightarrow> int \<Rightarrow> InstWindow result" where
  "new_InstWindow ipc depth =
     (if depth < 0 then Inl Runtime_Error
      else Inr \<lparr>w_ipc = ipc, w_depth = nat depth, w_load = 0, w_head_idx = 0, w_tail_idx = 0,
                w_ready_list = replicate (nat depth) False, w_addr_list = replicate (nat depth) (-1)\<rparr>)"

definition window_is_full :: "InstWindow \<Rightarrow> bool" where
  "window_is_full w \<longleftrightarrow> w_load w = w_depth w"

definition window_insert :: "bool \<Rightarrow> int \<Rightarrow> InstWindow \<Rightarrow> InstWindow result" where
  "window_insert ready a w =
     (if w_head_idx w < length (w_ready_list w) \<and> w_head_idx w < length (w_addr_list w)
      then Inr (w\<lparr>w_ready_list := (w_ready_list w)[w_head_idx w := ready],
                  w_addr_list := (w_addr_list w)[w_head_idx w := a],
                  w_head_idx := (w_head_idx w + 1) mod w_depth w, w_load := w_load w + 1\<rparr>)
      else Inl Out_Of_Range)"

function retire_loop :: "nat \<Rightarrow> InstWindow \<Rightarrow> (nat \<times> InstWindow) result" where
  "retire_loop num_retired w =
     (if 0 < w_load w \<and> int num_retired < w_ipc w
      then (case vec_at (w_ready_list w) (int (w_tail_idx w)) of
              None \<Rightarrow> Inl Out_Of_Range
            | Some ready \<Rightarrow>
                if \<not> ready then Inr (num_retired, w)
                else retire_loop (num_retired + 1)
                       (w\<lparr>w_tail_idx := (w_tail_idx w + 1) mod w_depth w, w_load := w_load w - 1\<rparr>))
      else Inr (num_retired, w))"
  by pat_completeness auto
termination
  by (relation "measure (\<lambda>(n, w). w_load w)") auto

declare retire_loop.simps [simp del]

definition window_retire :: "InstWindow \<Rightarrow> (nat \<times> InstWindow) result" where
  "window_retire w = (if w_load w = 0 then Inr (0, w) else retire_loop 0 w)"

fun set_ready_loop :: "int \<Rightarrow> nat \<Rightarrow> nat \<Rightarrow> InstWindow \<Rightarrow> InstWindow result" where
  "set_ready_loop a 0 index w = Inr w"
| "set_ready_loop a (Suc n) index w =
     bindr (of_opt Out_Of_Bounds (vec_at (w_addr_list w) (int index))) (\<lambda>b.
       let w' = (if b = a then w\<lparr>w_ready_list := (w_ready_list w)[index := True]\<rparr> else w)
       in set_ready_loop a n (if index + 1 = w_depth w then 0 else index + 1) w')"

definition window_set_ready :: "int \<Rightarrow> InstWindow \<Rightarrow> InstWindow result" where
  "window_set_ready a w = (if w_load w = 0 then Inr w else set_ready_loop a (w_load w) (w_tail_idx w) w)"


section \<open>The last-level cache\<close>

record SimpleO3LLC =
  llc_clk :: int
  llc_latency :: int
  llc_size_bytes :: nat
  llc_linesize_bytes :: nat
  llc_associativity :: int
  llc_set_size :: int
  llc_num_mshrs :: int
  llc_index_mask :: int
  llc_index_offset :: int
  llc_tag_offset :: int

text \<open>The sizes are converted to \<^verbatim>\<open>size_t\<close>. A logarithm that does not return is \<open>No_Return\<close>.\<close>

definition new_SimpleO3LLC :: "int \<Rightarrow> int \<Rightarrow> int \<Rightarrow> int \<Rightarrow> int \<Rightarrow> SimpleO3LLC result" where
  "new_SimpleO3LLC latency size_bytes linesize_bytes associativity num_mshrs =
     (let size = take_bit 64 size_bytes; line = take_bit 64 linesize_bytes; ways = take_bit 64 (line * associativity)
      in if ways = 0 then Inl Div_By_Zero
         else
           let set_size = to_int32 (size div ways)
           in bindr (of_opt No_Return (calc_log2 line)) (\<lambda>io.
              bindr (of_opt No_Return (calc_log2 set_size)) (\<lambda>so.
                Inr \<lparr>llc_clk = 0, llc_latency = latency, llc_size_bytes = nat size, llc_linesize_bytes = nat line,
                     llc_associativity = associativity, llc_set_size = set_size, llc_num_mshrs = num_mshrs,
                     llc_index_mask = set_size - 1, llc_index_offset = int io, llc_tag_offset = int (so + io)\<rparr>)))"

definition llc_tick :: "SimpleO3LLC \<Rightarrow> SimpleO3LLC" where
  "llc_tick l = l\<lparr>llc_clk := llc_clk l + 1\<rparr>"

definition llc_send :: "'m send_op \<Rightarrow> 'm send_op" where
  "llc_send send req m = send req m"


section \<open>The core\<close>

record SimpleO3Core =
  o3_id :: int
  o3_clk :: int
  o3_trace :: inst_trace
  o3_window :: InstWindow
  o3_num_bubbles :: int
  o3_load_addr :: int
  o3_writeback_addr :: int
  o3_num_expected_insts :: nat
  o3_last_mem_cycle :: int
  reached_expected_num_insts :: bool
  s_insts_retired :: nat
  s_cycles_recorded :: int
  s_mem_access_cycles :: int

definition fetch_inst :: "SimpleO3Core \<Rightarrow> SimpleO3Core result" where
  "fetch_inst c =
     bindr (get_next_inst (o3_trace c)) (\<lambda>(inst, t).
       Inr (c\<lparr>o3_trace := t, o3_num_bubbles := bubble_count inst, o3_load_addr := load_addr inst,
              o3_writeback_addr := store_addr inst\<rparr>))"

definition new_SimpleO3Core :: "int \<Rightarrow> int \<Rightarrow> int \<Rightarrow> nat \<Rightarrow> string list option \<Rightarrow> SimpleO3Core result" where
  "new_SimpleO3Core core_id ipc depth num_expected_insts file =
     bindr (new_inst_trace file) (\<lambda>t.
     bindr (new_InstWindow ipc depth) (\<lambda>w.
       fetch_inst \<lparr>o3_id = core_id, o3_clk = 0, o3_trace = t, o3_window = w, o3_num_bubbles = 0, o3_load_addr = -1,
                   o3_writeback_addr = -1, o3_num_expected_insts = num_expected_insts, o3_last_mem_cycle = 0,
                   reached_expected_num_insts = False, s_insts_retired = 0, s_cycles_recorded = 0, s_mem_access_cycles = 0\<rparr>))"

definition core_retire :: "SimpleO3Core \<Rightarrow> SimpleO3Core result" where
  "core_retire c0 =
     (let c = c0\<lparr>o3_clk := o3_clk c0 + 1\<rparr>
      in bindr (window_retire (o3_window c)) (\<lambda>(n, w).
           let c1 = c\<lparr>o3_window := w, s_insts_retired := s_insts_retired c + n\<rparr>
           in Inr (if \<not> reached_expected_num_insts c1 \<and> o3_num_expected_insts c1 \<le> s_insts_retired c1
                   then c1\<lparr>reached_expected_num_insts := True, s_cycles_recorded := o3_clk c1\<rparr> else c1)))"

text \<open>The loop over the bubbles returns the number of inserted instructions and whether the cycle goes on.\<close>

function insert_bubbles :: "nat \<Rightarrow> SimpleO3Core \<Rightarrow> (bool \<times> nat \<times> SimpleO3Core) result" where
  "insert_bubbles num_inserted_insts c =
     (if 0 < o3_num_bubbles c
      then
        if int num_inserted_insts = w_ipc (o3_window c) \<or> window_is_full (o3_window c) then Inr (False, num_inserted_insts, c)
        else (case window_insert True (-1) (o3_window c) of
                Inl e \<Rightarrow> Inl e
              | Inr w \<Rightarrow> insert_bubbles (num_inserted_insts + 1) (c\<lparr>o3_window := w, o3_num_bubbles := o3_num_bubbles c - 1\<rparr>))
      else Inr (True, num_inserted_insts, c))"
  by pat_completeness auto
termination
  by (relation "measure (\<lambda>(n, c). nat (o3_num_bubbles c))") auto

declare insert_bubbles.simps [simp del]

definition core_writeback ::
  "'t translate_op \<Rightarrow> 'm send_op \<Rightarrow> SimpleO3Core \<Rightarrow> 't \<Rightarrow> 'm \<Rightarrow> (SimpleO3Core \<times> 't \<times> 'm) result" where
  "core_writeback translate send c t m =
     (if o3_writeback_addr c \<noteq> -1
      then
        bindr (translate (Request_callback (o3_writeback_addr c) Type_Write (o3_id c) (Some 0)) t) (\<lambda>(ok, req, t').
          if \<not> ok then Inr (c, t', m)
          else bindr (llc_send send req m) (\<lambda>(sent, m').
            if \<not> sent then Inr (c, t', m') else bindr (fetch_inst c) (\<lambda>c'. Inr (c', t', m'))))
      else bindr (fetch_inst c) (\<lambda>c'. Inr (c', t, m)))"

definition core_load ::
  "'t translate_op \<Rightarrow> 'm send_op \<Rightarrow> nat \<Rightarrow> SimpleO3Core \<Rightarrow> 't \<Rightarrow> 'm \<Rightarrow> (SimpleO3Core \<times> 't \<times> 'm) result" where
  "core_load translate send num_inserted_insts c t m =
     (if o3_load_addr c \<noteq> -1
      then
        if int num_inserted_insts = w_ipc (o3_window c) \<or> window_is_full (o3_window c) then Inr (c, t, m)
        else
          bindr (translate (Request_callback (o3_load_addr c) Type_Read (o3_id c) (Some 0)) t) (\<lambda>(ok, req, t').
            if \<not> ok then Inr (c, t', m)
            else bindr (llc_send send req m) (\<lambda>(sent, m').
              if \<not> sent then Inr (c, t', m')
              else bindr (window_insert False (addr req) (o3_window c)) (\<lambda>w.
                let c' = c\<lparr>o3_window := w, o3_load_addr := -1\<rparr>
                in if o3_writeback_addr c' \<noteq> -1 then Inr (c', t', m') else core_writeback translate send c' t' m')))
      else core_writeback translate send c t m)"

definition core_tick ::
  "'t translate_op \<Rightarrow> 'm send_op \<Rightarrow> SimpleO3Core \<Rightarrow> 't \<Rightarrow> 'm \<Rightarrow> (SimpleO3Core \<times> 't \<times> 'm) result" where
  "core_tick translate send c0 t m =
     bindr (core_retire c0) (\<lambda>c1.
     bindr (insert_bubbles 0 c1) (\<lambda>(go_on, num_inserted_insts, c).
       if \<not> go_on then Inr (c, t, m) else core_load translate send num_inserted_insts c t m))"

definition core_receive :: "Request \<Rightarrow> SimpleO3Core \<Rightarrow> SimpleO3Core result" where
  "core_receive req c0 =
     bindr (window_set_ready (addr req) (o3_window c0)) (\<lambda>w.
       let c = c0\<lparr>o3_window := w\<rparr>
       in Inr (if arrive req \<noteq> -1 \<and> o3_last_mem_cycle c < depart req \<and> \<not> reached_expected_num_insts c
               then c\<lparr>s_mem_access_cycles := s_mem_access_cycles c + (depart req - max (o3_last_mem_cycle c) (arrive req)),
                      o3_last_mem_cycle := depart req\<rparr>
               else c))"


section \<open>The frontend\<close>

record 't SimpleO3 =
  so_clk :: int
  so_translation :: 't
  so_cores :: "SimpleO3Core list"
  so_llc :: SimpleO3LLC

record simpleO3_params =
  p_ipc :: "int option"
  p_inst_window_depth :: "int option"
  p_llc_latency :: "int option"
  p_llc_linesize :: "int option"
  p_llc_associativity :: "int option"
  p_llc_capacity_per_core :: "string option"
  p_llc_num_mshr_per_core :: "int option"
  p_num_expected_insts :: int

definition simpleO3_init :: "simpleO3_params \<Rightarrow> string list option list \<Rightarrow> 't \<Rightarrow> 't SimpleO3 result" where
  "simpleO3_init P files translation =
     (let n = int (length files); ipc = override (p_ipc P) 4; depth = override (p_inst_window_depth P) 128;
          expected = nat (take_bit 64 (p_num_expected_insts P))
      in bindr (parse_capacity_str (override (p_llc_capacity_per_core P) ''2MB'')) (\<lambda>cap.
         bindr (new_SimpleO3LLC (override (p_llc_latency P) 47) (to_int32 (int cap) * n) (override (p_llc_linesize P) 64)
                  (override (p_llc_associativity P) 8) (override (p_llc_num_mshr_per_core P) 16 * n)) (\<lambda>llc.
         bindr (map_result (\<lambda>(i, file). new_SimpleO3Core (int i) ipc depth expected file) (enumerate 0 files)) (\<lambda>cores.
           Inr \<lparr>so_clk = 0, so_translation = translation, so_cores = cores, so_llc = llc\<rparr>))))"

fun tick_cores ::
  "'t translate_op \<Rightarrow> 'm send_op \<Rightarrow> SimpleO3Core list \<Rightarrow> 't \<Rightarrow> 'm \<Rightarrow> (SimpleO3Core list \<times> 't \<times> 'm) result" where
  "tick_cores translate send [] t m = Inr ([], t, m)"
| "tick_cores translate send (c # cs) t m =
     bindr (core_tick translate send c t m) (\<lambda>(c', t1, m1).
     bindr (tick_cores translate send cs t1 m1) (\<lambda>(cs', t2, m2). Inr (c' # cs', t2, m2)))"

definition simpleO3_tick ::
  "'t translate_op \<Rightarrow> 'm send_op \<Rightarrow> 't SimpleO3 \<Rightarrow> 'm \<Rightarrow> ('t SimpleO3 \<times> 'm) result" where
  "simpleO3_tick translate send f m =
     bindr (tick_cores translate send (so_cores f) (so_translation f) m) (\<lambda>(cs, t, m').
       Inr (f\<lparr>so_clk := so_clk f + 1, so_llc := llc_tick (so_llc f), so_cores := cs, so_translation := t\<rparr>, m'))"

definition simpleO3_receive :: "Request \<Rightarrow> 't SimpleO3 \<Rightarrow> 't SimpleO3 result" where
  "simpleO3_receive req f =
     bindr (of_opt Out_Of_Bounds (vec_at (so_cores f) (source_id req))) (\<lambda>c.
     bindr (core_receive req c) (\<lambda>c'. Inr (f\<lparr>so_cores := (so_cores f)[nat (source_id req) := c']\<rparr>)))"

definition simpleO3_is_finished :: "'t SimpleO3 \<Rightarrow> bool" where
  "simpleO3_is_finished f \<longleftrightarrow> list_all reached_expected_num_insts (so_cores f)"

definition simpleO3_get_num_cores :: "'t SimpleO3 \<Rightarrow> nat" where
  "simpleO3_get_num_cores f = length (so_cores f)"


section \<open>The processor with its memory system\<close>

text \<open>
  The callbacks of a cycle of the memory system are called in the order in which reads finish.
  They only change the cores, which the memory system does not read, so they can be called at
  the end of the cycle.
\<close>

fun call_back :: "Request list \<Rightarrow> 't SimpleO3 \<Rightarrow> 't SimpleO3 result" where
  "call_back [] f = Inr f"
| "call_back (req # reqs) f =
     bindr (if callback req = None then Inr f else simpleO3_receive req f) (\<lambda>f'. call_back reqs f')"

definition processor_tick ::
  "'t translate_op \<Rightarrow> 'd IDRAM \<Rightarrow> (Request \<Rightarrow> Request result) \<Rightarrow> 't SimpleO3 \<times> 'd GenericDRAMSystem \<Rightarrow>
    ('t SimpleO3 \<times> 'd GenericDRAMSystem) result" where
  "processor_tick translate I mapper w = simpleO3_tick translate (system_send I mapper) (fst w) (snd w)"

definition memory_tick ::
  "int list list \<Rightarrow> 'd IDRAM \<Rightarrow> 't SimpleO3 \<times> 'd GenericDRAMSystem \<Rightarrow> ('t SimpleO3 \<times> 'd GenericDRAMSystem) result" where
  "memory_tick M I w =
     bindr (system_tick M I (snd w)) (\<lambda>(s, served).
     bindr (call_back served (fst w)) (\<lambda>f. Inr (f, s)))"

definition simulate ::
  "'t translate_op \<Rightarrow> int list list \<Rightarrow> 'd IDRAM \<Rightarrow> (Request \<Rightarrow> Request result) \<Rightarrow> nat \<Rightarrow> nat \<Rightarrow>
    't SimpleO3 \<times> 'd GenericDRAMSystem \<Rightarrow> ('t SimpleO3 \<times> 'd GenericDRAMSystem) result option" where
  "simulate translate M I mapper frontend_tick mem_tick w =
     sim_loop (processor_tick translate I mapper) (\<lambda>w. simpleO3_is_finished (fst w)) (memory_tick M I) frontend_tick mem_tick 0 w"

end
