(* ===== verification/Window_Queue.thy ===== *)
theory Window_Queue
  imports SimpleO3
begin

text \<open>
  The instruction window is a ring buffer that implements a bounded queue: instructions enter at
  the head, become ready by address, and leave in order, at most \<open>ipc\<close> per cycle.
\<close>

section \<open>The contract\<close>

text \<open>The addresses for which a window waits.\<close>

definition waiting :: "(bool \<times> int) list \<Rightarrow> int set" where
  "waiting q = {a. (False, a) \<in> set q}"

definition wake :: "int \<Rightarrow> (bool \<times> int) list \<Rightarrow> (bool \<times> int) list" where
  "wake a q = map (\<lambda>(r, b). (r \<or> b = a, b)) q"

definition retired :: "int \<Rightarrow> (bool \<times> int) list \<Rightarrow> nat" where
  "retired ipc q = min (nat ipc) (length (takeWhile fst q))"

lemma waiting_simps [simp]: "waiting [] = {}" "waiting (x # q) = (if fst x then {} else {snd x}) \<union> waiting q"
  by (auto simp: waiting_def split: prod.splits) (metis prod.collapse)

lemma waiting_append [simp]: "waiting (q @ [(r, a)]) = waiting q \<union> (if r then {} else {a})"
  by (induction q) auto

lemma waiting_wake [simp]: "waiting (wake a q) = waiting q - {a}"
  by (induction q) (auto simp: wake_def split: prod.splits)

lemma waiting_drop: "n \<le> length (takeWhile fst q) \<Longrightarrow> waiting (drop n q) = waiting q"
  by (induction q arbitrary: n) (auto simp: drop_Cons split: nat.splits if_splits)

lemma waiting_retired [simp]: "waiting (drop (retired ipc q) q) = waiting q"
  by (rule waiting_drop) (simp add: retired_def)

locale inst_queue =
  fixes contents :: "'w \<Rightarrow> (bool \<times> int) list"
    and ok :: "'w \<Rightarrow> bool"
    and room :: "'w \<Rightarrow> nat"
    and width :: "'w \<Rightarrow> int"
    and enter :: "bool \<Rightarrow> int \<Rightarrow> 'w \<Rightarrow> 'w result"
    and leave :: "'w \<Rightarrow> (nat \<times> 'w) result"
    and ready :: "int \<Rightarrow> 'w \<Rightarrow> 'w result"
  assumes enter: "ok w \<Longrightarrow> length (contents w) < room w \<Longrightarrow> \<exists>w'. enter r a w = Inr w' \<and> ok w' \<and> contents w' = contents w @ [(r, a)]
      \<and> room w' = room w \<and> width w' = width w"
    and leave: "ok w \<Longrightarrow> \<exists>w'. leave w = Inr (retired (width w) (contents w), w') \<and> ok w'
      \<and> contents w' = drop (retired (width w) (contents w)) (contents w) \<and> room w' = room w \<and> width w' = width w"
    and ready: "ok w \<Longrightarrow> \<exists>w'. ready a w = Inr w' \<and> ok w' \<and> contents w' = wake a (contents w) \<and> room w' = room w \<and> width w' = width w"
begin

lemma enter_waits:
  assumes "ok w" "length (contents w) < room w" "enter r a w = Inr w'"
  shows "ok w'" "waiting (contents w') = waiting (contents w) \<union> (if r then {} else {a})"
  using enter [OF assms(1,2), of r a] assms(3) by auto

lemma leave_waits:
  assumes "ok w" "leave w = Inr (n, w')"
  shows "ok w'" "waiting (contents w') = waiting (contents w)"
  using leave [OF assms(1)] assms(2) by auto

lemma ready_waits:
  assumes "ok w" "ready a w = Inr w'"
  shows "ok w'" "waiting (contents w') = waiting (contents w) - {a}"
  using ready [OF assms(1), of a] assms(2) by auto

end


section \<open>The ring buffer\<close>

definition slot :: "InstWindow \<Rightarrow> nat \<Rightarrow> bool \<times> int" where
  "slot w j = (w_ready_list w ! j, w_addr_list w ! j)"

definition window_contents :: "InstWindow \<Rightarrow> (bool \<times> int) list" where
  "window_contents w = map (\<lambda>i. slot w ((w_tail_idx w + i) mod w_depth w)) [0..<w_load w]"

definition window_inv :: "InstWindow \<Rightarrow> bool" where
  "window_inv w \<longleftrightarrow> 0 < w_depth w \<and> length (w_ready_list w) = w_depth w \<and> length (w_addr_list w) = w_depth w
     \<and> w_tail_idx w < w_depth w \<and> w_load w \<le> w_depth w \<and> w_head_idx w = (w_tail_idx w + w_load w) mod w_depth w"

lemma ring_distinct:
  fixes t i j n :: nat
  assumes "(t + i) mod n = (t + j) mod n" "i < n" "j < n"
  shows "i = j"
proof -
  have "i' = j'" if "i' \<le> j'" "(t + i') mod n = (t + j') mod n" "j' < n" for i' j'
  proof -
    have "n dvd (t + j') - (t + i')" using that(1,2) mod_eq_dvd_iff_nat [of "t + i'" "t + j'" n] by simp
    then have "j' - i' = 0" using that(3) nat_dvd_not_less [of "j' - i'" n] by (cases "j' - i' = 0") auto
    then show ?thesis using that(1) by simp
  qed
  from this [of i j] this [of j i] assms show ?thesis by (cases "i \<le> j") auto
qed

lemma length_contents [simp]: "length (window_contents w) = w_load w"
  by (simp add: window_contents_def)


lemma contents_empty [simp]: "w_load w = 0 \<Longrightarrow> window_contents w = []"
  by (simp add: window_contents_def)

lemma window_insert_queue:
  assumes "window_inv w" "length (window_contents w) < w_depth w"
  shows "\<exists>w'. window_insert r a w = Inr w' \<and> window_inv w' \<and> window_contents w' = window_contents w @ [(r, a)]
    \<and> w_depth w' = w_depth w \<and> w_ipc w' = w_ipc w"
proof -
  let ?h = "(w_tail_idx w + w_load w) mod w_depth w"
  let ?w = "w\<lparr>w_ready_list := (w_ready_list w)[?h := r], w_addr_list := (w_addr_list w)[?h := a],
      w_head_idx := (?h + 1) mod w_depth w, w_load := w_load w + 1\<rparr>"
  have inv: "0 < w_depth w" "w_head_idx w = ?h" "w_load w < w_depth w" "?h < w_depth w"
    "length (w_ready_list w) = w_depth w" "length (w_addr_list w) = w_depth w"
    using assms by (auto simp: window_inv_def)
  have "slot ?w ((w_tail_idx w + i) mod w_depth w) = slot w ((w_tail_idx w + i) mod w_depth w)" if "i < w_load w" for i
  proof -
    have "(w_tail_idx w + i) mod w_depth w \<noteq> ?h" using ring_distinct [of "w_tail_idx w" i "w_depth w" "w_load w"] that inv(3) by auto
    then show ?thesis by (simp add: slot_def)
  qed
  then have "window_contents ?w = window_contents w @ [(r, a)]"
    using inv by (simp add: window_contents_def) (simp add: slot_def)
  moreover have "window_insert r a w = Inr ?w" using inv by (simp add: window_insert_def)
  moreover have "window_inv ?w" using assms inv by (auto simp: window_inv_def mod_simps)
  ultimately show ?thesis by (intro exI [where x = ?w]) simp
qed

lemma contents_step:
  assumes "window_inv w" "0 < w_load w"
  defines "w' \<equiv> w\<lparr>w_tail_idx := (w_tail_idx w + 1) mod w_depth w, w_load := w_load w - 1\<rparr>"
  shows "window_contents w = slot w (w_tail_idx w) # window_contents w'" and "window_inv w'"
proof -
  obtain n where n: "w_load w = Suc n" using assms(2) by (cases "w_load w") auto
  have "map (\<lambda>i. slot w ((w_tail_idx w + i) mod w_depth w)) [0..<Suc n] =
      slot w (w_tail_idx w mod w_depth w) # map (\<lambda>i. slot w ((w_tail_idx w + Suc i) mod w_depth w)) [0..<n]"
    by (simp add: upt_conv_Cons map_Suc_upt [symmetric] del: upt_Suc)
  then show "window_contents w = slot w (w_tail_idx w) # window_contents w'"
    using assms(1) by (simp add: window_contents_def w'_def n slot_def window_inv_def mod_simps)
  show "window_inv w'" using assms(1) n by (auto simp: window_inv_def w'_def mod_simps)
qed

lemma retire_loop_queue:
  "window_inv w \<Longrightarrow> k = min (nat (w_ipc w - int n)) (length (takeWhile fst (window_contents w))) \<Longrightarrow>
   \<exists>w'. retire_loop n w = Inr (n + k, w') \<and> window_inv w' \<and> window_contents w' = drop k (window_contents w)
    \<and> w_depth w' = w_depth w \<and> w_ipc w' = w_ipc w"
proof (induction n w arbitrary: k rule: retire_loop.induct)
  case (1 n w)
  show ?case
  proof (cases "0 < w_load w \<and> int n < w_ipc w")
    case False
    then have "k = 0" using 1(3) by auto
    then show ?thesis using False 1(2) by (subst retire_loop.simps) auto
  next
    case True
    let ?w = "w\<lparr>w_tail_idx := (w_tail_idx w + 1) mod w_depth w, w_load := w_load w - 1\<rparr>"
    note step = contents_step [OF 1(2)]
    have v: "vec_at (w_ready_list w) (int (w_tail_idx w)) = Some (fst (slot w (w_tail_idx w)))"
      using 1(2) by (simp add: window_inv_def slot_def)
    show ?thesis
    proof (cases "fst (slot w (w_tail_idx w))")
      case False
      then have "k = 0" using step(1) True 1(3) by simp
      then show ?thesis using False True v 1(2) by (subst retire_loop.simps) simp
    next
      case ready: True
      define k' where "k' = min (nat (w_ipc ?w - int (n + 1))) (length (takeWhile fst (window_contents ?w)))"
      have "nat (w_ipc w - int n) = Suc (nat (w_ipc ?w - int (n + 1)))" using True by simp linarith
      then have k: "k = Suc k'" using 1(3) step(1) True ready by (simp add: k'_def)
      obtain w' where "retire_loop (n + 1) ?w = Inr (n + 1 + k', w')" "window_inv w'"
        "window_contents w' = drop k' (window_contents ?w)" "w_depth w' = w_depth w" "w_ipc w' = w_ipc w"
        using 1(1) [OF True v _ step(2) k'_def] ready True by auto
      then show ?thesis using True ready v step(1) k by (subst retire_loop.simps) simp
    qed
  qed
qed

lemma window_retire_queue:
  assumes "window_inv w"
  shows "\<exists>w'. window_retire w = Inr (retired (w_ipc w) (window_contents w), w') \<and> window_inv w'
    \<and> window_contents w' = drop (retired (w_ipc w) (window_contents w)) (window_contents w)
    \<and> w_depth w' = w_depth w \<and> w_ipc w' = w_ipc w"
proof (cases "w_load w = 0")
  case True
  then show ?thesis using assms by (simp add: window_retire_def retired_def window_contents_def)
next
  case False
  then show ?thesis
    using retire_loop_queue [OF assms, of "retired (w_ipc w) (window_contents w)" 0] by (simp add: window_retire_def retired_def)
qed


lemma set_ready_loop_slots:
  assumes "length (w_ready_list w) = w_depth w" "length (w_addr_list w) = w_depth w" "index < w_depth w"
  shows "\<exists>rl. set_ready_loop a n index w = Inr (w\<lparr>w_ready_list := rl\<rparr>) \<and> length rl = w_depth w \<and> (\<forall>j < w_depth w. rl ! j \<longleftrightarrow>
    w_ready_list w ! j \<or> (w_addr_list w ! j = a \<and> (\<exists>i < n. j = (index + i) mod w_depth w)))"
  using assms
proof (induction n arbitrary: index w)
  case 0
  then show ?case by (intro exI [where x = "w_ready_list w"]) simp
next
  case (Suc n)
  let ?i = "if index + 1 = w_depth w then 0 else index + 1"
  define v where "v = (if w_addr_list w ! index = a then w\<lparr>w_ready_list := (w_ready_list w)[index := True]\<rparr> else w)"
  have v: "w_depth v = w_depth w" "w_addr_list v = w_addr_list w" "length (w_ready_list v) = w_depth w"
    "v\<lparr>w_ready_list := rl\<rparr> = w\<lparr>w_ready_list := rl\<rparr>"
    "j < w_depth w \<Longrightarrow> w_ready_list v ! j \<longleftrightarrow> w_ready_list w ! j \<or> (w_addr_list w ! j = a \<and> j = index)" for rl j
    using Suc.prems by (auto simp: v_def nth_list_update)
  have i: "(?i + k) mod w_depth w = (index + Suc k) mod w_depth w" "?i < w_depth w" for k
    using Suc.prems(3) mod_add_left_eq [of "index + 1" "w_depth w" k] by auto
  have step: "set_ready_loop a (Suc n) index w = set_ready_loop a n ?i v" using Suc.prems by (simp add: Let_def v_def)
  obtain rl where rl: "set_ready_loop a n ?i v = Inr (w\<lparr>w_ready_list := rl\<rparr>)" "length rl = w_depth w"
    "\<And>j. j < w_depth w \<Longrightarrow> rl ! j \<longleftrightarrow> w_ready_list v ! j \<or> (w_addr_list w ! j = a \<and> (\<exists>k < n. j = (?i + k) mod w_depth w))"
    using Suc.IH [of v ?i] v i(2) Suc.prems by auto
  have "(\<exists>k < Suc n. j = (index + k) mod w_depth w) \<longleftrightarrow> j = index \<or> (\<exists>k < n. j = (?i + k) mod w_depth w)" for j
    using Suc.prems(3) unfolding i(1) by (simp add: Ex_less_Suc2)
  then show ?case using rl v(5) by (intro exI [where x = rl]) (auto simp: step simp del: set_ready_loop.simps)
qed

lemma window_set_ready_queue:
  assumes inv: "window_inv w"
  shows "\<exists>w'. window_set_ready a w = Inr w' \<and> window_inv w' \<and> window_contents w' = wake a (window_contents w)
    \<and> w_depth w' = w_depth w \<and> w_ipc w' = w_ipc w"
proof (cases "w_load w = 0")
  case True
  then show ?thesis using inv by (simp add: window_set_ready_def wake_def)
next
  case False
  obtain rl where rl: "set_ready_loop a (w_load w) (w_tail_idx w) w = Inr (w\<lparr>w_ready_list := rl\<rparr>)" "length rl = w_depth w"
    "\<And>j. j < w_depth w \<Longrightarrow> rl ! j \<longleftrightarrow> w_ready_list w ! j \<or> (w_addr_list w ! j = a \<and> (\<exists>i < w_load w. j = (w_tail_idx w + i) mod w_depth w))"
    using set_ready_loop_slots [of w "w_tail_idx w" a "w_load w"] inv by (auto simp: window_inv_def)
  have "slot (w\<lparr>w_ready_list := rl\<rparr>) ((w_tail_idx w + i) mod w_depth w) =
      (\<lambda>(r, b). (r \<or> b = a, b)) (slot w ((w_tail_idx w + i) mod w_depth w))" if "i < w_load w" for i
    using that inv rl(3) [of "(w_tail_idx w + i) mod w_depth w"] by (auto simp: slot_def window_inv_def)
  then have "window_contents (w\<lparr>w_ready_list := rl\<rparr>) = wake a (window_contents w)"
    by (simp add: window_contents_def wake_def)
  then show ?thesis using False inv rl(1,2) by (simp add: window_set_ready_def window_inv_def)
qed

interpretation window: inst_queue window_contents window_inv w_depth w_ipc window_insert window_retire window_set_ready
  by unfold_locales (rule window_insert_queue window_retire_queue window_set_ready_queue; assumption)+


section \<open>Runs of the window\<close>

text \<open>
  The calls a core makes. It inserts only into a window that is not full, as
  \<^verbatim>\<open>SimpleO3Core::tick\<close> checks before each \<^verbatim>\<open>insert\<close>.
\<close>

datatype window_call = Call_insert bool int | Call_retire | Call_set_ready int

fun window_call_step :: "window_call \<Rightarrow> InstWindow \<Rightarrow> (nat \<times> InstWindow) result" where
  "window_call_step (Call_insert r a) w =
     (if window_is_full w then Inr (0, w) else bindr (window_insert r a w) (\<lambda>w'. Inr (0, w')))"
| "window_call_step Call_retire w = window_retire w"
| "window_call_step (Call_set_ready a) w = bindr (window_set_ready a w) (\<lambda>w'. Inr (0, w'))"

fun window_calls :: "window_call list \<Rightarrow> InstWindow \<Rightarrow> (nat list \<times> InstWindow) result" where
  "window_calls [] w = Inr ([], w)"
| "window_calls (x # xs) w =
     bindr (window_call_step x w) (\<lambda>(n, w1). bindr (window_calls xs w1) (\<lambda>(ns, w2). Inr (n # ns, w2)))"

text \<open>The same calls on a bounded queue.\<close>

fun queue_call_step :: "nat \<Rightarrow> int \<Rightarrow> window_call \<Rightarrow> (bool \<times> int) list \<Rightarrow> nat \<times> (bool \<times> int) list" where
  "queue_call_step depth ipc (Call_insert r a) q = (0, if length q = depth then q else q @ [(r, a)])"
| "queue_call_step depth ipc Call_retire q = (retired ipc q, drop (retired ipc q) q)"
| "queue_call_step depth ipc (Call_set_ready a) q = (0, wake a q)"

fun queue_calls :: "nat \<Rightarrow> int \<Rightarrow> window_call list \<Rightarrow> (bool \<times> int) list \<Rightarrow> nat list \<times> (bool \<times> int) list" where
  "queue_calls depth ipc [] q = ([], q)"
| "queue_calls depth ipc (x # xs) q =
     (let (n, q1) = queue_call_step depth ipc x q; (ns, q2) = queue_calls depth ipc xs q1 in (n # ns, q2))"

lemma window_call_step_refines:
  assumes "window_inv w"
  shows "\<exists>w'. window_call_step x w = Inr (fst (queue_call_step (w_depth w) (w_ipc w) x (window_contents w)), w')
    \<and> window_inv w' \<and> window_contents w' = snd (queue_call_step (w_depth w) (w_ipc w) x (window_contents w))
    \<and> w_depth w' = w_depth w \<and> w_ipc w' = w_ipc w"
proof (cases x)
  case (Call_insert r a)
  have "w_load w < w_depth w" if "\<not> window_is_full w" using that assms by (simp add: window_is_full_def window_inv_def)
  then show ?thesis using window.enter [OF assms, of r a] assms by (auto simp: Call_insert window_is_full_def)
next
  case Call_retire
  then show ?thesis using window.leave [OF assms] by simp
next
  case (Call_set_ready a)
  then show ?thesis using window.ready [OF assms, of a] by auto
qed

lemma window_calls_refine:
  "window_inv w \<Longrightarrow> \<exists>w'. window_calls xs w = Inr (fst (queue_calls (w_depth w) (w_ipc w) xs (window_contents w)), w')
    \<and> window_inv w' \<and> window_contents w' = snd (queue_calls (w_depth w) (w_ipc w) xs (window_contents w))"
proof (induction xs arbitrary: w)
  case (Cons x xs)
  obtain w1 where w1: "window_call_step x w = Inr (fst (queue_call_step (w_depth w) (w_ipc w) x (window_contents w)), w1)"
    "window_inv w1" "window_contents w1 = snd (queue_call_step (w_depth w) (w_ipc w) x (window_contents w))"
    "w_depth w1 = w_depth w" "w_ipc w1 = w_ipc w"
    using window_call_step_refines [OF Cons.prems, of x] by blast
  then show ?case using Cons.IH [OF w1(2)] by (auto simp: split_beta Let_def)
qed simp

lemma new_window:
  assumes "new_InstWindow ipc depth = Inr w" "0 < depth"
  shows "window_inv w" "window_contents w = []" "w_depth w = nat depth" "w_ipc w = ipc"
  using assms by (auto simp: new_InstWindow_def window_inv_def window_contents_def split: if_splits)

text \<open>
  C12. The ring buffer of the instruction window refines a bounded queue. From a new window of any
  positive depth, every sequence of calls returns without a fault, every retire call returns
  the number of instructions that leave the queue (those ready at its front, at most \<^verbatim>\<open>ipc\<close>),
  and the entries between tail and head are the queue, in order.
\<close>

theorem inst_window_refines_queue:
  assumes "0 < depth"
  shows "\<exists>w w'. new_InstWindow ipc depth = Inr w
    \<and> window_calls xs w = Inr (fst (queue_calls (nat depth) ipc xs []), w')
    \<and> window_contents w' = snd (queue_calls (nat depth) ipc xs [])"
proof -
  obtain w where w: "new_InstWindow ipc depth = Inr w" using assms by (simp add: new_InstWindow_def)
  note n = new_window [OF w assms]
  show ?thesis using window_calls_refine [OF n(1), of xs] by (auto simp: w n(2-4))
qed

definition demo_calls :: "window_call list" where
  "demo_calls = [Call_insert False 8, Call_insert True (-1), Call_insert False 9, Call_insert False 7, Call_retire,
     Call_set_ready 8, Call_retire, Call_insert False 7, Call_insert False 9, Call_set_ready 9, Call_retire]"

lemma demo_queue_calls:
  "queue_calls (nat 3) 2 demo_calls [] = ([0, 0, 0, 0, 0, 0, 2, 0, 0, 0, 1], [(False, 7), (True, 9)])"
  by code_simp

theorem inst_window_refines_queue_witness:
  "\<exists>w w'. new_InstWindow 2 3 = Inr w \<and> window_calls demo_calls w = Inr ([0, 0, 0, 0, 0, 0, 2, 0, 0, 0, 1], w')
    \<and> window_contents w' = [(False, 7), (True, 9)]"
  using inst_window_refines_queue [of 3 2 demo_calls] unfolding demo_queue_calls fst_conv snd_conv by simp

end
