(* ===== verification/Controller_Lemmas.thy ===== *)
theory Controller_Lemmas
  imports Memory_System "HOL-Library.Multiset"
begin

text \<open>
  What the parts of a controller cycle do to its queues: the schedulers only write commands
  into requests, the maintenance parts only append to the priority buffer, serving a request
  moves it. \<open>ident\<close> is what stays of a request while it is in the controller.
\<close>

section \<open>Requests in a controller\<close>

definition is_read :: "Request \<Rightarrow> bool" where
  "is_read r \<longleftrightarrow> type_id r = Type_Read"

definition ident :: "Request \<Rightarrow> Request" where
  "ident r = r\<lparr>command := 0, is_stat_updated := False, depart := 0\<rparr>"

lemma ident_fields [simp]:
  "type_id (ident r) = type_id r" "addr_vec (ident r) = addr_vec r" "final_command (ident r) = final_command r"
  "is_read (ident r) = is_read r"
  by (simp_all add: ident_def is_read_def)

lemma ident_updates [simp]:
  "ident (r\<lparr>command := k\<rparr>) = ident r" "ident (r\<lparr>is_stat_updated := b\<rparr>) = ident r" "ident (r\<lparr>depart := t\<rparr>) = ident r"
  by (simp_all add: ident_def)

lemma ident_eqD:
  "ident r = ident r' \<Longrightarrow> type_id r = type_id r' \<and> addr_vec r = addr_vec r' \<and> final_command r = final_command r'"
  using ident_fields by metis

definition queued :: "GenericDRAMController \<Rightarrow> Request list" where
  "queued c = buffer (m_active_buffer c) @ buffer (m_priority_buffer c) @ buffer (m_read_buffer c) @ buffer (m_write_buffer c)"

abbreviation idents :: "Request list \<Rightarrow> Request multiset" where
  "idents rs \<equiv> mset (map ident rs)"

text \<open>The reads a controller has accepted and not yet completed.\<close>

definition outstanding :: "GenericDRAMController \<Rightarrow> Request multiset" where
  "outstanding c = filter_mset is_read (idents (pending c @ queued c))"

lemma queued_set_buf:
  "idents (queued (set_buf bi b c)) + idents (buffer (get_buf bi c)) = idents (queued c) + idents (buffer b)"
  by (cases bi) (simp_all add: queued_def)

lemma get_set_buf [simp]: "get_buf bj (set_buf bi b c) = (if bi = bj then b else get_buf bj c)"
  by (cases bi; cases bj) simp_all

lemma set_buf_same [simp]: "set_buf bi (get_buf bi c) c = c"
  by (cases bi) simp_all

lemma set_buf_fields [simp]:
  "pending (set_buf bi b c) = pending c" "c_clk (set_buf bi b c) = c_clk c" "m_channel_id (set_buf bi b c) = m_channel_id c"
  "m_refresh (set_buf bi b c) = m_refresh c" "m_rowpolicy (set_buf bi b c) = m_rowpolicy c"
  "m_plugins (set_buf bi b c) = m_plugins c" "m_bank_addr_idx (set_buf bi b c) = m_bank_addr_idx c"
  by (cases bi; simp)+

lemma queued_iff: "r \<in> set (queued c) \<longleftrightarrow> (\<exists>bi. r \<in> set (buffer (get_buf bi c)))"
proof
  assume "r \<in> set (queued c)"
  then show "\<exists>bi. r \<in> set (buffer (get_buf bi c))"
    unfolding queued_def using get_buf.simps by (metis UnE set_append)
next
  assume "\<exists>bi. r \<in> set (buffer (get_buf bi c))"
  then obtain bi where "r \<in> set (buffer (get_buf bi c))" by blast
  then show "r \<in> set (queued c)" by (cases bi) (simp_all add: queued_def)
qed


section \<open>Scheduling\<close>

definition recommanded :: "ReqBuffer \<Rightarrow> ReqBuffer \<Rightarrow> bool" where
  "recommanded b b' \<longleftrightarrow> max_size b' = max_size b \<and> list_all2 (\<lambda>r r'. \<exists>k. r' = r\<lparr>command := k\<rparr>) (buffer b) (buffer b')"

lemma command_same: "\<exists>k. r = r\<lparr>command := k\<rparr>" for r :: Request
  by (rule exI [of _ "command r"]) simp

lemma recommanded_refl [simp]: "recommanded b b"
  by (simp add: recommanded_def list_all2_refl command_same)

lemma recommanded_trans: "recommanded a b \<Longrightarrow> recommanded b c \<Longrightarrow> recommanded a c"
  unfolding recommanded_def
  by (auto elim!: list_all2_trans [rotated 1, of _ "buffer a" "buffer b" _ "buffer c"])

lemma recommanded_idents: "recommanded b b' \<Longrightarrow> map ident (buffer b') = map ident (buffer b)"
  by (auto simp: recommanded_def list_all2_conv_all_nth intro!: nth_equalityI)

text \<open>The scheduling part of a cycle writes commands into the buffers and the write mode, nothing else.\<close>

definition rescheduled :: "GenericDRAMController \<Rightarrow> GenericDRAMController \<Rightarrow> bool" where
  "rescheduled c c' \<longleftrightarrow> c_clk c' = c_clk c \<and> m_channel_id c' = m_channel_id c \<and> pending c' = pending c
     \<and> m_bank_addr_idx c' = m_bank_addr_idx c \<and> m_refresh c' = m_refresh c \<and> m_rowpolicy c' = m_rowpolicy c
     \<and> m_plugins c' = m_plugins c \<and> c_queues c' = c_queues c \<and> c_rows c' = c_rows c
     \<and> (\<forall>bi. recommanded (get_buf bi c) (get_buf bi c'))"

lemma rescheduled_refl [simp]: "rescheduled c c"
  by (simp add: rescheduled_def)

lemma rescheduled_trans: "rescheduled a b \<Longrightarrow> rescheduled b c \<Longrightarrow> rescheduled a c"
  unfolding rescheduled_def using recommanded_trans by metis

lemma set_buf_stats [simp]: "c_queues (set_buf bi b c) = c_queues c" "c_rows (set_buf bi b c) = c_rows c"
  by (cases bi; simp)+

lemma rescheduled_set_buf: "recommanded (get_buf bi c) b \<Longrightarrow> rescheduled c (set_buf bi b c)"
  by (auto simp: rescheduled_def)

lemma rescheduled_idents: "rescheduled c c' \<Longrightarrow> map ident (buffer (get_buf bi c')) = map ident (buffer (get_buf bi c))"
  by (simp add: rescheduled_def recommanded_idents)

lemma rescheduled_queued: "rescheduled c c' \<Longrightarrow> map ident (queued c') = map ident (queued c)"
  using rescheduled_idents [of c c' Active] rescheduled_idents [of c c' Priority]
    rescheduled_idents [of c c' Reads] rescheduled_idents [of c c' Writes]
  by (simp add: queued_def)

lemma rescheduled_write_mode [simp]: "rescheduled c (set_write_mode c)"
proof -
  have "get_buf bi (c\<lparr>m_is_write_mode := w\<rparr>) = get_buf bi c" for bi w by (cases bi) simp_all
  then show ?thesis by (auto simp: set_write_mode_def rescheduled_def Let_def)
qed

text \<open>A request the scheduling part has found: the device names its command and is ready for it.\<close>

definition found_ok :: "'d IDRAM \<Rightarrow> 'd \<Rightarrow> GenericDRAMController \<Rightarrow> buf_id \<times> nat \<Rightarrow> bool" where
  "found_ok I d c it \<longleftrightarrow> snd it < length (buffer (get_buf (fst it) c))
     \<and> i_get_preq_command I (final_command (request_at c it)) (addr_vec (request_at c it)) d = Inr (command (request_at c it))
     \<and> i_check_ready I (command (request_at c it)) (addr_vec (request_at c it)) d = Inr True"

lemma update_command_eq:
  "update_command I d r = Inr r' \<Longrightarrow>
   (\<exists>k. r' = r\<lparr>command := k\<rparr>) \<and> i_get_preq_command I (final_command r') (addr_vec r') d = Inr (command r')"
  by (auto simp: update_command_def)

lemma best_request_commands:
  assumes "FRFCFS_get_best_request I d b = Inr (b', it)"
  shows "recommanded b b'" and "\<And>i. it = Some i \<Longrightarrow> i < length (buffer b')"
    and "\<And>r. r \<in> set (buffer b') \<Longrightarrow> i_get_preq_command I (final_command r) (addr_vec r) d = Inr (command r)"
proof -
  have best: "picks_best (update_command I d) (frfcfs_key I d) b (b', it)"
    using frfcfs.best_request_best assms by (simp add: FRFCFS_get_best_request_def)
  then have all: "list_all2 (\<lambda>x y. update_command I d x = Inr y) (buffer b) (buffer b')"
    by (simp add: picks_best_def map_result_Inr)
  have "list_all2 (\<lambda>r r'. \<exists>k. r' = r\<lparr>command := k\<rparr>) (buffer b) (buffer b')"
    by (rule list_all2_mono [OF all]) (drule update_command_eq, simp)
  then show "recommanded b b'" using best by (simp add: recommanded_def picks_best_def)
  show "i < length (buffer b')" if "it = Some i" for i
    using best that by (simp add: picks_best_def is_best_def)
  show "i_get_preq_command I (final_command r) (addr_vec r) d = Inr (command r)" if "r \<in> set (buffer b')" for r
    using all that by (auto simp: list_all2_conv_all_nth in_set_conv_nth dest!: update_command_eq)
qed

lemma schedule_from_spec:
  assumes "schedule_from I d bi c = Inr (c', found)"
  shows "rescheduled c c' \<and> (\<forall>it. found = Some it \<longrightarrow> found_ok I d c' it)"
proof -
  obtain b it where b: "FRFCFS_get_best_request I d (get_buf bi c) = Inr (b, it)" "c' = set_buf bi b c"
    and f: "\<And>i. it = Some i \<Longrightarrow> ready_request I d c' (bi, i) = Inr True \<or> found = None"
      "\<And>x. found = Some x \<Longrightarrow> \<exists>i. it = Some i \<and> x = (bi, i)"
    using assms by (auto simp: schedule_from_def Let_def split: option.splits if_splits)
  note best = best_request_commands [OF b(1)]
  have "found_ok I d c' x" if x: "found = Some x" for x
  proof -
    obtain i where i: "it = Some i" "x = (bi, i)" using f(2) [OF x] by blast
    then show ?thesis
      using best(2) [OF i(1)] best(3) [of "buffer b ! i"] f(1) [OF i(1)] x b(2)
      by (simp add: found_ok_def request_at_def ready_request_def)
  qed
  then show ?thesis using b(2) rescheduled_set_buf [OF best(1)] by blast
qed

lemma set_request_rescheduled:
  assumes "snd it < length (buffer (get_buf (fst it) c))" and "r = (request_at c it)\<lparr>command := k\<rparr>"
  shows "rescheduled c (set_request it r c)"
proof -
  have "recommanded b (b\<lparr>buffer := (buffer b)[i := (buffer b ! i)\<lparr>command := k\<rparr>]\<rparr>)" if "i < length (buffer b)" for b i
    using that recommanded_refl [of b]
    by (auto simp: recommanded_def list_all2_conv_all_nth nth_list_update command_same)
  then show ?thesis
    using assms by (simp add: set_request_def Let_def request_at_def rescheduled_set_buf)
qed

lemma request_at_set_request [simp]:
  "snd it < length (buffer (get_buf (fst it) c)) \<Longrightarrow> request_at (set_request it r c) it = r"
  by (simp add: request_at_def set_request_def Let_def)

lemma schedule_priority_spec:
  assumes "schedule_priority I d c = Inr (c', found)" and "buf_size (m_priority_buffer c) \<noteq> 0"
  shows "rescheduled c c' \<and> (\<forall>it. found = Some it \<longrightarrow> found_ok I d c' it)"
proof -
  let ?it = "(Priority, 0 :: nat)"
  have len: "snd ?it < length (buffer (get_buf (fst ?it) c))" using assms(2) by (simp add: buf_size_def)
  obtain r ready where r: "update_command I d (request_at c ?it) = Inr r" "c' = set_request ?it r c"
    "ready_request I d c' ?it = Inr ready" "found = (if ready then Some ?it else None)"
    using assms(1) by (auto simp: schedule_priority_def Let_def)
  obtain k where k: "r = (request_at c ?it)\<lparr>command := k\<rparr>"
    "i_get_preq_command I (final_command r) (addr_vec r) d = Inr (command r)"
    using update_command_eq [OF r(1)] by blast
  have at: "request_at c' ?it = r" "snd ?it < length (buffer (get_buf (fst ?it) c'))"
    using r(2) len by (simp_all add: set_request_def Let_def request_at_def)
  show ?thesis
    using set_request_rescheduled [OF len k(1)] r(2-4) k(2) at
    by (auto simp: found_ok_def ready_request_def split: if_splits)
qed

lemma choose_request_spec:
  assumes "choose_request I d c = Inr (c', found)"
  shows "rescheduled c c' \<and> (\<forall>it. found = Some it \<longrightarrow> found_ok I d c' it)"
proof -
  obtain c1 f1 where c1: "schedule_from I d Active c = Inr (c1, f1)"
    and rest: "(if f1 \<noteq> None then Inr (c1, f1) else if buf_size (m_priority_buffer c1) \<noteq> 0 then schedule_priority I d c1
       else schedule_from I d (if m_is_write_mode (set_write_mode c1) then Writes else Reads) (set_write_mode c1)) = Inr (c', found)"
    using assms unfolding choose_request_def Let_def bindr_Inr by (elim exE conjE, split prod.splits) blast
  note s1 = schedule_from_spec [OF c1]
  consider "f1 \<noteq> None" "c' = c1" "found = f1" | "buf_size (m_priority_buffer c1) \<noteq> 0" "schedule_priority I d c1 = Inr (c', found)"
    | bi where "schedule_from I d bi (set_write_mode c1) = Inr (c', found)"
    using rest by (auto split: if_splits)
  then show ?thesis
  proof cases
    case 1
    with s1 show ?thesis by blast
  next
    case 2
    with s1 schedule_priority_spec [OF 2(2,1)] rescheduled_trans show ?thesis by blast
  next
    case 3
    with s1 schedule_from_spec [OF 3] rescheduled_trans rescheduled_write_mode show ?thesis by metis
  qed
qed

lemma schedule_request_spec:
  assumes "schedule_request I d c = Inr (c', found)"
  shows "rescheduled c c'" and "\<And>it. found = Some it \<Longrightarrow> found_ok I d c' it"
    and "\<And>it. found = Some it \<Longrightarrow> \<exists>m. meta_of I (command (request_at c' it)) = Inr m \<and>
       (is_closing m \<longrightarrow> closes_active (m_bank_addr_idx c') (buffer (m_active_buffer c')) (addr_vec (request_at c' it)) = Inr False)"
proof -
  obtain f where ch: "choose_request I d c = Inr (c', f)" and "found = f \<or> found = None"
    using assms by (auto simp: schedule_request_def split: option.splits if_splits)
  with choose_request_spec [OF ch] show "rescheduled c c'" "found = Some it \<Longrightarrow> found_ok I d c' it" for it
    by fastforce+
  show "\<exists>m. meta_of I (command (request_at c' it)) = Inr m \<and>
       (is_closing m \<longrightarrow> closes_active (m_bank_addr_idx c') (buffer (m_active_buffer c')) (addr_vec (request_at c' it)) = Inr False)"
    if "found = Some it" for it
    using assms that ch by (auto simp: schedule_request_def split: option.splits if_splits)
qed


section \<open>Maintenance\<close>

definition appends :: "(Request \<Rightarrow> bool) \<Rightarrow> ReqBuffer \<Rightarrow> ReqBuffer \<Rightarrow> bool" where
  "appends P b b' \<longleftrightarrow> max_size b' = max_size b \<and> (\<exists>rs. buffer b' = buffer b @ rs \<and> list_all P rs)"

lemma appends_refl [simp]: "appends P b b"
  by (simp add: appends_def)

lemma appends_trans: "appends P a b \<Longrightarrow> appends P b c \<Longrightarrow> appends P a c"
  by (auto simp: appends_def)

lemma appends_mono: "appends P b b' \<Longrightarrow> (\<And>r. P r \<Longrightarrow> Q r) \<Longrightarrow> appends Q b b'"
  unfolding appends_def using list.pred_mono_strong by metis

text \<open>A request of the maintenance parts: of one of the given types, translated, for the given channel.\<close>

definition maint :: "'d IDRAM \<Rightarrow> int set \<Rightarrow> int \<Rightarrow> Request \<Rightarrow> bool" where
  "maint I tys ch r \<longleftrightarrow> type_id r \<in> tys \<and> translation_of I (type_id r) = Inr (final_command r)
     \<and> vec_at (addr_vec r) 0 = Some ch"

lemma priority_send_appends:
  "priority_send I (Request_vec av t) b = Inr (ok, b') \<Longrightarrow> t \<in> tys \<Longrightarrow> vec_at av 0 = Some ch \<Longrightarrow> appends (maint I tys ch) b b'"
  by (auto simp: priority_send_def appends_def maint_def enqueue_def Request_vec_def split: if_splits)

fun policy_ids :: "rowpolicy \<Rightarrow> int set" where
  "policy_ids Open_Row = {}"
| "policy_ids (Closed_Row q) = {cl_PRE_req_id q}"

fun plugin_ids :: "plugin \<Rightarrow> int set" where
  "plugin_ids (P_CommandCounter p) = {}"
| "plugin_ids (P_PARA p) = {pa_VRR_req_id p}"
| "plugin_ids (P_OracleRH p) = {or_VRR_req_id p}"
| "plugin_ids (P_TWiCe p) = {tw_VRR_req_id p}"
| "plugin_ids (P_RFMManager p) = {rfm_req_id p}"

text \<open>The RFM manager overwrites the bank levels of an address, which are below the channel.\<close>

fun plugin_ok :: "plugin \<Rightarrow> bool" where
  "plugin_ok (P_RFMManager p) \<longleftrightarrow> rfm_bankgroup_level p \<noteq> 0 \<and> rfm_bank_level p \<noteq> 0"
| "plugin_ok _ \<longleftrightarrow> True"

lemma ClosedRowPolicy_access_spec:
  assumes "ClosedRowPolicy_access I r i p b = Inr (p', b')" and "vec_at (addr_vec r) 0 = Some ch"
  shows "cl_PRE_req_id p' = cl_PRE_req_id p \<and> appends (maint I {cl_PRE_req_id p} ch) b b'"
proof -
  consider acc where "p' = p\<lparr>m_col_accesses := acc\<rparr>" "b' = b"
    | ok acc n where "priority_send I (Request_vec (addr_vec r) (cl_PRE_req_id p)) b = Inr (ok, b')"
        "p' = p\<lparr>m_col_accesses := acc, s_num_close_reqs := n\<rparr>"
    using assms(1) by (auto simp: ClosedRowPolicy_access_def split: if_splits)
  then show ?thesis using priority_send_appends [of I _ "cl_PRE_req_id p" b] assms(2) by cases auto
qed

lemma ClosedRowPolicy_update_spec:
  assumes "ClosedRowPolicy_update I found p b = Inr (p', b')" and "\<And>r. found = Some r \<Longrightarrow> vec_at (addr_vec r) 0 = Some ch"
  shows "cl_PRE_req_id p' = cl_PRE_req_id p \<and> appends (maint I {cl_PRE_req_id p} ch) b b'"
proof (cases found)
  case None
  with assms(1) show ?thesis by (simp add: ClosedRowPolicy_update_def)
next
  case (Some r)
  then consider "p' = p" "b' = b" | acc where "p' = p\<lparr>m_col_accesses := acc\<rparr>" "b' = b"
    | i where "ClosedRowPolicy_access I r i p b = Inr (p', b')"
    using assms(1) by (auto simp: ClosedRowPolicy_update_def split: if_splits)
  then show ?thesis
    using ClosedRowPolicy_access_spec [of I r] assms(2) [OF Some] by cases auto
qed

lemma rowpolicy_update_spec:
  assumes "rowpolicy_update I found p b = Inr (p', b')" and "\<And>r. found = Some r \<Longrightarrow> vec_at (addr_vec r) 0 = Some ch"
  shows "policy_ids p' = policy_ids p \<and> appends (maint I (policy_ids p) ch) b b'"
proof (cases p)
  case (Closed_Row q)
  then obtain q' where "ClosedRowPolicy_update I found q b = Inr (q', b')" "p' = Closed_Row q'"
    using assms(1) by (auto simp: rowpolicy_update_def)
  with ClosedRowPolicy_update_spec [OF this(1) assms(2)] Closed_Row show ?thesis by simp
qed (use assms(1) in \<open>auto simp: rowpolicy_update_def\<close>)

lemma PARA_update_spec:
  assumes "PARA_update I found p b = Inr (p', b')" and "\<And>r. found = Some r \<Longrightarrow> vec_at (addr_vec r) 0 = Some ch"
  shows "pa_VRR_req_id p' = pa_VRR_req_id p \<and> appends (maint I {pa_VRR_req_id p} ch) b b'"
  using assms
  by (auto simp: PARA_update_def Let_def split: option.splits if_splits intro: priority_send_appends)

lemma OracleRH_update_spec:
  assumes "OracleRH_update I d found p b = Inr (p', b')" and "\<And>r. found = Some r \<Longrightarrow> vec_at (addr_vec r) 0 = Some ch"
  shows "or_VRR_req_id p' = or_VRR_req_id p \<and> appends (maint I {or_VRR_req_id p} ch) b b'"
  using assms
  by (auto simp: OracleRH_update_def OracleRH_activate_def split: option.splits if_splits intro: priority_send_appends)

lemma TWiCe_activate_spec:
  assumes "TWiCe_activate I d r p b = Inr (p', b')" and "vec_at (addr_vec r) 0 = Some ch"
  shows "tw_VRR_req_id p' = tw_VRR_req_id p \<and> appends (maint I {tw_VRR_req_id p} ch) b b'"
proof -
  obtain i row t where i: "flat_bank_number (i_count I d) (tw_rank_level p) (tw_bank_level p) r = Inr i"
    "level_at r (tw_row_level p) = Inr row" "vec_at (tw_table p) i = Some t"
    using assms(1) unfolding TWiCe_activate_def bindr_Inr of_opt_Inr by blast
  show ?thesis
  proof (cases "t row")
    case None
    with assms(1) i show ?thesis by (auto simp: TWiCe_activate_def)
  next
    case (Some e)
    with assms i priority_send_appends [of I "addr_vec r" "tw_VRR_req_id p" b] show ?thesis
      by (auto simp: TWiCe_activate_def simp del: bindr_Inr split: if_splits) (auto simp: split_beta)
  qed
qed

lemma TWiCe_update_spec:
  assumes "TWiCe_update I d found p b = Inr (p', b')" and "\<And>r. found = Some r \<Longrightarrow> vec_at (addr_vec r) 0 = Some ch"
  shows "tw_VRR_req_id p' = tw_VRR_req_id p \<and> appends (maint I {tw_VRR_req_id p} ch) b b'"
proof (cases found)
  case None
  with assms(1) show ?thesis by (auto simp: TWiCe_update_def Let_def)
next
  case (Some r)
  let ?p = "p\<lparr>tw_clk := tw_clk p + 1\<rparr>"
  have act: "tw_VRR_req_id p' = tw_VRR_req_id p \<and> appends (maint I {tw_VRR_req_id p} ch) b b'"
    if "TWiCe_activate I d r ?p b = Inr (p', b')"
    using TWiCe_activate_spec [OF that] assms(2) [OF Some] by simp
  show ?thesis
  proof (cases "refreshes_rank I (tw_rank_level p) r = Inr True")
    case True
    with assms(1) Some show ?thesis by (auto simp: TWiCe_update_def Let_def)
  next
    case False
    then have refr: "refreshes_rank I (tw_rank_level p) r = Inr False"
      using assms(1) Some by (auto simp: TWiCe_update_def Let_def split: if_splits)
    show ?thesis
    proof (cases "opens_row I (tw_row_level p) r = Inr True")
      case True
      with assms(1) Some refr act show ?thesis by (simp add: TWiCe_update_def Let_def)
    next
      case False
      with assms(1) Some refr show ?thesis by (auto simp: TWiCe_update_def Let_def split: if_splits)
    qed
  qed
qed

lemma RFMManager_update_spec:
  assumes "RFMManager_update I d found p b = Inr (p', b')" and "\<And>r. found = Some r \<Longrightarrow> vec_at (addr_vec r) 0 = Some ch"
    and "rfm_bankgroup_level p \<noteq> 0" and "rfm_bank_level p \<noteq> 0"
  shows "rfm_req_id p' = rfm_req_id p \<and> rfm_bankgroup_level p' = rfm_bankgroup_level p
    \<and> rfm_bank_level p' = rfm_bank_level p \<and> appends (maint I {rfm_req_id p} ch) b b'"
proof (cases found)
  case None
  with assms(1) show ?thesis by (auto simp: RFMManager_update_def Let_def)
next
  case (Some r)
  let ?p = "p\<lparr>rfm_clk := rfm_clk p + 1\<rparr>"
  let ?av = "(addr_vec r)[rfm_bankgroup_level p := -1, rfm_bank_level p := -1]"
  consider "p' = ?p" "b' = b" | t where "p' = ?p\<lparr>rfm_bank_ctrs := t\<rparr>" "b' = b"
    | ok t n where "priority_send I (Request_vec ?av (rfm_req_id p)) b = Inr (ok, b')" "p' = ?p\<lparr>rfm_bank_ctrs := t, s_rfm_counter := n\<rparr>"
    using assms(1) Some by (auto simp: RFMManager_update_def Let_def split: if_splits)
  moreover have "vec_at ?av 0 = Some ch"
    using assms(2) [OF Some] assms(3,4) by (simp add: vec_at_def split: if_splits)
  ultimately show ?thesis using priority_send_appends [of I ?av "rfm_req_id p" b] by cases auto
qed

lemma plugin_update_spec:
  assumes "plugin_update I d found p b = Inr (p', b')" and "\<And>r. found = Some r \<Longrightarrow> vec_at (addr_vec r) 0 = Some ch"
    and "plugin_ok p"
  shows "plugin_ids p' = plugin_ids p \<and> plugin_ok p' \<and> appends (maint I (plugin_ids p) ch) b b'"
proof (cases p)
  case (P_CommandCounter q)
  with assms(1) show ?thesis by (auto simp: plugin_update_def)
next
  case (P_PARA q)
  then obtain q' where "PARA_update I found q b = Inr (q', b')" "p' = P_PARA q'"
    using assms(1) by (auto simp: plugin_update_def)
  with PARA_update_spec [OF this(1) assms(2)] P_PARA show ?thesis by simp
next
  case (P_OracleRH q)
  then obtain q' where "OracleRH_update I d found q b = Inr (q', b')" "p' = P_OracleRH q'"
    using assms(1) by (auto simp: plugin_update_def)
  with OracleRH_update_spec [OF this(1) assms(2)] P_OracleRH show ?thesis by simp
next
  case (P_TWiCe q)
  then obtain q' where "TWiCe_update I d found q b = Inr (q', b')" "p' = P_TWiCe q'"
    using assms(1) by (auto simp: plugin_update_def)
  with TWiCe_update_spec [OF this(1) assms(2)] P_TWiCe show ?thesis by simp
next
  case (P_RFMManager q)
  then obtain q' where "RFMManager_update I d found q b = Inr (q', b')" "p' = P_RFMManager q'"
    using assms(1) by (auto simp: plugin_update_def)
  with RFMManager_update_spec [OF this(1) assms(2)] P_RFMManager assms(3) show ?thesis by simp
qed

lemma maint_mono: "maint I tys ch r \<Longrightarrow> tys \<subseteq> tys' \<Longrightarrow> maint I tys' ch r"
  by (auto simp: maint_def)

lemma update_plugins_spec:
  assumes "\<And>r. found = Some r \<Longrightarrow> vec_at (addr_vec r) 0 = Some ch"
  shows "update_plugins I d found ps b = Inr (ps', b') \<Longrightarrow> list_all plugin_ok ps \<Longrightarrow>
    map plugin_ids ps' = map plugin_ids ps \<and> list_all plugin_ok ps' \<and> appends (maint I (\<Union> (plugin_ids ` set ps)) ch) b b'"
proof (induction ps arbitrary: ps' b)
  case (Cons p ps)
  then obtain p1 b1 ps1 where p1: "plugin_update I d found p b = Inr (p1, b1)"
    "update_plugins I d found ps b1 = Inr (ps1, b')" "ps' = p1 # ps1"
    by auto
  note u = plugin_update_spec [OF p1(1) assms] Cons.IH [OF p1(2)]
  have "appends (maint I (\<Union> (plugin_ids ` set (p # ps))) ch) b b1"
    "appends (maint I (\<Union> (plugin_ids ` set (p # ps))) ch) b1 b'"
    using u Cons.prems(2) by (auto elim!: appends_mono maint_mono)
  then have "appends (maint I (\<Union> (plugin_ids ` set (p # ps))) ch) b b'" by (rule appends_trans)
  with u Cons.prems(2) p1(3) show ?case by simp
qed simp

lemma send_refreshes_appends:
  assumes "\<And>r. fits (Request_vec ((replicate (ref_org_levels rf) (-1))[0 := ch, 1 := int r]) (ref_req_id rf))"
    and "\<And>r. fits r \<Longrightarrow> \<forall>f. fits (r\<lparr>final_command := f\<rparr>)"
  shows "send_refreshes I rf ch rs b = Inr b' \<Longrightarrow> appends (\<lambda>r. maint I {ref_req_id rf} ch r \<and> fits r) b b'"
proof (induction rs arbitrary: b)
  case (Cons r rs)
  let ?av = "(replicate (ref_org_levels rf) (-1))[0 := ch, 1 := int r]"
  obtain b1 where b1: "priority_send I (Request_vec ?av (ref_req_id rf)) b = Inr (True, b1)"
    "send_refreshes I rf ch rs b1 = Inr b'" "2 \<le> ref_org_levels rf"
    using Cons.prems by (auto simp: refresh_request_def split: if_splits)
  have "vec_at ?av 0 = Some ch" using b1(3) by (cases "ref_org_levels rf") (auto simp: vec_at_def)
  then have "appends (\<lambda>r. maint I {ref_req_id rf} ch r \<and> fits r) b b1"
    using b1(1) assms
    by (auto simp: priority_send_def appends_def maint_def enqueue_def Request_vec_def split: if_splits)
  then show ?case using Cons.IH [OF b1(2)] by (rule appends_trans)
qed simp

lemma AllBankRefresh_tick_spec:
  assumes "AllBankRefresh_tick I ch rf b = Inr (rf', b')"
    and "\<And>r. fits (Request_vec ((replicate (ref_org_levels rf) (-1))[0 := ch, 1 := int r]) (ref_req_id rf))"
    and "\<And>r. fits r \<Longrightarrow> \<forall>f. fits (r\<lparr>final_command := f\<rparr>)"
  shows "ref_req_id rf' = ref_req_id rf \<and> ref_org_levels rf' = ref_org_levels rf
    \<and> appends (\<lambda>r. maint I {ref_req_id rf} ch r \<and> fits r) b b'"
proof -
  let ?rf = "rf\<lparr>ref_clk := ref_clk rf + 1\<rparr>"
  have "appends (\<lambda>r. maint I {ref_req_id rf} ch r \<and> fits r) b b'"
    if "send_refreshes I ?rf ch rs b = Inr b'" for rs
    using send_refreshes_appends [of fits ?rf ch I rs b b'] assms(2,3) that by simp
  with assms(1) show ?thesis by (auto simp: AllBankRefresh_tick_def Let_def split: if_splits)
qed


section \<open>Serving\<close>

definition idl :: "buf_id \<Rightarrow> GenericDRAMController \<Rightarrow> Request list" where
  "idl bi c = map ident (buffer (get_buf bi c))"

definition delete_at :: "nat \<Rightarrow> 'a list \<Rightarrow> 'a list" where
  "delete_at i xs = take i xs @ drop (Suc i) xs"

lemma mset_delete_at: "i < length xs \<Longrightarrow> add_mset (xs ! i) (mset (delete_at i xs)) = mset xs"
proof -
  assume "i < length xs"
  then have "mset xs = mset (take i xs @ xs ! i # drop (Suc i) xs)" by (simp add: id_take_nth_drop [symmetric])
  then show ?thesis by (simp add: delete_at_def)
qed

lemma set_delete_at: "set (delete_at i xs) \<subseteq> set xs"
  by (auto simp: delete_at_def dest: in_set_takeD in_set_dropD)

lemma sorted_wrt_delete_at: "sorted_wrt P xs \<Longrightarrow> sorted_wrt P (delete_at i xs)"
proof (cases "i < length xs")
  case True
  assume "sorted_wrt P xs"
  then have "sorted_wrt P (take i xs @ xs ! i # drop (Suc i) xs)"
    using True by (simp add: id_take_nth_drop [symmetric])
  then show ?thesis by (simp add: delete_at_def sorted_wrt_append)
qed (simp add: delete_at_def)

lemma idents_queued: "idents (queued c) = mset (idl Active c) + mset (idl Priority c) + mset (idl Reads c) + mset (idl Writes c)"
  by (simp add: queued_def idl_def)

lemma length_idl [simp]: "length (idl bi c) = length (buffer (get_buf bi c))"
  by (simp add: idl_def)

lemma get_buf_updates [simp]:
  "get_buf bi (c\<lparr>c_rows := st\<rparr>) = get_buf bi c" "get_buf bi (c\<lparr>pending := ps\<rparr>) = get_buf bi c"
  by (cases bi; simp)+

lemma idl_updates [simp]:
  "idl bi (c\<lparr>c_rows := st\<rparr>) = idl bi c" "idl bi (c\<lparr>pending := ps\<rparr>) = idl bi c"
  by (simp_all add: idl_def)

lemma idl_set_request:
  assumes "snd it < length (buffer (get_buf (fst it) c))" and "ident r = ident (request_at c it)"
  shows "idl bi (set_request it r c) = idl bi c"
proof -
  have "map ident ((buffer b)[i := r]) = map ident (buffer b)" if "i < length (buffer b)" "ident r = ident (buffer b ! i)" for b i
    using that by (simp add: map_update list_update_same_conv)
  from this [of "snd it" "get_buf (fst it) c"] show ?thesis
    using assms by (auto simp: idl_def set_request_def Let_def request_at_def)
qed

lemma idl_remove_request: "idl bi (remove_request it c) = (if bi = fst it then delete_at (snd it) (idl bi c) else idl bi c)"
  by (auto simp: idl_def remove_request_def buf_remove_def delete_at_def take_map drop_map)

lemma idl_nth: "snd it < length (buffer (get_buf (fst it) c)) \<Longrightarrow> idl (fst it) c ! snd it = ident (request_at c it)"
  by (simp add: idl_def request_at_def)

lemma idents_remove_request:
  "snd it < length (buffer (get_buf (fst it) c)) \<Longrightarrow>
   add_mset (ident (request_at c it)) (idents (queued (remove_request it c))) = idents (queued c)"
  unfolding idents_queued
  using mset_delete_at [of "snd it" "idl (fst it) c"] idl_nth [of it c]
  by (cases "fst it") (auto simp: idl_remove_request)

lemma set_request_fields [simp]:
  "pending (set_request it r c) = pending c" "c_clk (set_request it r c) = c_clk c" "m_channel_id (set_request it r c) = m_channel_id c"
  "m_refresh (set_request it r c) = m_refresh c" "m_rowpolicy (set_request it r c) = m_rowpolicy c"
  "m_plugins (set_request it r c) = m_plugins c" "m_bank_addr_idx (set_request it r c) = m_bank_addr_idx c"
  "length (buffer (get_buf bi (set_request it r c))) = length (buffer (get_buf bi c))"
  "max_size (get_buf bi (set_request it r c)) = max_size (get_buf bi c)"
  by (simp_all add: set_request_def Let_def)

lemma remove_request_fields [simp]:
  "pending (remove_request it c) = pending c" "m_channel_id (remove_request it c) = m_channel_id c"
  "m_refresh (remove_request it c) = m_refresh c" "m_rowpolicy (remove_request it c) = m_rowpolicy c"
  "m_plugins (remove_request it c) = m_plugins c" "m_bank_addr_idx (remove_request it c) = m_bank_addr_idx c"
  "max_size (get_buf bi (remove_request it c)) = max_size (get_buf bi c)"
  by (simp_all add: remove_request_def buf_remove_def)

text \<open>What is the same before and after a request is served.\<close>

definition same_parts :: "GenericDRAMController \<Rightarrow> GenericDRAMController \<Rightarrow> bool" where
  "same_parts c c' \<longleftrightarrow> m_channel_id c' = m_channel_id c \<and> m_refresh c' = m_refresh c \<and> m_rowpolicy c' = m_rowpolicy c
     \<and> m_plugins c' = m_plugins c \<and> m_bank_addr_idx c' = m_bank_addr_idx c
     \<and> (\<forall>bi. max_size (get_buf bi c') = max_size (get_buf bi c))"

lemma update_request_stats_eq:
  assumes "update_request_stats I d it c = Inr c'"
  shows "\<exists>st. c' = (set_request it ((request_at c it)\<lparr>is_stat_updated := True\<rparr>) c)\<lparr>c_rows := st\<rparr>"
proof -
  let ?c = "set_request it ((request_at c it)\<lparr>is_stat_updated := True\<rparr>) c"
  have "\<exists>st. ?c = ?c\<lparr>c_rows := st\<rparr>" by (rule exI [of _ "c_rows ?c"]) simp
  with assms show ?thesis
    unfolding update_request_stats_def Let_def by (auto split: if_splits)
qed

definition stats_only :: "buf_id \<times> nat \<Rightarrow> GenericDRAMController \<Rightarrow> GenericDRAMController \<Rightarrow> bool" where
  "stats_only it c c1 \<longleftrightarrow> (\<forall>bi. idl bi c1 = idl bi c) \<and> same_parts c c1 \<and> pending c1 = pending c \<and> c_clk c1 = c_clk c
     \<and> ident (request_at c1 it) = ident (request_at c it) \<and> command (request_at c1 it) = command (request_at c it)
     \<and> snd it < length (buffer (get_buf (fst it) c1))"

lemma serve_stats:
  assumes "(if is_stat_updated (request_at c it) then Inr c else update_request_stats I d it c) = Inr c1"
    and "snd it < length (buffer (get_buf (fst it) c))"
  shows "stats_only it c c1"
proof (cases "is_stat_updated (request_at c it)")
  case True
  with assms show ?thesis by (simp add: stats_only_def same_parts_def)
next
  case False
  let ?c = "set_request it ((request_at c it)\<lparr>is_stat_updated := True\<rparr>) c"
  obtain st where c1: "c1 = ?c\<lparr>c_rows := st\<rparr>"
    using update_request_stats_eq [of I d it c c1] assms(1) False by auto
  have "request_at c1 it = (request_at c it)\<lparr>is_stat_updated := True\<rparr>"
    using request_at_set_request [OF assms(2)] by (simp add: c1 request_at_def)
  moreover have "same_parts c c1" by (simp add: c1 same_parts_def)
  ultimately show ?thesis
    using assms(2) idl_set_request [OF assms(2)] by (simp add: stats_only_def c1)
qed

lemma stats_onlyD:
  assumes "stats_only it c c1"
  shows "\<And>bi. idl bi c1 = idl bi c" and "same_parts c c1" and "pending c1 = pending c"
    and "ident (request_at c1 it) = ident (request_at c it)" and "command (request_at c1 it) = command (request_at c it)"
    and "addr_vec (request_at c1 it) = addr_vec (request_at c it)"
    and "final_command (request_at c1 it) = final_command (request_at c it)"
    and "is_read (request_at c1 it) = is_read (request_at c it)"
    and "snd it < length (buffer (get_buf (fst it) c1))"
  using assms ident_eqD [of "request_at c1 it" "request_at c it"] by (auto simp: stats_only_def is_read_def)

lemma serve_request_cases:
  assumes "serve_request I it c d = Inr (c', d')"
  obtains (Final) c1 t where "(if is_stat_updated (request_at c it) then Inr c else update_request_stats I d it c) = Inr c1"
      "i_issue_command I (command (request_at c1 it)) (addr_vec (request_at c1 it)) d = Inr d'"
      "command (request_at c1 it) = final_command (request_at c1 it)"
      "c' = remove_request it (if is_read (request_at c1 it)
         then (set_request it ((request_at c1 it)\<lparr>depart := t\<rparr>) c1)\<lparr>pending := pending c1 @ [(request_at c1 it)\<lparr>depart := t\<rparr>]\<rparr> else c1)"
  | (Opening) c1 m where "(if is_stat_updated (request_at c it) then Inr c else update_request_stats I d it c) = Inr c1"
      "i_issue_command I (command (request_at c1 it)) (addr_vec (request_at c1 it)) d = Inr d'"
      "command (request_at c1 it) \<noteq> final_command (request_at c1 it)"
      "meta_of I (command (request_at c1 it)) = Inr m" "is_opening m"
      "c' = remove_request it (c1\<lparr>m_active_buffer := snd (enqueue (m_active_buffer c1) (request_at c1 it))\<rparr>)"
  | (Other) m where "(if is_stat_updated (request_at c it) then Inr c else update_request_stats I d it c) = Inr c'"
      "i_issue_command I (command (request_at c' it)) (addr_vec (request_at c' it)) d = Inr d'"
      "command (request_at c' it) \<noteq> final_command (request_at c' it)"
      "meta_of I (command (request_at c' it)) = Inr m" "\<not> is_opening m"
proof -
  obtain c1 d1 where c1: "(if is_stat_updated (request_at c it) then Inr c else update_request_stats I d it c) = Inr c1"
    and d1: "i_issue_command I (command (request_at c1 it)) (addr_vec (request_at c1 it)) d = Inr d1"
    and rest: "(if command (request_at c1 it) = final_command (request_at c1 it)
        then Inr (remove_request it (if type_id (request_at c1 it) = Type_Read
            then (set_request it ((request_at c1 it)\<lparr>depart := c_clk c1 + i_read_latency I d1\<rparr>) c1)\<lparr>pending :=
              pending c1 @ [(request_at c1 it)\<lparr>depart := c_clk c1 + i_read_latency I d1\<rparr>]\<rparr> else c1), d1)
        else bindr (meta_of I (command (request_at c1 it))) (\<lambda>m.
          if is_opening m
          then Inr (remove_request it (c1\<lparr>m_active_buffer := snd (enqueue (m_active_buffer c1) (request_at c1 it))\<rparr>), d1)
          else Inr (c1, d1))) = Inr (c', d')"
    using assms unfolding serve_request_def Let_def by (elim bindrE) (rule that)
  show thesis
  proof (cases "command (request_at c1 it) = final_command (request_at c1 it)")
    case True
    with d1 rest show thesis
      by (intro Final [OF c1 _ True, of "c_clk c1 + i_read_latency I d1"]) (simp_all add: is_read_def)
  next
    case False
    then obtain m where m: "meta_of I (command (request_at c1 it)) = Inr m" using rest by auto
    show thesis
    proof (cases "is_opening m")
      case op: True
      with c1 d1 rest m False show thesis by (intro Opening [OF c1 _ False m op]) simp_all
    next
      case op: False
      with rest m False have "c1 = c'" "d1 = d'" by simp_all
      with Other c1 d1 m op False show thesis by blast
    qed
  qed
qed

lemma same_parts_trans: "same_parts a b \<Longrightarrow> same_parts b c \<Longrightarrow> same_parts a c"
  by (simp add: same_parts_def)

lemma max_size_enqueue_active [simp]:
  "max_size (get_buf bi (c\<lparr>m_active_buffer := snd (enqueue (m_active_buffer c) r)\<rparr>)) = max_size (get_buf bi c)"
  by (cases bi) simp_all

lemma idl_enqueue_active:
  "idl bi (c\<lparr>m_active_buffer := snd (enqueue (m_active_buffer c) r)\<rparr>) =
     (if bi = Active \<and> length (buffer (m_active_buffer c)) \<le> max_size (m_active_buffer c) then idl Active c @ [ident r] else idl bi c)"
  by (cases bi) (auto simp: idl_def enqueue_def)

lemma serve_request_spec:
  assumes "serve_request I it c d = Inr (c', d')" and it: "snd it < length (buffer (get_buf (fst it) c))"
  defines "r \<equiv> request_at c it"
  shows "i_issue_command I (command r) (addr_vec r) d = Inr d'" and "same_parts c c'"
    and "command r = final_command r \<Longrightarrow> (\<forall>bi. idl bi c' = (if bi = fst it then delete_at (snd it) (idl bi c) else idl bi c))
      \<and> map ident (pending c') = map ident (pending c) @ (if is_read r then [ident r] else [])"
    and "command r \<noteq> final_command r \<Longrightarrow> pending c' = pending c \<and> (\<exists>m. meta_of I (command r) = Inr m \<and>
      (if \<not> is_opening m then \<forall>bi. idl bi c' = idl bi c
       else fst it \<noteq> Active \<longrightarrow>
         (\<forall>bi. idl bi c' = (if bi = fst it then delete_at (snd it) (idl bi c)
            else if bi = Active \<and> length (buffer (m_active_buffer c)) \<le> max_size (m_active_buffer c) then idl Active c @ [ident r]
            else idl bi c))))"
proof -
  show "i_issue_command I (command r) (addr_vec r) d = Inr d'"
    using assms(1) by (cases rule: serve_request_cases) (metis r_def stats_onlyD(5,6) [OF serve_stats [OF _ it]])+
  show "same_parts c c'"
    using assms(1)
  proof (cases rule: serve_request_cases)
    case (Final c1 t)
    then show ?thesis
      using stats_onlyD(2) [OF serve_stats [OF Final(1) it]] by (simp add: same_parts_def)
  next
    case (Opening c1 m)
    then show ?thesis
      using stats_onlyD(2) [OF serve_stats [OF Opening(1) it]] by (simp add: same_parts_def)
  next
    case (Other m)
    then show ?thesis using stats_onlyD(2) [OF serve_stats [OF Other(1) it]] by simp
  qed
  show "(\<forall>bi. idl bi c' = (if bi = fst it then delete_at (snd it) (idl bi c) else idl bi c))
      \<and> map ident (pending c') = map ident (pending c) @ (if is_read r then [ident r] else [])"
    if final: "command r = final_command r"
    using assms(1)
  proof (cases rule: serve_request_cases)
    case (Final c1 t)
    note s = stats_onlyD [OF serve_stats [OF Final(1) it]]
    show ?thesis
      using Final(4) s by (auto simp: idl_remove_request idl_set_request r_def)
  next
    case (Opening c1 m)
    then show ?thesis using final stats_onlyD(5,7) [OF serve_stats [OF Opening(1) it]] by (simp add: r_def)
  next
    case (Other m)
    then show ?thesis using final stats_onlyD(5,7) [OF serve_stats [OF Other(1) it]] by (simp add: r_def)
  qed
  show "pending c' = pending c \<and> (\<exists>m. meta_of I (command r) = Inr m \<and>
      (if \<not> is_opening m then \<forall>bi. idl bi c' = idl bi c
       else fst it \<noteq> Active \<longrightarrow>
         (\<forall>bi. idl bi c' = (if bi = fst it then delete_at (snd it) (idl bi c)
            else if bi = Active \<and> length (buffer (m_active_buffer c)) \<le> max_size (m_active_buffer c) then idl Active c @ [ident r]
            else idl bi c))))"
    if final: "command r \<noteq> final_command r"
    using assms(1)
  proof (cases rule: serve_request_cases)
    case (Final c1 t)
    then show ?thesis using final stats_onlyD(5,7) [OF serve_stats [OF Final(1) it]] by (simp add: r_def)
  next
    case (Opening c1 m)
    note s = stats_onlyD [OF serve_stats [OF Opening(1) it]]
    have "max_size (get_buf Active c1) = max_size (get_buf Active c)" using s(2) unfolding same_parts_def by blast
    moreover have "length (buffer (m_active_buffer c1)) = length (buffer (m_active_buffer c))"
      using arg_cong [OF s(1) [of Active], of length] by simp
    ultimately show ?thesis
      using Opening(4-6) s by (auto simp: idl_remove_request idl_enqueue_active r_def)
  next
    case (Other m)
    then show ?thesis using stats_onlyD [OF serve_stats [OF Other(1) it]] by (auto simp: r_def)
  qed
qed

end
