(* ===== verification/Controller_Host.thy ===== *)
theory Controller_Host
  imports Controller_Lemmas
begin

text \<open>
  The contract between a controller and a device with rows (\<open>row_device\<close>), and what a controller
  guarantees on such a device: it only issues the command the device names and is ready for,
  the rows it has activated for a request stay open until the request is served, and no
  request is lost.
\<close>

section \<open>Addresses that name different banks\<close>

lemma rowgroup_sym: "rowgroup_matches n a b = rowgroup_matches n b a"
  unfolding rowgroup_matches_def
proof (rule all_result_cong [OF refl])
  fix i
  show "bindr (of_opt Out_Of_Bounds (vec_at a (int i))) (\<lambda>x. bindr (of_opt Out_Of_Bounds (vec_at b (int i))) (\<lambda>y. Inr (x = y \<or> x = -1 \<or> y = -1)))
    = bindr (of_opt Out_Of_Bounds (vec_at b (int i))) (\<lambda>x. bindr (of_opt Out_Of_Bounds (vec_at a (int i))) (\<lambda>y. Inr (x = y \<or> x = -1 \<or> y = -1)))"
    by (cases "vec_at a (int i)"; cases "vec_at b (int i)") auto
qed

lemma all_result_False: "all_result f xs = Inr False \<Longrightarrow> \<exists>x \<in> set xs. f x = Inr False"
  by (induction xs) (auto split: sum.splits if_splits)

lemma rowgroup_refl: "rowgroup_matches n a a \<noteq> Inr False"
  unfolding rowgroup_matches_def by (auto dest!: all_result_False)

lemma rowgroup_channel:
  assumes "0 \<le> n" and "vec_at a 0 = Some x" and "vec_at b 0 = Some y" and "x \<noteq> y" and "0 \<le> x" and "0 \<le> y"
  shows "rowgroup_matches n a b = Inr False"
proof -
  have "[0..<nat (n + 1)] = 0 # [1..<nat (n + 1)]" using assms(1) by (simp add: upt_conv_Cons)
  then show ?thesis using assms by (simp add: rowgroup_matches_def)
qed

lemma closes_active_False:
  "closes_active n rs a = Inr False \<Longrightarrow> r \<in> set rs \<Longrightarrow> rowgroup_matches n (addr_vec r) a = Inr False"
  by (induction rs) (auto split: if_splits)

definition apart :: "int \<Rightarrow> Request \<Rightarrow> Request \<Rightarrow> bool" where
  "apart n r s \<longleftrightarrow> rowgroup_matches n (addr_vec r) (addr_vec s) = Inr False"

lemma apart_ident [simp]: "apart n (ident r) s = apart n r s" "apart n r (ident s) = apart n r s"
  by (simp_all add: apart_def)


section \<open>The invariant of a controller\<close>

text \<open>A queued request: its final command is the one of its type, and it is for the controller's channel.\<close>

definition good :: "'d IDRAM \<Rightarrow> (int \<Rightarrow> int list \<Rightarrow> bool) \<Rightarrow> int \<Rightarrow> Request \<Rightarrow> bool" where
  "good I fits ch r \<longleftrightarrow> translation_of I (type_id r) = Inr (final_command r) \<and> fits (final_command r) (addr_vec r)
     \<and> vec_at (addr_vec r) 0 = Some ch"

lemma good_ident [simp]: "good I fits ch (ident r) = good I fits ch r"
  by (simp add: good_def)

definition queue_ok :: "'d IDRAM \<Rightarrow> (int \<Rightarrow> int list \<Rightarrow> bool) \<Rightarrow> GenericDRAMController \<Rightarrow> bool" where
  "queue_ok I fits c \<longleftrightarrow> (\<forall>bi. list_all (good I fits (m_channel_id c)) (idl bi c))"

text \<open>The request types a controller sends to itself.\<close>

definition extra_types :: "GenericDRAMController \<Rightarrow> int set" where
  "extra_types c = policy_ids (m_rowpolicy c) \<union> \<Union> (plugin_ids ` set (m_plugins c))"

definition parts_ok :: "'d IDRAM \<Rightarrow> (int \<Rightarrow> int list \<Rightarrow> bool) \<Rightarrow> int \<Rightarrow> GenericDRAMController \<Rightarrow> bool" where
  "parts_ok I fits bank_level c \<longleftrightarrow> m_bank_addr_idx c = bank_level \<and> 0 \<le> m_channel_id c
     \<and> ref_org_levels (m_refresh c) = length (i_levels I)
     \<and> (\<exists>k. ref_req_id (m_refresh c) = int k \<and> k \<noteq> 0 \<and> SpecDef_id (i_requests I) ''all-bank-refresh'' = Inr k)
     \<and> list_all plugin_ok (m_plugins c) \<and> Type_Read \<notin> extra_types c
     \<and> (\<forall>t \<in> extra_types c. \<forall>f a. translation_of I t = Inr f \<longrightarrow> fits f a)"

text \<open>The rows of the activated requests are open, in banks of their own.\<close>

definition active_ok :: "int \<Rightarrow> ('d \<Rightarrow> int list \<Rightarrow> bool) \<Rightarrow> 'd \<Rightarrow> GenericDRAMController \<Rightarrow> bool" where
  "active_ok bank_level row_open d c \<longleftrightarrow>
     list_all (\<lambda>r. row_open d (addr_vec r)) (idl Active c) \<and> sorted_wrt (apart bank_level) (idl Active c)"

definition ctrl_ok ::
  "'d IDRAM \<Rightarrow> int \<Rightarrow> ('d \<Rightarrow> int list \<Rightarrow> bool) \<Rightarrow> (int \<Rightarrow> int list \<Rightarrow> bool) \<Rightarrow> 'd \<Rightarrow> GenericDRAMController \<Rightarrow> bool" where
  "ctrl_ok I bank_level row_open fits d c \<longleftrightarrow> parts_ok I fits bank_level c \<and> queue_ok I fits c
     \<and> active_ok bank_level row_open d c \<and> list_all is_read (pending c)"

lemma outstanding_idl:
  "outstanding c = filter_mset is_read (idents (pending c)) +
     filter_mset is_read (mset (idl Active c) + mset (idl Priority c) + mset (idl Reads c) + mset (idl Writes c))"
proof -
  have "idents (pending c @ queued c) = idents (pending c) + idents (queued c)" by simp
  then show ?thesis unfolding outstanding_def idents_queued by simp
qed


lemma in_delete_at: "x \<in> set (delete_at i xs) \<Longrightarrow> x \<in> set xs"
  by (rule subsetD [OF set_delete_at])

lemma reads_ident: "list_all is_read (map ident rs) = list_all is_read rs"
  by (simp add: list.pred_map o_def)


section \<open>A cycle up to the request it serves\<close>

lemma serve_completed_cases:
  assumes "serve_completed_reads M c = Inr (c', served)"
  obtains (None) "c' = c" "served = None"
  | (Some) r rest q where "pending c = r # rest" "served = Some r" "c' = c\<lparr>pending := rest, c_queues := q\<rparr>"
proof (cases "pending c")
  case Nil
  with assms show thesis by (intro None) (simp_all add: serve_completed_reads_def)
next
  case (Cons r rest)
  show thesis
  proof (cases "depart r \<le> c_clk c")
    case True
    let ?lat = "if depart r - arrive r > 1 then bindr (of_opt Out_Of_Bounds (vec_at (addr_vec r) 0)) (\<lambda>ch.
        bindr (latency_at M (source_id r) ch) (\<lambda>l. Inr (depart r - arrive r + 2 * l))) else Inr 0"
    have "bindr ?lat (\<lambda>l. Inr (c\<lparr>pending := rest,
        c_queues := (c_queues c)\<lparr>s_read_latency := s_read_latency (c_queues c) + l\<rparr>\<rparr>, Some r)) = Inr (c', served)"
      using assms Cons True by (simp add: serve_completed_reads_def del: bindr_Inr)
    then obtain l where "Inr (c\<lparr>pending := rest, c_queues := (c_queues c)\<lparr>s_read_latency := s_read_latency (c_queues c) + l\<rparr>\<rparr>, Some r)
        = (Inr (c', served) :: fault + _)" by (rule bindrE)
    then show thesis by (intro Some [OF Cons]) auto
  next
    case False
    with assms Cons show thesis by (intro None) (simp_all add: serve_completed_reads_def)
  qed
qed

lemma get_buf_stats [simp]: "get_buf bi (c\<lparr>c_queues := q\<rparr>) = get_buf bi c" "get_buf bi (c\<lparr>c_clk := t\<rparr>) = get_buf bi c"
  by (cases bi; simp)+

lemma serve_completed_spec:
  assumes "serve_completed_reads M c = Inr (c', served)"
  shows "pending c = (case served of None \<Rightarrow> [] | Some r \<Rightarrow> [r]) @ pending c'" and "get_buf bi c' = get_buf bi c"
    and "m_channel_id c' = m_channel_id c \<and> m_refresh c' = m_refresh c \<and> m_rowpolicy c' = m_rowpolicy c
      \<and> m_plugins c' = m_plugins c \<and> m_bank_addr_idx c' = m_bank_addr_idx c"
  using assms by (cases rule: serve_completed_cases; simp)+

lemma idl_same: "get_buf bi c' = get_buf bi c \<Longrightarrow> idl bi c' = idl bi c"
  by (simp add: idl_def)

text \<open>The state a cycle reaches before it issues a command.\<close>

definition prepared ::
  "'d IDRAM \<Rightarrow> (int \<Rightarrow> int list \<Rightarrow> bool) \<Rightarrow> GenericDRAMController \<Rightarrow> GenericDRAMController \<Rightarrow> Request option \<Rightarrow> bool" where
  "prepared I fits c c' served \<longleftrightarrow> pending c = (case served of None \<Rightarrow> [] | Some r \<Rightarrow> [r]) @ pending c'
     \<and> (\<forall>bi. bi \<noteq> Priority \<longrightarrow> idl bi c' = idl bi c)
     \<and> (\<exists>rs. idl Priority c' = idl Priority c @ rs \<and> list_all (\<lambda>r. good I fits (m_channel_id c) r \<and> \<not> is_read r) rs)
     \<and> m_channel_id c' = m_channel_id c \<and> (\<forall>bi. max_size (get_buf bi c') = max_size (get_buf bi c))"

lemma appends_idl:
  "appends P b b' \<Longrightarrow> (\<And>r. P r \<Longrightarrow> P (ident r)) \<Longrightarrow> \<exists>rs. map ident (buffer b') = map ident (buffer b) @ rs \<and> list_all P rs"
  by (auto simp: appends_def list_all_iff)


text \<open>A request a cycle has chosen, seen from the state in which it is served.\<close>

definition chosen :: "'d IDRAM \<Rightarrow> 'd \<Rightarrow> GenericDRAMController \<Rightarrow> buf_id \<times> nat \<Rightarrow> bool" where
  "chosen I d c it \<longleftrightarrow> found_ok I d c it \<and> (\<exists>m. meta_of I (command (request_at c it)) = Inr m
     \<and> (is_closing m \<longrightarrow> (\<forall>r \<in> set (idl Active c). rowgroup_matches (m_bank_addr_idx c) (addr_vec r) (addr_vec (request_at c it)) = Inr False)))"

lemma schedule_chosen:
  assumes "schedule_request I d c = Inr (c', Some it)"
  shows "chosen I d c' it"
proof -
  obtain m where m: "meta_of I (command (request_at c' it)) = Inr m"
    "is_closing m \<longrightarrow> closes_active (m_bank_addr_idx c') (buffer (m_active_buffer c')) (addr_vec (request_at c' it)) = Inr False"
    using schedule_request_spec(3) [OF assms] by blast
  then have "is_closing m \<longrightarrow> (\<forall>r \<in> set (idl Active c'). rowgroup_matches (m_bank_addr_idx c') (addr_vec r) (addr_vec (request_at c' it)) = Inr False)"
    using closes_active_False by (fastforce simp: idl_def)
  with m(1) schedule_request_spec(2) [OF assms] show ?thesis by (auto simp: chosen_def)
qed

lemma get_buf_maintenance:
  "get_buf bi (c\<lparr>m_rowpolicy := pol, m_plugins := pls, m_priority_buffer := pb\<rparr>) = (if bi = Priority then pb else get_buf bi c)"
  "get_buf bi (c\<lparr>m_refresh := rf, m_priority_buffer := pb\<rparr>) = (if bi = Priority then pb else get_buf bi c)"
  by (cases bi; simp)+

text \<open>Appending to the priority buffer does not move the chosen request.\<close>

lemma chosen_append:
  fixes pol pls
  assumes "chosen I d c it" and "buffer pb = buffer (m_priority_buffer c) @ rs"
  defines "c' \<equiv> c\<lparr>m_rowpolicy := pol, m_plugins := pls, m_priority_buffer := pb\<rparr>"
  shows "chosen I d c' it" and "request_at c' it = request_at c it"
proof -
  have it: "snd it < length (buffer (get_buf (fst it) c))" using assms(1) by (simp add: chosen_def found_ok_def)
  show req: "request_at c' it = request_at c it"
    using it assms(2) by (auto simp: request_at_def c'_def get_buf_maintenance nth_append)
  have "snd it < length (buffer (get_buf (fst it) c'))"
    using it assms(2) by (auto simp: c'_def get_buf_maintenance)
  moreover have "idl Active c' = idl Active c" "m_bank_addr_idx c' = m_bank_addr_idx c"
    by (simp_all add: c'_def idl_def)
  ultimately show "chosen I d c' it"
    using assms(1) by (simp add: chosen_def found_ok_def req)
qed

text \<open>The parts of a cycle before a request is served, in one statement.\<close>

lemma controller_tick_cases:
  assumes "controller_tick M I c0 d = Inr (c', d', served)"
  obtains c2 rf pb c3 it pol pb1 pls pb2 where
    "serve_completed_reads M (c0\<lparr>c_clk := c_clk c0 + 1, c_queues := count_queues c0 (c_queues c0)\<rparr>) = Inr (c2, served)"
    "AllBankRefresh_tick I (m_channel_id c2) (m_refresh c2) (m_priority_buffer c2) = Inr (rf, pb)"
    "schedule_request I d (c2\<lparr>m_refresh := rf, m_priority_buffer := pb\<rparr>) = Inr (c3, it)"
    "rowpolicy_update I (map_option (request_at c3) it) (m_rowpolicy c3) (m_priority_buffer c3) = Inr (pol, pb1)"
    "update_plugins I d (map_option (request_at c3) it) (m_plugins c3) pb1 = Inr (pls, pb2)"
    "(case it of None \<Rightarrow> Inr (c3\<lparr>m_rowpolicy := pol, m_plugins := pls, m_priority_buffer := pb2\<rparr>, d)
      | Some i \<Rightarrow> serve_request I i (c3\<lparr>m_rowpolicy := pol, m_plugins := pls, m_priority_buffer := pb2\<rparr>) d) = Inr (c', d')"
proof -
  obtain c2 rf pb c3 it pol pb1 pls pb2 served' where *:
    "serve_completed_reads M (c0\<lparr>c_clk := c_clk c0 + 1, c_queues := count_queues c0 (c_queues c0)\<rparr>) = Inr (c2, served')"
    "AllBankRefresh_tick I (m_channel_id c2) (m_refresh c2) (m_priority_buffer c2) = Inr (rf, pb)"
    "schedule_request I d (c2\<lparr>m_refresh := rf, m_priority_buffer := pb\<rparr>) = Inr (c3, it)"
    "rowpolicy_update I (map_option (request_at c3) it) (m_rowpolicy c3) (m_priority_buffer c3) = Inr (pol, pb1)"
    "update_plugins I d (map_option (request_at c3) it) (m_plugins c3) pb1 = Inr (pls, pb2)"
    "(case it of None \<Rightarrow> Inr (c3\<lparr>m_rowpolicy := pol, m_plugins := pls, m_priority_buffer := pb2\<rparr>, d, served')
      | Some i \<Rightarrow> bindr (serve_request I i (c3\<lparr>m_rowpolicy := pol, m_plugins := pls, m_priority_buffer := pb2\<rparr>) d)
          (\<lambda>(c5, d'). Inr (c5, d', served'))) = Inr (c', d', served)" 
    using assms unfolding controller_tick_def Let_def by (elim bindr_pairE) (rule that)
  from *(6) have "served' = served" "(case it of None \<Rightarrow> Inr (c3\<lparr>m_rowpolicy := pol, m_plugins := pls, m_priority_buffer := pb2\<rparr>, d)
      | Some i \<Rightarrow> serve_request I i (c3\<lparr>m_rowpolicy := pol, m_plugins := pls, m_priority_buffer := pb2\<rparr>) d) = Inr (c', d')"
    by (cases it; auto)+
  with *(1-5) that show thesis by blast
qed


section \<open>Devices with rows\<close>

text \<open>A host that follows the device: the command is the one the device names for a request, and it is ready.\<close>

definition follows :: "'d IDRAM \<Rightarrow> 'd \<Rightarrow> int \<Rightarrow> int list \<Rightarrow> int \<Rightarrow> bool" where
  "follows I d f a c \<longleftrightarrow> (\<exists>t. translation_of I t = Inr f) \<and> i_get_preq_command I f a d = Inr c \<and> i_check_ready I c a d = Inr True"

text \<open>
  \<open>row_open d a\<close> says that the bank the address \<open>a\<close> names is open at the row \<open>a\<close> names, \<open>fits f a\<close>
  that the address has the form requests with final command \<open>f\<close> have. The laws: the states of
  the device are kept by its own cycle and by a host that follows it; an open row is closed
  only by a closing command to its bank; a command that prepares an access by opening a row
  opens the row of the access, in a bank in which no row is open; the banks of a channel are at
  most \<open>banks\<close>.
\<close>

locale row_device =
  fixes I :: "'d IDRAM"
    and dev :: "'d \<Rightarrow> bool"
    and bank_level :: int
    and row_open :: "'d \<Rightarrow> int list \<Rightarrow> bool"
    and fits :: "int \<Rightarrow> int list \<Rightarrow> bool"
    and banks :: nat
  assumes bank_level: "0 \<le> bank_level" "SpecDef_id (i_levels I) ''bank'' = Inr (nat bank_level)"
    and open_bound: "dev d \<Longrightarrow> list_all (row_open d) as \<Longrightarrow> sorted_wrt (\<lambda>a b. rowgroup_matches bank_level a b = Inr False) as \<Longrightarrow>
      list_all (\<lambda>a. vec_at a 0 = Some ch) as \<Longrightarrow> length as \<le> banks"
    and tick_dev: "dev d \<Longrightarrow> i_tick I d = Inr d' \<Longrightarrow> dev d'"
    and tick_rows: "dev d \<Longrightarrow> i_tick I d = Inr d' \<Longrightarrow> row_open d a \<Longrightarrow> row_open d' a"
    and issue_dev: "dev d \<Longrightarrow> follows I d f a c \<Longrightarrow> i_issue_command I c a d = Inr d' \<Longrightarrow> dev d'"
    and issue_rows: "dev d \<Longrightarrow> follows I d f a c \<Longrightarrow> fits f a \<Longrightarrow> i_issue_command I c a d = Inr d' \<Longrightarrow> meta_of I c = Inr m \<Longrightarrow>
      row_open d b \<Longrightarrow> (is_closing m \<Longrightarrow> rowgroup_matches bank_level b a = Inr False) \<Longrightarrow> row_open d' b"
    and issue_opens: "dev d \<Longrightarrow> follows I d f a c \<Longrightarrow> c \<noteq> f \<Longrightarrow> i_issue_command I c a d = Inr d' \<Longrightarrow> meta_of I c = Inr m \<Longrightarrow>
      is_opening m \<Longrightarrow> row_open d' a"
    and opening_apart: "dev d \<Longrightarrow> follows I d f a c \<Longrightarrow> c \<noteq> f \<Longrightarrow> i_issue_command I c a d = Inr d' \<Longrightarrow> meta_of I c = Inr m \<Longrightarrow> is_opening m \<Longrightarrow>
      row_open d b \<Longrightarrow> rowgroup_matches bank_level b a = Inr False"
    and access_fits: "t \<in> {Type_Read, Type_Write} \<Longrightarrow> translation_of I t = Inr f \<Longrightarrow> fits f a"
    and refresh_fits: "SpecDef_id (i_requests I) ''all-bank-refresh'' = Inr k \<Longrightarrow> translation_of I (int k) = Inr f \<Longrightarrow>
      fits f ((replicate (length (i_levels I)) (-1))[0 := ch, 1 := r])"
    and refresh_not_read: "SpecDef_id (i_requests I) ''all-bank-refresh'' \<noteq> Inr 0"
begin

lemma refresh_appends:
  assumes "AllBankRefresh_tick I (m_channel_id c) (m_refresh c) b = Inr (rf, b')" and "parts_ok I fits bank_level c"
  shows "ref_req_id rf = ref_req_id (m_refresh c)" and "ref_org_levels rf = ref_org_levels (m_refresh c)"
    and "appends (\<lambda>r. good I fits (m_channel_id c) r \<and> \<not> is_read r) b b'"
proof -
  let ?id = "ref_req_id (m_refresh c)"
  define ok where "ok = (\<lambda>r :: Request. type_id r = ?id \<and> (\<forall>f. translation_of I (type_id r) = Inr f \<longrightarrow> fits f (addr_vec r)))"
  obtain k where k: "?id = int k" "k \<noteq> 0" "SpecDef_id (i_requests I) ''all-bank-refresh'' = Inr k"
    and lev: "ref_org_levels (m_refresh c) = length (i_levels I)"
    using assms(2) by (auto simp: parts_ok_def)
  have ok1: "ok (Request_vec ((replicate (ref_org_levels (m_refresh c)) (-1))[0 := m_channel_id c, 1 := int r]) ?id)" for r
    using refresh_fits [OF k(3)] k(1) by (simp add: ok_def Request_vec_def lev)
  have ok2: "ok r \<Longrightarrow> \<forall>f. ok (r\<lparr>final_command := f\<rparr>)" for r by (simp add: ok_def)
  have t: "ref_req_id rf = ?id \<and> ref_org_levels rf = ref_org_levels (m_refresh c)
      \<and> appends (\<lambda>r. maint I {?id} (m_channel_id c) r \<and> ok r) b b'"
    by (rule AllBankRefresh_tick_spec [where fits = ok, OF assms(1) ok1 ok2])
  show "ref_req_id rf = ref_req_id (m_refresh c)" "ref_org_levels rf = ref_org_levels (m_refresh c)"
    using t by simp_all
  show "appends (\<lambda>r. good I fits (m_channel_id c) r \<and> \<not> is_read r) b b'"
    by (rule appends_mono [OF t [THEN conjunct2, THEN conjunct2]]) (use k in \<open>auto simp: maint_def good_def is_read_def ok_def\<close>)
qed

lemma extra_appends:
  assumes "appends (maint I tys (m_channel_id c)) b b'" and "tys \<subseteq> extra_types c" and "parts_ok I fits bank_level c"
  shows "appends (\<lambda>r. good I fits (m_channel_id c) r \<and> \<not> is_read r) b b'"
  by (rule appends_mono [OF assms(1)]) (use assms(2,3) in \<open>auto simp: maint_def good_def is_read_def parts_ok_def\<close>)

lemma tick_prepared:
  assumes tick: "controller_tick M I c d = Inr (c', d', served)" and parts: "parts_ok I fits bank_level c" and queue: "queue_ok I fits c"
  obtains c4 where "prepared I fits c c4 served" "parts_ok I fits bank_level c4"
    "(c' = c4 \<and> d' = d) \<or> (\<exists>it. chosen I d c4 it \<and> serve_request I it c4 d = Inr (c', d'))"
  using tick
proof (cases rule: controller_tick_cases)
  case (1 c2 rf pb c3 it pol pb1 pls pb2)
  let ?P = "\<lambda>r. good I fits (m_channel_id c) r \<and> \<not> is_read r"
  let ?c4 = "c3\<lparr>m_rowpolicy := pol, m_plugins := pls, m_priority_buffer := pb2\<rparr>"
  note s = serve_completed_spec [OF 1(1)]
  have c2: "parts_ok I fits bank_level c2" "m_channel_id c2 = m_channel_id c" "extra_types c2 = extra_types c"
    using parts s(3) by (simp_all add: parts_ok_def extra_types_def)
  note rf = refresh_appends [OF 1(2) c2(1)]
  let ?c2 = "c2\<lparr>m_refresh := rf, m_priority_buffer := pb\<rparr>"
  note sch = schedule_request_spec(1) [OF 1(3)]
  have c3: "m_channel_id c3 = m_channel_id c" "m_refresh c3 = rf" "m_rowpolicy c3 = m_rowpolicy c2" "m_plugins c3 = m_plugins c2"
    "m_bank_addr_idx c3 = m_bank_addr_idx c2" "pending c3 = pending c2"
    using sch c2(2) by (simp_all add: rescheduled_def)
  have idl3: "idl bi c3 = (if bi = Priority then map ident (buffer pb) else idl bi c)" for bi
    using rescheduled_idents [OF sch, of bi] s(2) [of bi] by (simp add: idl_def get_buf_maintenance)
  obtain rs1 where rs1: "map ident (buffer pb) = idl Priority c @ rs1" "list_all ?P rs1"
    using appends_idl [OF rf(3)] s(2) [of Priority] c2(2) by (auto simp: idl_def)
  have good3: "list_all (good I fits (m_channel_id c)) (idl bi c3)" for bi
    using queue rs1 by (auto simp: idl3 queue_ok_def list_all_iff)
  have found: "vec_at (addr_vec r) 0 = Some (m_channel_id c)" if "map_option (request_at c3) it = Some r" for r
  proof -
    from that obtain i where i: "it = Some i" "r = request_at c3 i" by (cases it) simp_all
    then have "snd i < length (buffer (get_buf (fst i) c3))"
      using schedule_request_spec(2) [OF 1(3)] by (simp add: found_ok_def)
    then have "ident r \<in> set (idl (fst i) c3)" using idl_nth [of i c3] i(2) by (metis length_idl nth_mem)
    then show ?thesis using good3 [of "fst i"] by (auto simp: list_all_iff good_def)
  qed
  note pol = rowpolicy_update_spec [OF 1(4) found]
  have "list_all plugin_ok (m_plugins c3)" using c2(1) c3(4) by (simp add: parts_ok_def)
  note pls = update_plugins_spec [OF found 1(5) this]
  have sub: "policy_ids (m_rowpolicy c3) \<subseteq> extra_types c2" "\<Union> (plugin_ids ` set (m_plugins c3)) \<subseteq> extra_types c2"
    using c3(3,4) by (auto simp: extra_types_def)
  have "appends ?P (m_priority_buffer c3) pb1" "appends ?P pb1 pb2"
    using extra_appends [OF _ sub(1) c2(1), of "m_priority_buffer c3" pb1] extra_appends [OF _ sub(2) c2(1), of pb1 pb2]
      pol pls c2(2) by simp_all
  then have app: "appends ?P (m_priority_buffer c3) pb2" by (rule appends_trans)
  then obtain rs2 where rs2: "map ident (buffer pb2) = idl Priority c3 @ rs2" "list_all ?P rs2"
    using appends_idl [OF app] by (auto simp: idl_def)
  obtain ns where ns: "buffer pb2 = buffer (m_priority_buffer c3) @ ns" using app by (auto simp: appends_def)
  have "\<Union> (plugin_ids ` set pls) = \<Union> (plugin_ids ` set (m_plugins c2))"
    using pls c3(4) by (metis list.set_map)
  then have extra: "extra_types ?c4 = extra_types c2" using pol c3(3) by (simp add: extra_types_def)
  have p4: "parts_ok I fits bank_level ?c4"
    using c2(1,2) c3 rf(1,2) pls extra unfolding parts_ok_def by simp
  have size: "max_size (get_buf bi ?c4) = max_size (get_buf bi c)" for bi
  proof -
    have "max_size (get_buf bi c3) = max_size (get_buf bi ?c2)" using sch by (simp add: rescheduled_def recommanded_def)
    moreover have "max_size (get_buf bi ?c2) = max_size (get_buf bi c)"
      using rf(3) s(2) [of bi] s(2) [of Priority] by (auto simp: get_buf_maintenance appends_def)
    ultimately show ?thesis using app by (auto simp: get_buf_maintenance appends_def)
  qed
  have "idl Priority ?c4 = idl Priority c @ (rs1 @ rs2)" "list_all ?P (rs1 @ rs2)"
    using rs1 rs2 idl3 [of Priority] by (simp_all add: idl_def)
  moreover have "idl bi ?c4 = idl bi c" if "bi \<noteq> Priority" for bi
    using idl3 [of bi] that by (simp add: idl_def get_buf_maintenance)
  ultimately have "prepared I fits c ?c4 served"
    unfolding prepared_def using s(1) c3(1,6) size by auto
  moreover have "(c' = ?c4 \<and> d' = d) \<or> (\<exists>it. chosen I d ?c4 it \<and> serve_request I it ?c4 d = Inr (c', d'))"
  proof (cases it)
    case (Some i)
    have "chosen I d ?c4 i" by (rule chosen_append(1) [OF schedule_chosen [OF 1(3) [unfolded Some]] ns])
    moreover have "serve_request I i ?c4 d = Inr (c', d')" using 1(6) Some by simp
    ultimately show ?thesis by blast
  qed (use 1(6) in auto)
  ultimately show thesis using that p4 by blast
qed

lemma prepared_ok:
  assumes "prepared I fits c c4 served" and "parts_ok I fits bank_level c4" and "ctrl_ok I bank_level row_open fits d c"
  shows "ctrl_ok I bank_level row_open fits d c4"
    and "outstanding c = outstanding c4 + mset (map ident (case served of None \<Rightarrow> [] | Some r \<Rightarrow> [r]))"
proof -
  let ?sv = "case served of None \<Rightarrow> [] | Some r \<Rightarrow> [r]"
  obtain rs where p: "pending c = ?sv @ pending c4" "\<And>bi. bi \<noteq> Priority \<Longrightarrow> idl bi c4 = idl bi c" "m_channel_id c4 = m_channel_id c"
    and rs: "idl Priority c4 = idl Priority c @ rs" "list_all (\<lambda>r. good I fits (m_channel_id c) r \<and> \<not> is_read r) rs"
    using assms(1) unfolding prepared_def by blast
  have "queue_ok I fits c" using assms(3) by (simp add: ctrl_ok_def)
  then have "list_all (good I fits (m_channel_id c4)) (idl bi c4)" for bi
    using p(2,3) rs by (cases "bi = Priority") (auto simp: queue_ok_def list_all_iff)
  then show "ctrl_ok I bank_level row_open fits d c4"
    using assms p by (simp add: ctrl_ok_def queue_ok_def active_ok_def)
  have "filter_mset is_read (mset rs) = {#}" using rs(2) by (auto simp: list_all_iff filter_mset_eq_conv)
  moreover have "list_all is_read ?sv" using assms(3) p(1) by (simp add: ctrl_ok_def)
  then have "filter_mset is_read (idents ?sv) = idents ?sv" by (cases served) auto
  ultimately show "outstanding c = outstanding c4 + idents ?sv"
    by (simp add: outstanding_idl p(1,2) rs(1))
qed

lemma chosen_follows:
  assumes "chosen I d c it" and "queue_ok I fits c"
  shows "good I fits (m_channel_id c) (request_at c it)"
    and "follows I d (final_command (request_at c it)) (addr_vec (request_at c it)) (command (request_at c it))"
proof -
  have it: "snd it < length (buffer (get_buf (fst it) c))" using assms(1) by (simp add: chosen_def found_ok_def)
  then have "ident (request_at c it) \<in> set (idl (fst it) c)" using idl_nth [OF it] by (metis length_idl nth_mem)
  then show good: "good I fits (m_channel_id c) (request_at c it)"
    using assms(2) good_ident unfolding queue_ok_def list_all_iff by blast
  then show "follows I d (final_command (request_at c it)) (addr_vec (request_at c it)) (command (request_at c it))"
    using assms(1) unfolding follows_def chosen_def found_ok_def good_def by blast
qed

lemma serve_rows:
  assumes "dev d" and ok: "ctrl_ok I bank_level row_open fits d c" and ch: "chosen I d c it"
    and issue: "i_issue_command I (command (request_at c it)) (addr_vec (request_at c it)) d = Inr d'"
  shows "dev d'" and "\<And>r. r \<in> set (idl Active c) \<Longrightarrow> row_open d' (addr_vec r)"
    and "\<And>b y. row_open d b \<Longrightarrow> vec_at b 0 = Some y \<Longrightarrow> 0 \<le> y \<Longrightarrow> y \<noteq> m_channel_id c \<Longrightarrow> row_open d' b"
proof -
  let ?r = "request_at c it"
  note q = chosen_follows [OF ch] and ok' = ok [unfolded ctrl_ok_def]
  have good: "good I fits (m_channel_id c) ?r" and fol: "follows I d (final_command ?r) (addr_vec ?r) (command ?r)"
    using q ok' by blast+
  obtain m where m: "meta_of I (command ?r) = Inr m"
    "is_closing m \<Longrightarrow> r \<in> set (idl Active c) \<Longrightarrow> rowgroup_matches bank_level (addr_vec r) (addr_vec ?r) = Inr False" for r
    using ch ok' by (auto simp: chosen_def parts_ok_def)
  show "dev d'" by (rule issue_dev [OF \<open>dev d\<close> fol issue])
  have rows: "row_open d' b" if "row_open d b" "is_closing m \<Longrightarrow> rowgroup_matches bank_level b (addr_vec ?r) = Inr False" for b
    using issue_rows [OF \<open>dev d\<close> fol _ issue m(1) that] good by (simp add: good_def)
  show "row_open d' (addr_vec r)" if "r \<in> set (idl Active c)" for r
    by (rule rows) (use that ok' m(2) in \<open>auto simp: active_ok_def list_all_iff\<close>)
  show "row_open d' b" if "row_open d b" "vec_at b 0 = Some y" "0 \<le> y" "y \<noteq> m_channel_id c" for b y
    by (rule rows [OF that(1)])
      (use rowgroup_channel [OF bank_level(1) that(2)] good ok' that(3,4) in \<open>auto simp: good_def parts_ok_def\<close>)
qed

lemma same_parts_ok: "same_parts c c' \<Longrightarrow> parts_ok I fits bank_level c \<Longrightarrow> parts_ok I fits bank_level c'"
  by (simp add: same_parts_def parts_ok_def extra_types_def)

text \<open>Serving the chosen request keeps the invariant and moves no read out of the controller.\<close>

lemma serve_ok:
  assumes "dev d" and ok: "ctrl_ok I bank_level row_open fits d c" and ch: "chosen I d c it"
    and serve: "serve_request I it c d = Inr (c', d')"
  shows "ctrl_ok I bank_level row_open fits d' c'"
    and "length (buffer (m_active_buffer c)) \<le> max_size (m_active_buffer c) \<Longrightarrow> outstanding c' = outstanding c"
proof -
  let ?r = "request_at c it"
  have it: "snd it < length (buffer (get_buf (fst it) c))" using ch by (simp add: chosen_def found_ok_def)
  note sp = serve_request_spec [OF serve it] and ok' = ok [unfolded ctrl_ok_def]
  note rows = serve_rows [OF \<open>dev d\<close> ok ch sp(1)]
  have fol: "follows I d (final_command ?r) (addr_vec ?r) (command ?r)" and good: "good I fits (m_channel_id c) ?r"
    using chosen_follows [OF ch] ok' by blast+
  have nth: "idl (fst it) c ! snd it = ident ?r" "snd it < length (idl (fst it) c)" using idl_nth [OF it] it by simp_all
  have del: "add_mset (ident ?r) (mset (delete_at (snd it) (idl (fst it) c))) = mset (idl (fst it) c)"
    using mset_delete_at [OF nth(2)] nth(1) by simp
  have fdel: "filter_mset is_read (mset (idl (fst it) c)) =
      (if is_read ?r then {#ident ?r#} else {#}) + filter_mset is_read (mset (delete_at (snd it) (idl (fst it) c)))"
    by (subst del [symmetric]) simp
  have parts: "parts_ok I fits bank_level c'" "m_channel_id c' = m_channel_id c"
    using same_parts_ok [OF sp(2)] ok' sp(2) by (auto simp: same_parts_def)
  have act: "sorted_wrt (apart bank_level) (idl Active c)" and queue: "\<And>bi. list_all (good I fits (m_channel_id c)) (idl bi c)"
    and pend: "list_all is_read (pending c)"
    using ok' by (auto simp: active_ok_def queue_ok_def)
  have "ctrl_ok I bank_level row_open fits d' c' \<and>
    (length (buffer (m_active_buffer c)) \<le> max_size (m_active_buffer c) \<longrightarrow> outstanding c' = outstanding c)"
  proof (cases "command ?r = final_command ?r")
    case True
    note f = sp(3) [OF True]
    have idl': "idl bi c' = (if bi = fst it then delete_at (snd it) (idl bi c) else idl bi c)" for bi using f by blast
    have pend': "map ident (pending c') = map ident (pending c) @ (if is_read ?r then [ident ?r] else [])" using f by blast
    have "list_all is_read (pending c')"
      using pend by (subst reads_ident [symmetric], subst pend') (simp add: reads_ident)
    moreover have "queue_ok I fits c'"
      using queue parts(2) unfolding queue_ok_def list_all_iff idl' by (auto dest: in_delete_at)
    moreover have "active_ok bank_level row_open d' c'"
      using rows(2) act sorted_wrt_delete_at [OF act] unfolding active_ok_def list_all_iff idl' by (auto dest: in_delete_at)
    ultimately have "ctrl_ok I bank_level row_open fits d' c'" using parts by (simp add: ctrl_ok_def)
    moreover have "outstanding c' = outstanding c"
      using fdel unfolding outstanding_idl pend' idl' by (cases "fst it") auto
    ultimately show ?thesis by simp
  next
    case False
    obtain m where m: "meta_of I (command ?r) = Inr m" and e: "if \<not> is_opening m then \<forall>bi. idl bi c' = idl bi c
       else fst it \<noteq> Active \<longrightarrow>
         (\<forall>bi. idl bi c' = (if bi = fst it then delete_at (snd it) (idl bi c)
            else if bi = Active \<and> length (buffer (m_active_buffer c)) \<le> max_size (m_active_buffer c) then idl Active c @ [ident ?r]
            else idl bi c))" and p: "pending c' = pending c"
      using sp(4) [OF False] by blast
    show ?thesis
    proof (cases "is_opening m")
      case op: True
      have open': "row_open d' (addr_vec ?r)" by (rule issue_opens [OF \<open>dev d\<close> fol False sp(1) m op])
      have far: "apart bank_level x ?r" if "x \<in> set (idl Active c)" for x
        using opening_apart [OF \<open>dev d\<close> fol False sp(1) m op, of "addr_vec x"] that ok'
        by (auto simp: apart_def active_ok_def list_all_iff)
      have "fst it \<noteq> Active"
      proof
        assume "fst it = Active"
        then have "ident ?r \<in> set (idl Active c)" using nth by (metis nth_mem)
        from far [OF this] show False using rowgroup_refl by (simp add: apart_def)
      qed
      with e op have e: "\<And>bi. idl bi c' = (if bi = fst it then delete_at (snd it) (idl bi c)
            else if bi = Active \<and> length (buffer (m_active_buffer c)) \<le> max_size (m_active_buffer c) then idl Active c @ [ident ?r]
            else idl bi c)" by simp
      have "list_all (good I fits (m_channel_id c)) (idl bi c')" for bi
        using queue [of bi] good set_delete_at [of "snd it" "idl bi c"] by (auto simp: e list_all_iff)
      moreover have "active_ok bank_level row_open d' c'"
        using \<open>fst it \<noteq> Active\<close> act far rows(2) open' by (auto simp: e active_ok_def list_all_iff sorted_wrt_append)
      moreover have "outstanding c' = outstanding c" if "length (buffer (m_active_buffer c)) \<le> max_size (m_active_buffer c)"
        using that \<open>fst it \<noteq> Active\<close> fdel p by (cases "fst it") (auto simp: outstanding_idl e)
      ultimately show ?thesis using parts pend p by (simp add: ctrl_ok_def queue_ok_def)
    next
      case False
      then have "\<And>bi. idl bi c' = idl bi c" using e by simp
      then show ?thesis
        using ok' parts p rows(2) by (auto simp: ctrl_ok_def queue_ok_def active_ok_def list_all_iff outstanding_idl)
    qed
  qed
  then show "ctrl_ok I bank_level row_open fits d' c'"
    "length (buffer (m_active_buffer c)) \<le> max_size (m_active_buffer c) \<Longrightarrow> outstanding c' = outstanding c" by blast+
qed

lemma ctrl_ok_other:
  assumes "ctrl_ok I bank_level row_open fits d c" and "m_channel_id c \<in> chs"
    and "\<And>b y. row_open d b \<Longrightarrow> vec_at b 0 = Some y \<Longrightarrow> 0 \<le> y \<Longrightarrow> y \<in> chs \<Longrightarrow> row_open d' b"
  shows "ctrl_ok I bank_level row_open fits d' c"
proof -
  have "row_open d' (addr_vec r)" if "r \<in> set (idl Active c)" for r
  proof -
    have "row_open d (addr_vec r)" "vec_at (addr_vec r) 0 = Some (m_channel_id c)" "0 \<le> m_channel_id c"
      using assms(1) that by (auto simp: ctrl_ok_def active_ok_def queue_ok_def parts_ok_def good_def list_all_iff)
    then show ?thesis using assms(2,3) by blast
  qed
  then show ?thesis using assms(1) by (simp add: ctrl_ok_def active_ok_def list_all_iff)
qed

lemma active_bound:
  assumes "dev d" and "ctrl_ok I bank_level row_open fits d c"
  shows "length (buffer (m_active_buffer c)) \<le> banks"
proof -
  have "length (map addr_vec (idl Active c)) \<le> banks"
    by (rule open_bound [OF assms(1), of _ "m_channel_id c"])
      (use assms(2) in \<open>auto simp: ctrl_ok_def active_ok_def queue_ok_def good_def apart_def [abs_def] list_all_iff sorted_wrt_map\<close>)
  then show ?thesis by simp
qed

definition step_ok :: "'d \<Rightarrow> GenericDRAMController \<Rightarrow> 'd \<Rightarrow> GenericDRAMController \<Rightarrow> bool" where
  "step_ok d c d' c' \<longleftrightarrow> dev d' \<and> ctrl_ok I bank_level row_open fits d' c' \<and> m_channel_id c' = m_channel_id c
     \<and> max_size (m_active_buffer c') = max_size (m_active_buffer c)
     \<and> (\<forall>b y. row_open d b \<longrightarrow> vec_at b 0 = Some y \<longrightarrow> 0 \<le> y \<longrightarrow> y \<noteq> m_channel_id c \<longrightarrow> row_open d' b)"

lemma tick_ok:
  assumes "dev d" and ok: "ctrl_ok I bank_level row_open fits d c" and tick: "controller_tick M I c d = Inr (c', d', served)"
  shows "step_ok d c d' c'"
    and "banks \<le> max_size (m_active_buffer c) \<Longrightarrow>
      outstanding c = outstanding c' + idents (case served of None \<Rightarrow> [] | Some r \<Rightarrow> [r])"
proof -
  have "parts_ok I fits bank_level c" "queue_ok I fits c" using ok by (simp_all add: ctrl_ok_def)
  then obtain c4 where c4: "prepared I fits c c4 served" "parts_ok I fits bank_level c4"
    and rest: "(c' = c4 \<and> d' = d) \<or> (\<exists>it. chosen I d c4 it \<and> serve_request I it c4 d = Inr (c', d'))"
    using tick_prepared [OF tick] by blast
  note p = prepared_ok [OF c4 ok]
  have same: "m_channel_id c4 = m_channel_id c" "max_size (m_active_buffer c4) = max_size (m_active_buffer c)"
    using c4(1) get_buf.simps(1) unfolding prepared_def by metis+
  have "step_ok d c4 d' c' \<and> (banks \<le> max_size (m_active_buffer c) \<longrightarrow> outstanding c' = outstanding c4)"
    using rest
  proof (elim disjE exE conjE)
    assume "c' = c4" "d' = d"
    then show ?thesis using p(1) \<open>dev d\<close> by (simp add: step_ok_def)
  next
    fix it
    assume ch: "chosen I d c4 it" and serve: "serve_request I it c4 d = Inr (c', d')"
    have it: "snd it < length (buffer (get_buf (fst it) c4))" using ch by (simp add: chosen_def found_ok_def)
    note sp = serve_request_spec(1,2) [OF serve it] and sv = serve_ok [OF \<open>dev d\<close> p(1) ch serve]
    have "step_ok d c4 d' c'"
      using sv(1) sp(2) serve_rows [OF \<open>dev d\<close> p(1) ch sp(1)] get_buf.simps(1)
      unfolding step_ok_def same_parts_def by metis
    with sv(2) active_bound [OF \<open>dev d\<close> p(1)] same(2) show ?thesis by simp
  qed
  with p(2) same show "step_ok d c d' c'"
    "banks \<le> max_size (m_active_buffer c) \<Longrightarrow> outstanding c = outstanding c' + idents (case served of None \<Rightarrow> [] | Some r \<Rightarrow> [r])"
    by (auto simp: step_ok_def)
qed

end

end
