(* ===== verification/System_Host.thy ===== *)
theory System_Host
  imports Controller_Host
begin

text \<open>
  The runs of a memory system with one controller per channel, on a device with rows. The
  abstract view of a system is the bag of the reads it has accepted and not finished.
\<close>

section \<open>Sending a request\<close>

text \<open>What stays of a request from the frontend to its callback.\<close>

definition origin :: "Request \<Rightarrow> Request" where
  "origin r = (ident r)\<lparr>final_command := -1, arrive := -1\<rparr>"

lemma origin_fields [simp]:
  "type_id (origin r) = type_id r" "addr_vec (origin r) = addr_vec r" "is_read (origin r) = is_read r" "origin (ident r) = origin r"
  by (simp_all add: origin_def ident_def is_read_def)

lemma origin_updates [simp]:
  "origin (r\<lparr>final_command := k\<rparr>) = origin r" "origin (r\<lparr>arrive := t\<rparr>) = origin r" "origin (r\<lparr>depart := t\<rparr>) = origin r"
  by (simp_all add: origin_def ident_def)

abbreviation origins :: "Request multiset \<Rightarrow> Request multiset" where
  "origins M \<equiv> image_mset origin M"

text \<open>The three ways in which a request is accepted.\<close>

inductive accepts :: "'d IDRAM \<Rightarrow> Request \<Rightarrow> GenericDRAMController \<Rightarrow> GenericDRAMController \<Rightarrow> bool"
  for I req c where
  as_forwarded: "origin r = origin req \<Longrightarrow> translation_of I (type_id r) = Inr (final_command r) \<Longrightarrow> is_read r \<Longrightarrow>
    accepts I req c (c\<lparr>c_queues := q, pending := pending c @ [r]\<rparr>)"
| as_queued: "origin r = origin req \<Longrightarrow> translation_of I (type_id r) = Inr (final_command r) \<Longrightarrow> type_id r \<in> {Type_Read, Type_Write} \<Longrightarrow>
    bi = (if type_id r = Type_Read then Reads else Writes) \<Longrightarrow> b = (get_buf bi c)\<lparr>buffer := buffer (get_buf bi c) @ [r]\<rparr> \<Longrightarrow>
    accepts I req c ((set_buf bi b c)\<lparr>c_queues := q\<rparr>)"

lemma accepts_forwarded:
  assumes "type_id req = Type_Read" and "translation_of I Type_Read = Inr f"
  shows "accepts I req c (c\<lparr>c_queues := q, pending := pending c @ [req\<lparr>final_command := f, depart := t\<rparr>]\<rparr>)"
  by (rule as_forwarded) (use assms in \<open>simp_all add: is_read_def\<close>)

lemma accepts_queued:
  assumes "type_id req = t" and "t \<in> {Type_Read, Type_Write}" and "translation_of I t = Inr f"
    and "enqueue (get_buf bi c) (req\<lparr>final_command := f, arrive := u\<rparr>) = (True, b)" and "bi = (if t = Type_Read then Reads else Writes)"
  shows "accepts I req c ((set_buf bi b c)\<lparr>c_queues := q\<rparr>)"
  by (rule as_queued [where r = "req\<lparr>final_command := f, arrive := u\<rparr>"])
    (use assms in \<open>auto simp: enqueue_def split: if_splits\<close>)

lemmas accepts_buffers = accepts_queued [where t = Type_Read and bi = Reads, simplified] accepts_queued [where t = Type_Write and bi = Writes, simplified]

lemma controller_send_cases:
  assumes "controller_send I req c = Inr (ok, req', c')"
  shows "if ok then accepts I req c c' else \<exists>q. c' = c\<lparr>c_queues := q\<rparr>"
proof -
  obtain f where f: "translation_of I (type_id req) = Inr f"
    using assms by (cases "translation_of I (type_id req)") (auto simp: controller_send_def)
  have [simp]: "c\<lparr>c_queues := q, m_read_buffer := b\<rparr> = (c\<lparr>m_read_buffer := b\<rparr>)\<lparr>c_queues := q\<rparr>"
    "c\<lparr>c_queues := q, m_write_buffer := b\<rparr> = (c\<lparr>m_write_buffer := b\<rparr>)\<lparr>c_queues := q\<rparr>" for q b by simp_all
  show ?thesis
    using assms f unfolding controller_send_def
    by (auto simp: Let_def split: if_splits prod.splits intro: accepts_forwarded accepts_buffers)
qed

lemma outstanding_queues [simp]: "outstanding (c\<lparr>c_queues := q\<rparr>) = outstanding c"
  by (simp add: outstanding_def queued_def)

lemma outstanding_set_buf:
  assumes "b = (get_buf bi c)\<lparr>buffer := buffer (get_buf bi c) @ [r]\<rparr>"
  shows "outstanding (set_buf bi b c) = outstanding c + (if is_read r then {#ident r#} else {#})"
proof -
  have "idents (queued (set_buf bi b c)) = idents (queued c) + {#ident r#}"
    using queued_set_buf [of bi b c] by (simp add: assms)
  then show ?thesis by (simp add: outstanding_def)
qed

lemma origin_typeD: "origin r = origin req \<Longrightarrow> type_id r = type_id req \<and> is_read r = is_read req \<and> addr_vec r = addr_vec req"
  using origin_fields by metis

lemma send_outstanding:
  assumes "controller_send I req c = Inr (ok, req', c')"
  shows "origins (outstanding c') = origins (outstanding c) + (if ok \<and> is_read req then {#origin req#} else {#})"
proof (cases ok)
  case True
  then have "accepts I req c c'" using controller_send_cases [OF assms] by simp
  then show ?thesis
  proof cases
    case (as_forwarded r q)
    then have "outstanding c' = outstanding c + {#ident r#}" by (simp add: outstanding_def queued_def)
    then show ?thesis using True as_forwarded origin_typeD [OF as_forwarded(2)] by simp
  next
    case (as_queued r bi b q)
    then have "outstanding c' = outstanding c + (if is_read r then {#ident r#} else {#})"
      using outstanding_set_buf [OF as_queued(6)] by simp
    then show ?thesis using True as_queued(2) origin_typeD [OF as_queued(2)] by simp
  qed
next
  case False
  then show ?thesis using controller_send_cases [OF assms] by auto
qed

lemma queues_same [simp]:
  "idl bi (c\<lparr>c_queues := q, pending := ps\<rparr>) = idl bi c" "idl bi (c\<lparr>c_queues := q\<rparr>) = idl bi c"
  by (cases bi; simp add: idl_def)+

lemma get_buf_pending [simp]: "get_buf bi (c\<lparr>c_queues := q, pending := ps\<rparr>) = get_buf bi c"
  by (cases bi) simp_all

lemma send_parts:
  assumes "controller_send I req c = Inr (ok, req', c')"
  shows "same_parts c c'" and "idl Active c' = idl Active c"
    and "list_all is_read (pending c) \<Longrightarrow> list_all is_read (pending c')"
    and "r \<in> set (idl bi c') \<Longrightarrow> r \<in> set (idl bi c) \<or> (origin r = origin req
      \<and> translation_of I (type_id r) = Inr (final_command r) \<and> type_id r \<in> {Type_Read, Type_Write})"
proof -
  have "same_parts c c' \<and> idl Active c' = idl Active c \<and> (list_all is_read (pending c) \<longrightarrow> list_all is_read (pending c'))
    \<and> (r \<in> set (idl bi c') \<longrightarrow> r \<in> set (idl bi c) \<or> (origin r = origin req
      \<and> translation_of I (type_id r) = Inr (final_command r) \<and> type_id r \<in> {Type_Read, Type_Write}))"
  proof (cases ok)
    case True
    then have "accepts I req c c'" using controller_send_cases [OF assms] by simp
    then show ?thesis
      by cases (auto simp: same_parts_def idl_def)
  next
    case False
    then show ?thesis using controller_send_cases [OF assms] by (auto simp: same_parts_def)
  qed
  then show "same_parts c c'" "idl Active c' = idl Active c"
    "list_all is_read (pending c) \<Longrightarrow> list_all is_read (pending c')"
    "r \<in> set (idl bi c') \<Longrightarrow> r \<in> set (idl bi c) \<or> (origin r = origin req
      \<and> translation_of I (type_id r) = Inr (final_command r) \<and> type_id r \<in> {Type_Read, Type_Write})"
    by blast+
qed


section \<open>Runs of a memory system\<close>

text \<open>
  A run of \<^verbatim>\<open>send\<close> and \<^verbatim>\<open>tick\<close> calls, with the reads that were accepted (after address mapping)
  and the reads that were finished, in order.
\<close>

inductive sys_run ::
  "int list list \<Rightarrow> 'd IDRAM \<Rightarrow> (Request \<Rightarrow> Request result) \<Rightarrow> 'd GenericDRAMSystem \<Rightarrow>
    'd GenericDRAMSystem \<Rightarrow> Request list \<Rightarrow> Request list \<Rightarrow> bool"
  for M I mapper s0 where
  run_start: "sys_run M I mapper s0 s0 [] []"
| run_send: "sys_run M I mapper s0 s acc done \<Longrightarrow> mapper req = Inr mapped \<Longrightarrow> system_send I mapper req s = Inr (ok, s') \<Longrightarrow>
    sys_run M I mapper s0 s' (if ok \<and> is_read mapped then acc @ [mapped] else acc) done"
| run_tick: "sys_run M I mapper s0 s acc done \<Longrightarrow> system_tick M I s = Inr (s', served) \<Longrightarrow>
    sys_run M I mapper s0 s' acc (done @ served)"

text \<open>The bag of reads a system has accepted and not finished.\<close>

definition reads_in_flight :: "GenericDRAMController list \<Rightarrow> Request multiset" where
  "reads_in_flight cs = sum_list (map outstanding cs)"

lemma reads_in_flight_update:
  assumes "i < length cs"
  shows "reads_in_flight (cs[i := c]) + outstanding (cs ! i) = reads_in_flight cs + outstanding c"
  using assms unfolding reads_in_flight_def
  by (induction cs arbitrary: i) (auto simp: nth_Cons' ac_simps list_update_def split: nat.splits)

lemma origins_reads_in_flight: "origins (reads_in_flight cs) = sum_list (map (\<lambda>c. origins (outstanding c)) cs)"
  by (induction cs) (simp_all add: reads_in_flight_def)


context row_device
begin

lemma send_ok:
  assumes send: "controller_send I req c = Inr (ok, req', c')" and "vec_at (addr_vec req) 0 = Some (m_channel_id c)"
    and c: "ctrl_ok I bank_level row_open fits d c"
  shows "ctrl_ok I bank_level row_open fits d c'"
proof -
  note p = send_parts [OF send]
  have ch: "m_channel_id c' = m_channel_id c" using p(1) by (simp add: same_parts_def)
  have "good I fits (m_channel_id c') r" if "r \<in> set (idl bi c')" for r bi
    using p(4) [OF that]
  proof
    assume "r \<in> set (idl bi c)"
    then show ?thesis using c ch by (auto simp: ctrl_ok_def queue_ok_def list_all_iff)
  next
    assume r: "origin r = origin req \<and> translation_of I (type_id r) = Inr (final_command r) \<and> type_id r \<in> {Type_Read, Type_Write}"
    then have "addr_vec r = addr_vec req" using origin_typeD by blast
    with r access_fits [of "type_id r" "final_command r"] show ?thesis using assms(2) ch by (simp add: good_def)
  qed
  then have "queue_ok I fits c'" by (auto simp: queue_ok_def list_all_iff)
  moreover have "parts_ok I fits bank_level c'" using same_parts_ok [OF p(1)] c by (simp add: ctrl_ok_def)
  ultimately show ?thesis using c p(2,3) by (simp add: ctrl_ok_def active_ok_def)
qed

text \<open>The invariant of a system: its controllers are those of the channels, in order.\<close>

definition sys_ok :: "'d GenericDRAMSystem \<Rightarrow> bool" where
  "sys_ok s \<longleftrightarrow> dev (sys_dram s) \<and> map m_channel_id (sys_controllers s) = map int [0..<length (sys_controllers s)]
     \<and> list_all (ctrl_ok I bank_level row_open fits (sys_dram s)) (sys_controllers s)
     \<and> list_all (\<lambda>c. banks \<le> max_size (m_active_buffer c)) (sys_controllers s)"

lemma tick_controllers_ok:
  assumes "tick_controllers M I cs d = Inr (cs', d', served)" and "dev d" and "distinct (map m_channel_id cs)"
    and "list_all (ctrl_ok I bank_level row_open fits d) cs" and "list_all (\<lambda>c. banks \<le> max_size (m_active_buffer c)) cs"
  shows "dev d' \<and> map m_channel_id cs' = map m_channel_id cs \<and> list_all (ctrl_ok I bank_level row_open fits d') cs'
    \<and> list_all (\<lambda>c. banks \<le> max_size (m_active_buffer c)) cs'
    \<and> (\<forall>b y. row_open d b \<longrightarrow> vec_at b 0 = Some y \<longrightarrow> 0 \<le> y \<longrightarrow> y \<notin> m_channel_id ` set cs \<longrightarrow> row_open d' b)
    \<and> reads_in_flight cs = reads_in_flight cs' + idents served"
  using assms
proof (induction cs arbitrary: d cs' d' served)
  case Nil
  then show ?case by (simp add: reads_in_flight_def)
next
  case (Cons c cs)
  obtain c' d1 sv cs1 rest where 1: "controller_tick M I c d = Inr (c', d1, sv)" and 2: "tick_controllers M I cs d1 = Inr (cs1, d', rest)"
    and eq: "cs' = c' # cs1" "served = (case sv of None \<Rightarrow> rest | Some req \<Rightarrow> req # rest)"
    using Cons.prems(1) by (auto elim!: bindr_pairE)
  have c: "ctrl_ok I bank_level row_open fits d c" "banks \<le> max_size (m_active_buffer c)" using Cons.prems by simp_all
  have t: "step_ok d c d1 c'" "outstanding c = outstanding c' + idents (case sv of None \<Rightarrow> [] | Some r \<Rightarrow> [r])"
    using tick_ok [OF Cons.prems(2) c(1) 1] c(2) by simp_all
  have "ctrl_ok I bank_level row_open fits d1 e" if "e \<in> set cs" for e
    by (rule ctrl_ok_other [where d = d and chs = "- {m_channel_id c}"])
      (use that Cons.prems(3,4) t(1) in \<open>auto simp: list_all_iff step_ok_def image_iff\<close>)
  then have rec: "dev d'" "map m_channel_id cs1 = map m_channel_id cs" "list_all (ctrl_ok I bank_level row_open fits d') cs1"
    "list_all (\<lambda>c. banks \<le> max_size (m_active_buffer c)) cs1"
    "\<And>b y. row_open d1 b \<Longrightarrow> vec_at b 0 = Some y \<Longrightarrow> 0 \<le> y \<Longrightarrow> y \<notin> m_channel_id ` set cs \<Longrightarrow> row_open d' b"
    "reads_in_flight cs = reads_in_flight cs1 + idents rest"
    using Cons.IH [OF 2] Cons.prems(3,5) t(1) by (simp_all add: step_ok_def list_all_iff) 
  have "ctrl_ok I bank_level row_open fits d' c'"
    by (rule ctrl_ok_other [where d = d1 and chs = "- m_channel_id ` set cs"])
      (use Cons.prems(3) t(1) rec(5) in \<open>auto simp: step_ok_def\<close>)
  moreover have "reads_in_flight (c # cs) = reads_in_flight cs' + idents served"
    using t(2) rec(6) by (cases sv) (simp_all add: eq reads_in_flight_def)
  ultimately show ?case using rec t(1) c(2) by (auto simp: eq step_ok_def)
qed

lemma system_tick_ok:
  assumes "sys_ok s" and "system_tick M I s = Inr (s', served)"
  shows "sys_ok s'" and "reads_in_flight (sys_controllers s) = reads_in_flight (sys_controllers s') + idents served"
proof -
  obtain d cs d' where d: "i_tick I (sys_dram s) = Inr d" and t: "tick_controllers M I (sys_controllers s) d = Inr (cs, d', served)"
    and s': "s' = s\<lparr>sys_clk := sys_clk s + 1, sys_dram := d', sys_controllers := cs\<rparr>"
    using assms(2) by (auto simp: system_tick_def elim!: bindrE)
  have dev: "dev (sys_dram s)" "dev d" using assms(1) tick_dev [OF _ d] by (simp_all add: sys_ok_def)
  have "ctrl_ok I bank_level row_open fits d c" if "c \<in> set (sys_controllers s)" for c
    by (rule ctrl_ok_other [where d = "sys_dram s" and chs = UNIV])
      (use that assms(1) tick_rows [OF dev(1) d] in \<open>auto simp: sys_ok_def list_all_iff\<close>)
  moreover have "distinct (map m_channel_id (sys_controllers s))" "list_all (\<lambda>c. banks \<le> max_size (m_active_buffer c)) (sys_controllers s)"
    using assms(1) by (simp_all add: sys_ok_def distinct_map)
  ultimately have r: "dev d'" "map m_channel_id cs = map m_channel_id (sys_controllers s)"
    "list_all (ctrl_ok I bank_level row_open fits d') cs" "list_all (\<lambda>c. banks \<le> max_size (m_active_buffer c)) cs"
    "reads_in_flight (sys_controllers s) = reads_in_flight cs + idents served"
    using tick_controllers_ok [OF t dev(2)] by (simp_all add: list_all_iff)
  moreover have "length cs = length (sys_controllers s)" using map_eq_imp_length_eq [OF r(2)] .
  ultimately show "sys_ok s'" "reads_in_flight (sys_controllers s) = reads_in_flight (sys_controllers s') + idents served"
    using assms(1) by (simp_all add: s' sys_ok_def)
qed

lemma system_send_ok:
  assumes s: "sys_ok s" and "mapper req = Inr mapped" and "system_send I mapper req s = Inr (ok, s')"
  shows "sys_ok s'" and "origins (reads_in_flight (sys_controllers s')) =
    origins (reads_in_flight (sys_controllers s)) + (if ok \<and> is_read mapped then {#origin mapped#} else {#})"
proof -
  obtain ch c req' c' where ch: "vec_at (addr_vec mapped) 0 = Some ch" and c: "vec_at (sys_controllers s) ch = Some c"
    and send: "controller_send I mapped c = Inr (ok, req', c')"
    and s': "sys_controllers s' = (sys_controllers s)[nat ch := c']" "sys_dram s' = sys_dram s"
    using assms(2,3) by (auto simp: system_send_def count_accepted_def Let_def elim!: bindrE split: if_splits)
  have i: "nat ch < length (sys_controllers s)" "c = sys_controllers s ! nat ch" "0 \<le> ch"
    using c by (auto simp: vec_at_Some)
  have "map m_channel_id (sys_controllers s) ! nat ch = map int [0..<length (sys_controllers s)] ! nat ch"
    using s by (simp add: sys_ok_def)
  then have id: "m_channel_id c = ch" using i by simp
  have c_ok: "ctrl_ok I bank_level row_open fits (sys_dram s) c" using s i by (auto simp: sys_ok_def list_all_iff)
  note c'_ok = send_ok [OF send _ c_ok] and parts = send_parts(1) [OF send]
  have "map m_channel_id ((sys_controllers s)[nat ch := c']) = map m_channel_id (sys_controllers s)"
    using parts i by (simp add: same_parts_def map_update list_update_same_conv)
  then show "sys_ok s'"
    using s c'_ok ch id parts i get_buf.simps(1)
    by (auto simp: sys_ok_def s' list_all_iff same_parts_def dest!: set_update_subset_insert [THEN subsetD])
      (metis get_buf.simps(1) nth_mem)
  have "origins (reads_in_flight (sys_controllers s')) + origins (outstanding c) = origins (reads_in_flight (sys_controllers s)) + origins (outstanding c')"
    using reads_in_flight_update [OF i(1), of c'] i(2) s'(1) by (metis image_mset_union)
  then show "origins (reads_in_flight (sys_controllers s')) =
    origins (reads_in_flight (sys_controllers s)) + (if ok \<and> is_read mapped then {#origin mapped#} else {#})"
    using send_outstanding [OF send] by (simp add: ac_simps)
qed

text \<open>The requests a row policy and plugins send to their controller have a form the device accepts.\<close>

definition extras_ok :: "rowpolicy \<Rightarrow> plugin list \<Rightarrow> bool" where
  "extras_ok policy plugins \<longleftrightarrow> list_all plugin_ok plugins
     \<and> (\<forall>t \<in> policy_ids policy \<union> \<Union> (plugin_ids ` set plugins). t \<noteq> Type_Read \<and> (\<forall>f a. translation_of I t = Inr f \<longrightarrow> fits f a))"

lemma controller_setup_ok:
  assumes "controller_setup I d (int i) low high policy plugins cores = Inr c" and "extras_ok policy plugins"
  shows "ctrl_ok I bank_level row_open fits d' c" and "m_channel_id c = int i" and "max_size (m_active_buffer c) = 32" and "outstanding c = {#}"
proof -
  obtain rf where rf: "AllBankRefresh_setup I d = Inr rf"
    and eq: "m_channel_id c = int i" "pending c = []" "buffer (m_active_buffer c) = []" "buffer (m_priority_buffer c) = []"
      "buffer (m_read_buffer c) = []" "buffer (m_write_buffer c) = []" "m_bank_addr_idx c = bank_level" "m_refresh c = rf"
      "m_rowpolicy c = policy" "m_plugins c = plugins" "max_size (m_active_buffer c) = 32"
    using assms(1) bank_level by (auto simp: controller_setup_def empty_ReqBuffer_def elim!: bindrE)
  obtain k where k: "SpecDef_id (i_requests I) ''all-bank-refresh'' = Inr k" "ref_req_id rf = int k" "ref_org_levels rf = length (i_levels I)"
    using rf by (auto simp: AllBankRefresh_setup_def elim!: bindrE)
  have "parts_ok I fits bank_level c"
    using assms(2) k refresh_not_read eq by (auto simp: parts_ok_def extra_types_def extras_ok_def)
  moreover have "idl bi c = []" for bi by (cases bi) (simp_all add: idl_def eq)
  ultimately show "ctrl_ok I bank_level row_open fits d' c"
    by (simp add: ctrl_ok_def queue_ok_def active_ok_def eq)
  show "m_channel_id c = int i" "max_size (m_active_buffer c) = 32" "outstanding c = {#}"
    by (simp_all add: eq outstanding_def queued_def)
qed

lemma system_init_ok:
  assumes "system_init I d low high policy plugins cores = Inr s" and "dev d" and "extras_ok policy plugins" and "banks \<le> 32"
  shows "sys_ok s" and "reads_in_flight (sys_controllers s) = {#}" and "sys_dram s = d"
proof -
  obtain n where cs: "map_result (\<lambda>i. controller_setup I d (int i) low high policy plugins cores) [0..<n] = Inr (sys_controllers s)"
    and d: "sys_dram s = d"
    using assms(1) by (auto simp: system_init_def elim!: bindrE)
  let ?cs = "sys_controllers s"
  have len: "length ?cs = n" and each: "\<And>i. i < n \<Longrightarrow> controller_setup I d (int i) low high policy plugins cores = Inr (?cs ! i)"
    using cs by (auto simp: map_result_Inr list_all2_conv_all_nth)
  note ok = controller_setup_ok [OF each assms(3)]
  have c_ok: "ctrl_ok I bank_level row_open fits d c" "max_size (m_active_buffer c) = 32" "outstanding c = {#}" if "c \<in> set ?cs" for c
    using that ok len by (auto simp: in_set_conv_nth)
  have "map m_channel_id ?cs = map int [0..<length ?cs]" using ok len by (auto intro: nth_equalityI)
  then show "sys_ok s" using c_ok assms(2,4) by (simp add: sys_ok_def d list_all_iff)
  show "reads_in_flight ?cs = {#}" using c_ok(3) by (simp add: reads_in_flight_def cong: map_cong)
  show "sys_dram s = d" by (rule d)
qed

lemma run_ok:
  assumes "sys_run M I mapper s0 s acc done" and "sys_ok s0" and "reads_in_flight (sys_controllers s0) = {#}"
  shows "sys_ok s" and "origins (mset acc) = origins (mset done) + origins (reads_in_flight (sys_controllers s))"
proof -
  have "sys_ok s \<and> origins (mset acc) = origins (mset done) + origins (reads_in_flight (sys_controllers s))"
    using assms(1)
  proof induction
    case run_start
    then show ?case using assms(2,3) by simp
  next
    case (run_send s acc don req mapped ok s')
    with system_send_ok [of s mapper req mapped ok s'] show ?case by simp
  next
    case (run_tick s acc don s' served)
    with system_tick_ok [of s M s' served] show ?case
      by (simp add: multiset.map_comp comp_def)
  qed
  then show "sys_ok s" "origins (mset acc) = origins (mset done) + origins (reads_in_flight (sys_controllers s))" by simp_all
qed

end

end
