(* ===== verification/Controller_DDR4.thy ===== *)
theory Controller_DDR4
  imports System_Host
begin

text \<open>
  The memory system on the DDR4 device. The DDR4 model satisfies the contract of a device with
  rows, so what the controllers guarantee on such a device holds for it: the commands they
  issue follow the DDR4 protocol, activated rows stay open, and reads are neither lost nor
  duplicated.
\<close>

section \<open>Open rows of the DDR4 device\<close>

definition open_row :: "DDR4 \<Rightarrow> nat list \<Rightarrow> int \<Rightarrow> bool" where
  "open_row d q r \<longleftrightarrow> m_state (d_nodes d q) = st_opened DDR4_std \<and> m_row_state (d_nodes d q) r \<noteq> None"

lemma issue_preq:
  assumes "DDR4_get_preq_command final a d = Inr c" and "DDR4_issue_command c a d = Inr d'"
  shows "get_preq_command (DDR4_spec d) final a (d_clk d) [nat (a ! 0)] (d_nodes d) = Inr c"
  using assms(1) issue_command_eq(5) [OF assms(2)] by (simp add: DDR4_get_preq_command_def)

lemma issue_to_bank:
  assumes ok: "org_ok (d_org d)" and final: "final \<in> {0, 1, 3, 4}"
    and preq: "DDR4_get_preq_command final a d = Inr c" and issue: "DDR4_issue_command c a d = Inr d'"
  obtains ra bg ba where "names_bank (d_org d) a (nat (a ! 0)) ra bg ba" "c \<in> {0, 1, final}" "final = 1 \<Longrightarrow> c = 1"
    "c = 0 \<Longrightarrow> final \<noteq> 0 \<Longrightarrow> m_state (d_nodes d [nat (a ! 0), ra, bg, ba]) \<noteq> 0"
    "c = 0 \<Longrightarrow> open_row d' [nat (a ! 0), ra, bg, ba] (the (vec_at a 4))"
    "\<forall>q r. open_row d q r \<longrightarrow> (c = 1 \<longrightarrow> q \<noteq> [nat (a ! 0), ra, bg, ba]) \<longrightarrow> open_row d' q r"
proof -
  let ?ch = "nat (a ! 0)"
  obtain ra bg ba where bank: "names_bank (d_org d) a ?ch ra bg ba"
    and f: "(if final = 1 then RequireBankClosed DDR4_std else RequireRowOpen DDR4_std) (d_nodes d) [?ch, ra, bg, ba] final a (d_clk d) = Inr (Some c)"
    using preq_of_bank_command [OF ok final issue_preq [OF preq issue]] by blast
  obtain row where row: "vec_at a 4 = Some row" using bank by (auto simp: names_bank_def)
  have c: "c \<in> {0, 1, final}" "final = 1 \<Longrightarrow> c = 1" "c = 0 \<Longrightarrow> final \<noteq> 0 \<Longrightarrow> m_state (d_nodes d [?ch, ra, bg, ba]) \<noteq> 0"
    using f row by (auto simp: RequireRowOpen_def RequireBankClosed_def split: if_splits)
  obtain s where s: "update_states (DDR4_spec d) c a (d_clk d) [?ch] s = Inr (d_nodes d')"
    and same: "\<forall>q. m_state (s q) = m_state (d_nodes d q) \<and> m_row_state (s q) = m_row_state (d_nodes d q)"
    using issue_states [OF issue] by blast
  have "c \<in> {0, 1, 3, 4}" using c final by auto
  note eff = states_of_bank_command [OF ok this bank s]
  show thesis
    by (rule that [OF bank c]) (use eff same row in \<open>auto simp: open_row_def Bank_ACT_def Bank_PRE_def close_bank_def split: if_splits\<close>)
qed

lemma issue_to_rank:
  assumes inv: "banks_inv d" and preq: "DDR4_get_preq_command 7 a d = Inr c" and issue: "DDR4_issue_command c a d = Inr d'"
  obtains ra where "names_rank (d_org d) a (nat (a ! 0)) ra" "c \<in> {2, 7}"
    "\<forall>q r. is_bank d q \<longrightarrow> open_row d q r \<longrightarrow> (c = 2 \<longrightarrow> take 2 q \<noteq> [nat (a ! 0), ra]) \<longrightarrow> open_row d' q r"
proof -
  let ?ch = "nat (a ! 0)"
  have ok: "org_ok (d_org d)" using inv by (simp add: banks_inv_def)
  obtain ra where rank: "names_rank (d_org d) a ?ch ra"
    and c: "c = rank_banks_closed DDR4_std (d_nodes d) 7 (descendants (org_children (d_org d)) 2 [?ch, ra])"
    using preq_of_refresh [OF ok issue_preq [OF preq issue]] by blast
  note cc = rank_banks_closed_cases [OF c [symmetric]]
  let ?qs = "set (descendants (org_children (d_org d)) 2 [?ch, ra])"
  have closed: "m_state (d_nodes d q) \<noteq> 0" if "c = 7" "q \<in> ?qs" for q
    using refresh_finds_closed [OF inv rank that(2)] cc that(1) by auto
  obtain s where s: "update_states (DDR4_spec d) c a (d_clk d) [?ch] s = Inr (d_nodes d')"
    and same: "\<forall>q. m_state (s q) = m_state (d_nodes d q) \<and> m_row_state (s q) = m_row_state (d_nodes d q)"
    using issue_states [OF issue] by blast
  have "c \<in> {2, 7, 8}" using cc by auto
  note eff = states_of_rank_command [OF ok this rank s]
  have "q \<notin> ?qs" if "take 2 q \<noteq> [?ch, ra]" for q using that by (auto simp: rank_banks)
  then have "open_row d' q r" if "open_row d q r" "c = 2 \<Longrightarrow> take 2 q \<noteq> [?ch, ra]" for q r
    using that closed [of q] eff same cc
    by (auto simp: open_row_def Rank_PREab_def Rank_REFab_def update_descendants)
  with cc show thesis by (intro that [OF rank]) auto
qed

lemma tick_open_row:
  assumes inv: "banks_inv d" and tick: "DDR4_tick d = Inr d'" and q: "is_bank d q" "open_row d q r"
  shows "open_row d' q r"
proof -
  obtain rest d1 where run: "run_future_actions (d_future_actions d) (d\<lparr>d_clk := d_clk d + 1\<rparr>) = Inr (rest, d1)"
    and d': "d' = d1\<lparr>d_future_actions := rest\<rparr>"
    using tick by (auto simp: DDR4_tick_def split: sum.splits)
  have "d_nodes d1 q = (if \<exists>fa \<in> set (d_future_actions d). fa_clk fa = d_clk d + 1 \<and> q \<in> fa_banks (d_org d) fa
      then (d_nodes d q)\<lparr>m_state := 1\<rparr> else d_nodes d q)"
    using run_future_actions_effect [OF run, of q] inv
    by (simp add: banks_inv_def list_all_iff fa_ok_def channel_of_same [of "d\<lparr>d_clk := d_clk d + 1\<rparr>" d]) blast
  moreover have "\<not> (\<exists>fa \<in> set (d_future_actions d). q \<in> fa_banks (d_org d) fa)"
    using inv q by (auto simp: banks_inv_def open_row_def)
  ultimately show ?thesis using q(2) by (auto simp: open_row_def d')
qed


section \<open>Addresses that match\<close>

lemma rowgroup_levels: "[0..<4] = [0, 1, 2, 3 :: nat]"
  by code_simp

lemma rowgroup_vec:
  assumes "vec_at a 0 = Some a0" "vec_at a 1 = Some a1" "vec_at a 2 = Some a2" "vec_at a 3 = Some a3"
    and "vec_at b 0 = Some b0" "vec_at b 1 = Some b1" "vec_at b 2 = Some b2" "vec_at b 3 = Some b3"
  shows "rowgroup_matches 3 a b = Inr ((a0 = b0 \<or> a0 = -1 \<or> b0 = -1) \<and> (a1 = b1 \<or> a1 = -1 \<or> b1 = -1)
    \<and> (a2 = b2 \<or> a2 = -1 \<or> b2 = -1) \<and> (a3 = b3 \<or> a3 = -1 \<or> b3 = -1))"
  using assms by (simp add: rowgroup_matches_def rowgroup_levels)

lemma channel_vec: "channel_of d a = Inr [ch] \<Longrightarrow> vec_at a 0 = Some (int ch) \<and> ch = nat (a ! 0)"
  by (auto simp: channel_of_def vec_at_def split: if_splits)

text \<open>The bank that an address names is open at the row the address names.\<close>

definition ddr4_row_open :: "DDR4 \<Rightarrow> int list \<Rightarrow> bool" where
  "ddr4_row_open d a \<longleftrightarrow> (\<exists>ch ra bg ba. channel_of d a = Inr [ch] \<and> names_bank (d_org d) a ch ra bg ba
     \<and> open_row d [ch, ra, bg, ba] (the (vec_at a 4)))"

lemma rowgroup_banks:
  assumes "channel_of d a = Inr [ch]" "names_bank (d_org d) a ch ra bg ba"
    and "channel_of d b = Inr [ch']" "names_bank (d_org d) b ch' ra' bg' ba'"
  shows "rowgroup_matches 3 a b = Inr ([ch, ra, bg, ba] = [ch', ra', bg', ba'])"
proof -
  have "vec_at a 0 = Some (int ch)" "vec_at b 0 = Some (int ch')" using channel_vec assms(1,3) by blast+
  with assms(2,4) show ?thesis
    by (simp add: names_bank_def rowgroup_vec [of a "int ch" "int ra" "int bg" "int ba" b "int ch'" "int ra'" "int bg'" "int ba'"])
qed

text \<open>Requests for a refresh name no bank.\<close>

definition ddr4_fits :: "int \<Rightarrow> int list \<Rightarrow> bool" where
  "ddr4_fits f a \<longleftrightarrow> (f = int (d_cmd ''REFab'') \<longrightarrow> vec_at a 2 = Some (-1) \<and> vec_at a 3 = Some (-1))"

lemma rowgroup_rank:
  assumes "channel_of d b = Inr [ch']" "names_bank (d_org d) b ch' ra' bg' ba'"
    and "channel_of d a = Inr [ch]" "names_rank (d_org d) a ch ra" "ddr4_fits 7 a"
  shows "rowgroup_matches 3 b a = Inr ([ch', ra'] = [ch, ra])"
proof -
  have "vec_at a 0 = Some (int ch)" "vec_at b 0 = Some (int ch')" using channel_vec assms(1,3) by blast+
  with assms(2,4,5) show ?thesis
    by (simp add: names_bank_def names_rank_def ddr4_fits_def rowgroup_vec [of b "int ch'" "int ra'" "int bg'" "int ba'" a "int ch" "int ra" "-1" "-1"])
qed

definition banks_per_channel :: "Organization \<Rightarrow> nat" where
  "banks_per_channel org = org_children org [0] * org_children org [0, 0] * org_children org [0, 0, 0]"

text \<open>The bank an address names, as the numbers it names it with.\<close>

definition bank_of :: "int list \<Rightarrow> int \<times> int \<times> int" where
  "bank_of a = (a ! 1, a ! 2, a ! 3)"

lemma ddr4_row_open_vec:
  assumes "ddr4_row_open d a"
  obtains ra bg ba where "vec_at a 1 = Some (int ra)" "vec_at a 2 = Some (int bg)" "vec_at a 3 = Some (int ba)"
    "bank_of a = (int ra, int bg, int ba)" "ra < org_children (d_org d) [0]" "bg < org_children (d_org d) [0, 0]" "ba < org_children (d_org d) [0, 0, 0]"
  using assms by (auto simp: ddr4_row_open_def names_bank_def org_children_def vec_at_Some bank_of_def)

lemma same_bank_matches:
  assumes "ddr4_row_open d a" "ddr4_row_open d b" "vec_at a 0 = Some c" "vec_at b 0 = Some c" "bank_of a = bank_of b"
  shows "rowgroup_matches 3 a b = Inr True"
proof -
  obtain ra bg ba where "vec_at a 1 = Some (int ra)" "vec_at a 2 = Some (int bg)" "vec_at a 3 = Some (int ba)"
    "vec_at b 1 = Some (int ra)" "vec_at b 2 = Some (int bg)" "vec_at b 3 = Some (int ba)"
    by (rule ddr4_row_open_vec [OF assms(1)], rule ddr4_row_open_vec [OF assms(2)]) (use assms(5) in simp)
  with assms(3,4) show ?thesis by (simp add: rowgroup_vec)
qed

lemma open_rows_bound:
  assumes "list_all (ddr4_row_open d) as" and "sorted_wrt (\<lambda>a b. rowgroup_matches 3 a b = Inr False) as"
    and "list_all (\<lambda>a. vec_at a 0 = Some c) as"
  shows "length as \<le> banks_per_channel (d_org d)"
proof -
  let ?B = "{0..<int (org_children (d_org d) [0])} \<times> {0..<int (org_children (d_org d) [0, 0])} \<times> {0..<int (org_children (d_org d) [0, 0, 0])}"
  have bank: "bank_of a \<in> ?B" if "a \<in> set as" for a
  proof -
    have "ddr4_row_open d a" using that assms(1) by (simp add: list_all_iff)
    then show ?thesis by (elim ddr4_row_open_vec) simp
  qed
  have "bank_of a \<noteq> bank_of b" if "rowgroup_matches 3 a b = Inr False" "a \<in> set as" "b \<in> set as" for a b
    using that assms(1,3) same_bank_matches [of d a b c] by (auto simp: list_all_iff)
  then have "distinct (map bank_of as)"
    using assms(2) by (induction as) (auto simp: image_iff)
  then have "length as = card (bank_of ` set as)" using distinct_card [of "map bank_of as"] by simp
  also have "\<dots> \<le> card ?B" using bank by (intro card_mono image_subsetI) simp_all
  finally show ?thesis by (simp add: banks_per_channel_def card_cartesian_product mult.assoc)
qed


section \<open>DDR4 is a device with rows\<close>

text \<open>The states of a DDR4 device that a host following the device reaches, with at most \<open>n\<close> banks per channel.\<close>

definition ddr4_dev :: "dram_params \<Rightarrow> nat \<Rightarrow> DDR4 \<Rightarrow> bool" where
  "ddr4_dev P n d \<longleftrightarrow> ddr4_protocol P d \<and> org_ok (d_org d) \<and> 2 \<le> timing_val (d_timing_vals d) ''nRFC''
     \<and> banks_per_channel (d_org d) \<le> n"

lemma ddr4_dev_inv: "ddr4_dev P n d \<Longrightarrow> banks_inv d"
  unfolding ddr4_dev_def using protocol_inv by blast

lemma DDR4_ifce_tables:
  "i_levels DDR4_ifce = DDR4_levels" "i_requests DDR4_ifce = DDR4_requests"
  "SpecDef_id DDR4_levels ''bank'' = Inr 3" "SpecDef_id DDR4_requests ''all-bank-refresh'' = Inr 2"
  "i_tick DDR4_ifce = DDR4_tick"
  by (simp add: DDR4_ifce_def, simp add: DDR4_ifce_def, code_simp, code_simp, simp add: DDR4_ifce_def)

lemma DDR4_meta_table:
  "map is_closing (the DDR4_command_meta) = [False, True, True, False, False, True, True, False, True]"
  "map is_opening (the DDR4_command_meta) = [True, False, False, False, False, False, False, False, False]"
  "length DDR4_requests = 5"
  by code_simp+

lemma ddr4_translation: "translation_of DDR4_ifce t = Inr f \<longleftrightarrow> 0 \<le> t \<and> t < 5 \<and> f = [3, 4, 7, 0, 1] ! nat t"
proof -
  have "translation_of DDR4_ifce t = (if 0 \<le> t \<and> t < 5 then Inr (int ([3, 4, 7, 0, 1] ! nat t)) else Inl Out_Of_Range)"
    by (simp add: translation_of_def SpecLUT_at_def DDR4_ifce_def DDR4_tables DDR4_meta_table vec_at_def nat_less_iff) linarith
  moreover have "int ([3, 4, 7, 0, 1] ! nat t) = [3, 4, 7, 0, 1] ! nat t" if "0 \<le> t" "t < 5"
  proof -
    have "int ([3, 4, 7, 0, 1] ! nat t) = map int [3, 4, 7, 0, 1] ! nat t" using that by (intro nth_map [symmetric]) auto
    then show ?thesis by simp
  qed
  ultimately show ?thesis by auto
qed

lemma ddr4_meta:
  assumes "meta_of DDR4_ifce c = Inr m"
  shows "is_closing m \<longleftrightarrow> c \<in> {1, 2, 5, 6, 8}" and "is_opening m \<longleftrightarrow> c = 0"
proof -
  have c: "0 \<le> c" "nat c < 9" "nat c < length (the DDR4_command_meta)" "m = the DDR4_command_meta ! nat c"
    using assms by (auto simp: meta_of_def SpecLUT_at_def DDR4_ifce_def DDR4_tables vec_at_def split: if_splits)
  have "is_closing m = map is_closing (the DDR4_command_meta) ! nat c" "is_opening m = map is_opening (the DDR4_command_meta) ! nat c"
    using c by simp_all
  moreover have "[0..<9] = [0, 1, 2, 3, 4, 5, 6, 7, 8 :: nat]" by code_simp
  then have "nat c \<in> set [0, 1, 2, 3, 4, 5, 6, 7, 8]" using c(2) by (metis atLeastLessThan_iff set_upt zero_le)
  then have "c \<in> set [0, 1, 2, 3, 4, 5, 6, 7, 8]" using c(1) by (simp add: nat_eq_iff)
  ultimately show "is_closing m \<longleftrightarrow> c \<in> {1, 2, 5, 6, 8}" "is_opening m \<longleftrightarrow> c = 0"
    by (auto simp: DDR4_meta_table)
qed

text \<open>A controller that follows the interface follows the device.\<close>

lemma ddr4_follows:
  assumes "follows DDR4_ifce d f a c"
  obtains final n where "f = int final" "final \<in> {3, 4, 7, 0, 1}" "c = int n" "n < 9"
    "DDR4_get_preq_command final a d = Inr n" "DDR4_check_ready n a d = Inr True"
proof -
  obtain t where t: "0 \<le> t" "t < 5" "f = [3, 4, 7, 0, 1] ! nat t"
    and p: "i_get_preq_command DDR4_ifce f a d = Inr c" and r: "i_check_ready DDR4_ifce c a d = Inr True"
    using assms by (auto simp: follows_def ddr4_translation)
  have "t \<in> {0, 1, 2, 3, 4}" using t(1,2) by auto
  then have f: "f \<in> {3, 4, 7, 0, 1}" using t(3) by auto
  obtain n where "c = int n" "DDR4_get_preq_command (nat f) a d = Inr n"
    using p f by (auto simp: DDR4_ifce_def with_command_def elim!: bindrE split: if_splits)
  with r f show thesis
    by (intro that [of "nat f" n]) (auto simp: DDR4_ifce_def with_command_def DDR4_tables split: if_splits)
qed

lemma ifce_issue: "i_issue_command DDR4_ifce (int n) a d = Inr d' \<Longrightarrow> DDR4_issue_command n a d = Inr d'"
  by (simp add: DDR4_ifce_def with_command_def split: if_splits)

lemma ddr4_dev_issue:
  assumes d: "ddr4_dev P n d" and f: "follows DDR4_ifce d f a c" and i: "i_issue_command DDR4_ifce c a d = Inr d'"
  shows "ddr4_dev P n d'"
  using f
proof (rule ddr4_follows)
  fix final k assume k: "final \<in> {3, 4, 7, 0, 1}" "c = int k" "DDR4_get_preq_command final a d = Inr k" "DDR4_check_ready k a d = Inr True"
  have issue: "DDR4_issue_command k a d = Inr d'" using i k(2) ifce_issue by simp
  have "ddr4_protocol P d'"
    by (rule proto_issue [OF _ _ k(3,4) issue]) (use d k(1) in \<open>simp_all add: ddr4_dev_def DDR4_tables\<close>)
  then show ?thesis using d issue_command_eq(2) [OF issue] by (simp add: ddr4_dev_def same_setup_def)
qed

lemma ddr4_dev_tick:
  assumes d: "ddr4_dev P n d" and t: "DDR4_tick d = Inr d'"
  shows "ddr4_dev P n d'" and "ddr4_row_open d a \<Longrightarrow> ddr4_row_open d' a"
proof -
  have same: "same_setup d d'" using tick_rule [OF t, of "\<lambda>_. True"] by (auto simp: same_setup_def)
  then show "ddr4_dev P n d'" using d proto_tick [OF _ t] by (simp add: ddr4_dev_def same_setup_def)
  show "ddr4_row_open d' a" if "ddr4_row_open d a"
    using that tick_open_row [OF ddr4_dev_inv [OF d] t] channel_of_same [of d' d] same
    by (fastforce simp: ddr4_row_open_def same_setup_def names_bank_def is_bank_def)
qed

lemma ddr4_row_open_mono:
  assumes "ddr4_row_open d b" and "same_setup d d'"
    and "\<And>ch ra bg ba. channel_of d b = Inr [ch] \<Longrightarrow> names_bank (d_org d) b ch ra bg ba \<Longrightarrow> is_bank d [ch, ra, bg, ba] \<Longrightarrow>
      open_row d [ch, ra, bg, ba] (the (vec_at b 4)) \<Longrightarrow> open_row d' [ch, ra, bg, ba] (the (vec_at b 4))"
  shows "ddr4_row_open d' b"
proof -
  obtain ch ra bg ba where b: "channel_of d b = Inr [ch]" "names_bank (d_org d) b ch ra bg ba" "open_row d [ch, ra, bg, ba] (the (vec_at b 4))"
    using assms(1) by (auto simp: ddr4_row_open_def)
  have "is_bank d [ch, ra, bg, ba]" using b(2) by (simp add: names_bank_def is_bank_def)
  with assms(3) b have "open_row d' [ch, ra, bg, ba] (the (vec_at b 4))" by blast
  then show ?thesis
    using b assms(2) channel_of_same [of d' d] by (auto simp: ddr4_row_open_def same_setup_def)
qed

lemma ddr4_issue_rows:
  assumes d: "ddr4_dev P n d" and f: "follows DDR4_ifce d f a c" and fits: "ddr4_fits f a" and i: "i_issue_command DDR4_ifce c a d = Inr d'"
    and m: "meta_of DDR4_ifce c = Inr m" and b: "ddr4_row_open d b" and closing: "is_closing m \<Longrightarrow> rowgroup_matches 3 b a = Inr False"
  shows "ddr4_row_open d' b"
  using f
proof (rule ddr4_follows)
  fix final k assume k: "f = int final" "final \<in> {3, 4, 7, 0, 1}" "c = int k" "DDR4_get_preq_command final a d = Inr k"
  have inv: "banks_inv d" and ok: "org_ok (d_org d)" using ddr4_dev_inv [OF d] d by (simp_all add: ddr4_dev_def)
  have issue: "DDR4_issue_command k a d = Inr d'" using i k(3) ifce_issue by simp
  note chan = issue_command_eq(5) [OF issue] and same = issue_command_eq(2) [OF issue] and close = ddr4_meta(1) [OF m]
  show ?thesis
  proof (cases "final = 7")
    case True
    have pre: "DDR4_get_preq_command 7 a d = Inr k" and fit: "ddr4_fits 7 a" using k True fits by simp_all
    obtain ra where rank: "names_rank (d_org d) a (nat (a ! 0)) ra"
"k \<in> {2, 7}"
      and keep: "\<forall>q r. is_bank d q \<longrightarrow> open_row d q r \<longrightarrow> (k = 2 \<longrightarrow> take 2 q \<noteq> [nat (a ! 0), ra]) \<longrightarrow> open_row d' q r"
      by (rule issue_to_rank [OF inv pre issue]) (rule that, assumption+)
    show ?thesis
    proof (rule ddr4_row_open_mono [OF b same])
      fix ch ra' bg ba
      assume bank: "channel_of d b = Inr [ch]" "names_bank (d_org d) b ch ra' bg ba" "is_bank d [ch, ra', bg, ba]"
        and opn: "open_row d [ch, ra', bg, ba] (the (vec_at b 4))"
      have "take 2 [ch, ra', bg, ba] \<noteq> [nat (a ! 0), ra]" if "k = 2"
        using rowgroup_rank [OF bank(1,2) chan rank(1) fit] closing close that k(3) by simp
      then show "open_row d' [ch, ra', bg, ba] (the (vec_at b 4))" using keep bank(3) opn by blast
    qed
  next
    case False
    then have fin: "final \<in> {0, 1, 3, 4}" using k(2) by auto
    obtain ra bg ba where bank: "names_bank (d_org d) a (nat (a ! 0)) ra bg ba"
"k \<in> {0, 1, final}" "final = 1 \<Longrightarrow> k = 1"
      "k = 0 \<Longrightarrow> final \<noteq> 0 \<Longrightarrow> m_state (d_nodes d [nat (a ! 0), ra, bg, ba]) \<noteq> 0"
      "k = 0 \<Longrightarrow> open_row d' [nat (a ! 0), ra, bg, ba] (the (vec_at a 4))"
      and keep: "\<forall>q r. open_row d q r \<longrightarrow> (k = 1 \<longrightarrow> q \<noteq> [nat (a ! 0), ra, bg, ba]) \<longrightarrow> open_row d' q r"
      by (rule issue_to_bank [OF ok fin k(4) issue]) (rule that, assumption+)
    show ?thesis
    proof (rule ddr4_row_open_mono [OF b same])
      fix ch ra' bg' ba'
      assume bank': "channel_of d b = Inr [ch]" "names_bank (d_org d) b ch ra' bg' ba'"
        and opn: "open_row d [ch, ra', bg', ba'] (the (vec_at b 4))"
      have "[ch, ra', bg', ba'] \<noteq> [nat (a ! 0), ra, bg, ba]" if "k = 1"
        using rowgroup_banks [OF bank' chan bank(1)] closing close that k(3) by simp
      then show "open_row d' [ch, ra', bg', ba'] (the (vec_at b 4))" using keep opn by blast
    qed
  qed
qed

lemma ddr4_opens:
  assumes d: "ddr4_dev P n d" and f: "follows DDR4_ifce d f a c" and "c \<noteq> f"
    and m: "meta_of DDR4_ifce c = Inr m" and "is_opening m" and i: "i_issue_command DDR4_ifce c a d = Inr d'"
  shows "ddr4_row_open d' a" and "ddr4_row_open d b \<Longrightarrow> rowgroup_matches 3 b a = Inr False"
proof -
  have c: "c = 0" using assms ddr4_meta(2) [OF m] by simp
  obtain final where k: "f = int final" "final \<in> {3, 4, 7, 0, 1}" "DDR4_get_preq_command final a d = Inr 0"
    by (rule ddr4_follows [OF f]) (use c that in auto)
  have ok: "org_ok (d_org d)" and inv: "banks_inv d" using d ddr4_dev_inv [OF d] by (simp_all add: ddr4_dev_def)
  have issue: "DDR4_issue_command 0 a d = Inr d'" using i c ifce_issue [of 0] by simp
  note chan = issue_command_eq(5) [OF issue] and same = issue_command_eq(2) [OF issue]
  have "final \<noteq> 7"
  proof
    assume "final = 7"
    then have "DDR4_get_preq_command 7 a d = Inr 0" using k(3) by simp
    then show False by (rule issue_to_rank [OF inv _ issue]) simp
  qed
  then have fin: "final \<in> {0, 1, 3, 4}" "final \<noteq> 0" using k assms(3) c by auto
  obtain ra bg ba where bank: "names_bank (d_org d) a (nat (a ! 0)) ra bg ba" 
    "m_state (d_nodes d [nat (a ! 0), ra, bg, ba]) \<noteq> 0" "open_row d' [nat (a ! 0), ra, bg, ba] (the (vec_at a 4))"
    by (rule issue_to_bank [OF ok fin(1) k(3) issue]) (use fin(2) that in blast)
  show "ddr4_row_open d' a"
    using bank chan same channel_of_same [of d' d] by (auto simp: ddr4_row_open_def same_setup_def)
  show "rowgroup_matches 3 b a = Inr False" if o: "ddr4_row_open d b"
  proof -
    obtain ch ra' bg' ba' where b: "channel_of d b = Inr [ch]" "names_bank (d_org d) b ch ra' bg' ba'" "m_state (d_nodes d [ch, ra', bg', ba']) = 0"
      using o by (auto simp: ddr4_row_open_def open_row_def)
    then have "[ch, ra', bg', ba'] \<noteq> [nat (a ! 0), ra, bg, ba]" using bank(2) by auto
    then show ?thesis using rowgroup_banks [OF b(1,2) chan bank(1)] by simp
  qed
qed

interpretation ddr4: row_device DDR4_ifce "ddr4_dev P n" 3 ddr4_row_open ddr4_fits n
proof unfold_locales
  fix d d' f a b c m t k ch r as
  show "SpecDef_id (i_levels DDR4_ifce) ''bank'' = Inr (nat 3)" "SpecDef_id (i_requests DDR4_ifce) ''all-bank-refresh'' \<noteq> Inr 0"
    by (simp_all add: DDR4_ifce_tables)
  show "length as \<le> n" if "ddr4_dev P n d" "list_all (ddr4_row_open d) as" "sorted_wrt (\<lambda>a b. rowgroup_matches 3 a b = Inr False) as"
    "list_all (\<lambda>a. vec_at a 0 = Some ch) as"
    using open_rows_bound [OF that(2-4)] that(1) by (simp add: ddr4_dev_def)
  show "ddr4_dev P n d'" if "ddr4_dev P n d" "i_tick DDR4_ifce d = Inr d'"
    using ddr4_dev_tick(1) that by (simp add: DDR4_ifce_tables)
  show "ddr4_row_open d' a" if "ddr4_dev P n d" "i_tick DDR4_ifce d = Inr d'" "ddr4_row_open d a"
    using ddr4_dev_tick(2) that by (simp add: DDR4_ifce_tables)
  show "ddr4_fits f a" if "t \<in> {Type_Read, Type_Write}" "translation_of DDR4_ifce t = Inr f"
    using that by (auto simp: ddr4_translation ddr4_fits_def)
  show "ddr4_fits f ((replicate (length (i_levels DDR4_ifce)) (-1))[0 := ch, 1 := r])"
    by (simp add: ddr4_fits_def DDR4_ifce_tables DDR4_tables vec_at_def)
  show "ddr4_dev P n d'" if "ddr4_dev P n d" "follows DDR4_ifce d f a c" "i_issue_command DDR4_ifce c a d = Inr d'"
    using ddr4_dev_issue that by blast
  show "ddr4_row_open d' b" if "ddr4_dev P n d" "follows DDR4_ifce d f a c" "ddr4_fits f a" "i_issue_command DDR4_ifce c a d = Inr d'"
    "meta_of DDR4_ifce c = Inr m" "ddr4_row_open d b" "is_closing m \<Longrightarrow> rowgroup_matches 3 b a = Inr False"
    by (rule ddr4_issue_rows [OF that])
  show "ddr4_row_open d' a" if "ddr4_dev P n d" "follows DDR4_ifce d f a c" "c \<noteq> f" "i_issue_command DDR4_ifce c a d = Inr d'"
    "meta_of DDR4_ifce c = Inr m" "is_opening m"
    by (rule ddr4_opens(1) [OF that(1-3) that(5,6,4)])
  show "rowgroup_matches 3 b a = Inr False" if "ddr4_dev P n d" "follows DDR4_ifce d f a c" "c \<noteq> f" "i_issue_command DDR4_ifce c a d = Inr d'"
    "meta_of DDR4_ifce c = Inr m" "is_opening m" "ddr4_row_open d b"
    by (rule ddr4_opens(2) [OF that(1-3) that(5,6,4,7)])
qed simp


section \<open>The memory system on DDR4\<close>

text \<open>
  The row policies, with the configuration a DDR4 device accepts. Of the plugins only the command
  counter can be set up on it, the others ask for requests DDR4 does not have.
\<close>

definition ddr4_config :: "dram_params \<Rightarrow> DDR4 \<Rightarrow> rowpolicy \<Rightarrow> plugin list \<Rightarrow> bool" where
  "ddr4_config P d policy plugins \<longleftrightarrow> DDR4_init P = Inr d \<and> org_ok (d_org d) \<and> 2 \<le> timing_val (d_timing_vals d) ''nRFC''
     \<and> banks_per_channel (d_org d) \<le> 32
     \<and> (policy = Open_Row \<or> (\<exists>cap q. ClosedRowPolicy_setup DDR4_ifce d cap = Inr q \<and> policy = Closed_Row q))
     \<and> list_all (\<lambda>p. \<exists>k. p = P_CommandCounter k) plugins"

lemma ddr4_config_dev: "ddr4_config P d policy plugins \<Longrightarrow> ddr4_dev P 32 d"
  by (simp add: ddr4_config_def ddr4_dev_def proto_start)

lemma close_row_id: "SpecDef_id DDR4_requests ''close-row'' = Inr 4"
  by code_simp

lemma ddr4_config_extras:
  assumes "ddr4_config P d policy plugins"
  shows "ddr4.extras_ok policy plugins"
proof -
  have "policy_ids policy \<subseteq> {4}"
    using assms by (auto simp: ddr4_config_def ClosedRowPolicy_setup_def DDR4_ifce_tables close_row_id elim!: bindrE)
  moreover have "plugin_ids p = {} \<and> plugin_ok p" if "p \<in> set plugins" for p
    using assms that by (auto simp: ddr4_config_def list_all_iff)
  ultimately show ?thesis
    unfolding ddr4.extras_ok_def by (auto simp: list_all_iff ddr4_translation ddr4_fits_def dest!: subsetD)
qed

lemma ddr4_run_ok:
  assumes "ddr4_config P d policy plugins" and "system_init DDR4_ifce d low high policy plugins cores = Inr s0"
    and "sys_run M DDR4_ifce mapper s0 s acc done"
  shows "ddr4.sys_ok P 32 s" and "origins (mset acc) = origins (mset done) + origins (reads_in_flight (sys_controllers s))"
proof -
  note i = ddr4.system_init_ok [OF assms(2) ddr4_config_dev [OF assms(1)] ddr4_config_extras [OF assms(1)] order_refl]
  show "ddr4.sys_ok P 32 s" "origins (mset acc) = origins (mset done) + origins (reads_in_flight (sys_controllers s))"
    using ddr4.run_ok [OF assms(3) i(1,2)] by simp_all
qed

text \<open>
  C2. The memory system refines the DDR4 protocol. Whatever requests are sent and however sends and
  cycles interleave, the state of the DDR4 device in a memory system of
  \<^verbatim>\<open>GenericDRAMController\<close>s is one of the protocol: every command the controllers issued
  was the one the device named for the final command of a request, and was ready.
\<close>

theorem memory_system_follows_ddr4:
  assumes "ddr4_config P d policy plugins" and "system_init DDR4_ifce d low high policy plugins cores = Inr s0"
    and "sys_run M DDR4_ifce mapper s0 s acc done"
  shows "ddr4_protocol P (sys_dram s)"
  using ddr4_run_ok(1) [OF assms] by (simp add: ddr4.sys_ok_def ddr4_dev_def)

text \<open>
  C4. Activated requests find their row. In every reachable state of the memory system the requests
  in the active buffer of a controller belong to its channel, each has its row open in its bank, no
  two of them are for the same bank, and so there are at most as many as the channel has banks.
\<close>

theorem active_rows_stay_open:
  assumes "ddr4_config P d policy plugins" and "system_init DDR4_ifce d low high policy plugins cores = Inr s0"
    and "sys_run M DDR4_ifce mapper s0 s acc done"
    and "i < length (sys_controllers s)" and "rs = buffer (m_active_buffer (sys_controllers s ! i))"
  shows "(\<forall>r \<in> set rs. vec_at (addr_vec r) 0 = Some (int i) \<and> ddr4_row_open (sys_dram s) (addr_vec r))
    \<and> (\<forall>j < length rs. \<forall>k < j. rowgroup_matches 3 (addr_vec (rs ! k)) (addr_vec (rs ! j)) = Inr False)
    \<and> length rs \<le> banks_per_channel (d_org (sys_dram s))"
proof -
  let ?c = "sys_controllers s ! i"
  have s: "ddr4.sys_ok P 32 s" by (rule ddr4_run_ok(1) [OF assms(1-3)])
  then have c: "ctrl_ok DDR4_ifce 3 ddr4_row_open ddr4_fits (sys_dram s) ?c"
    using assms(4) by (simp add: ddr4.sys_ok_def list_all_length)
  have "map m_channel_id (sys_controllers s) ! i = int i" using s assms(4) by (simp add: ddr4.sys_ok_def)
  then have ch: "m_channel_id ?c = int i" using assms(4) by simp
  have rs: "idl Active ?c = map ident rs" using assms(5) by (simp add: idl_def)
  have 1: "list_all (ddr4_row_open (sys_dram s)) (map addr_vec rs)" "list_all (\<lambda>a. vec_at a 0 = Some (int i)) (map addr_vec rs)"
    using c ch by (auto simp: ctrl_ok_def active_ok_def queue_ok_def good_def list_all_iff rs dest!: spec [where x = Active])
  have 2: "sorted_wrt (\<lambda>a b. rowgroup_matches 3 a b = Inr False) (map addr_vec rs)"
    using c by (simp add: ctrl_ok_def active_ok_def rs sorted_wrt_map apart_def [abs_def])
  have "length rs \<le> banks_per_channel (d_org (sys_dram s))" using open_rows_bound [OF 1(1) 2 1(2)] by simp
  with 1 2 show ?thesis by (auto simp: list_all_iff sorted_wrt_iff_nth_less)
qed



section \<open>A first read\<close>

lemma demo_query:
  assumes "Organization.count (d_org d) = [1, 1, 4, 4, 2 ^ 14, 2 ^ 10]" "m_state (d_nodes d [0, 0, 0, 0]) = 1" "channel_of d demo_addr = Inr [0]"
    "m_row_state (d_nodes d [0, 0, 0, 0]) = Map.empty"
  shows "DDR4_check_rowbuffer_hit 3 demo_addr d = Inr False" "DDR4_check_node_open 3 demo_addr d = Inr False"
proof -
  have v: "vec_at demo_addr 1 = Some 0" "vec_at demo_addr 2 = Some 0" "vec_at demo_addr 3 = Some 0" "vec_at demo_addr 4 = Some 5"
    by (simp_all add: demo_addr_def vec_at_def)
  have k: "org_children (d_org d) [0] = 1" "org_children (d_org d) [0, 0] = 4" "org_children (d_org d) [0, 0, 0] = 4"
    using assms(1) by (simp_all add: org_children_def)
  have q: "query_nodes tab (DDR4_spec d) 3 demo_addr clk [0] s = f s [0, 0, 0, 0] 3 5 clk"
    if "\<And>l. tab l 3 = (if l = 3 then Some f else None)" for tab f clk s
    by (simp add: query_nodes.simps [of tab] v k that level_of_def)
  show "DDR4_check_rowbuffer_hit 3 demo_addr d = Inr False"
    using assms(2,3) q [of DDR4_rowhits "RowHit_RDWR DDR4_std"]
    by (simp add: DDR4_check_rowbuffer_hit_def check_rowbuffer_hit_def DDR4_spec_of_def DDR4_rowhits_def table_def RowHit_RDWR_def)
  show "DDR4_check_node_open 3 demo_addr d = Inr False"
    using assms(2,3) q [of DDR4_rowopens "RowOpen_RDWR DDR4_std"]
    by (simp add: DDR4_check_node_open_def check_node_open_def DDR4_spec_of_def DDR4_rowopens_def table_def RowOpen_RDWR_def)
qed

lemma demo_cycle:
  obtains d d1 d2 where "ddr4_config demo_params d Open_Row []" "Organization.count (d_org d) = [1, 1, 4, 4, 2 ^ 14, 2 ^ 10]"
    "timings_ok (d_timing_vals d)" "DDR4_tick d = Inr d1"
    "DDR4_get_preq_command 3 demo_addr d1 = Inr 0" "DDR4_check_ready 0 demo_addr d1 = Inr True"
    "DDR4_issue_command 0 demo_addr d1 = Inr d2"
    "DDR4_check_rowbuffer_hit 3 demo_addr d1 = Inr False" "DDR4_check_node_open 3 demo_addr d1 = Inr False"
proof -
  obtain d where d: "DDR4_init demo_params = Inr d" "Organization.count (d_org d) = [1, 1, 4, 4, 2 ^ 14, 2 ^ 10]"
    "timings_ok (d_timing_vals d)" "\<not> d_drampower_enable d" "d_channels d = 1"
    using demo_device by blast
  note init = DDR4_init_eq [OF d(1)]
  define d1 where "d1 = d\<lparr>d_clk := 1\<rparr>"
  have tick: "DDR4_tick d = Inr d1" using init by (simp add: DDR4_tick_def d1_def)
  have ok: "org_ok (d_org d)" using d(2) by (simp add: org_ok_def)
  have addr: "ddr4_addr d1 demo_addr" using demo_addr_ok [of d1] d by (simp add: d1_def)
  have chan: "channel_of d1 demo_addr = Inr [0]" using ddr4_addr_channel [OF addr] by (simp add: demo_addr_def)
  have bank: "names_bank (d_org d1) demo_addr 0 0 0 0"
    using d(2) by (simp add: d1_def names_bank_def demo_addr_def vec_at_def org_children_def)
  have closed: "m_state (d_nodes d1 [0, 0, 0, 0]) = 1" "m_row_state (d_nodes d1 [0, 0, 0, 0]) = Map.empty"
    by (simp_all add: d1_def init(4) new_nodes_def new_node_def level_of_def)
  have preq: "DDR4_get_preq_command 3 demo_addr d1 = Inr 0"
    using preq_of_named_bank [OF _ _ bank] ok closed chan by (simp add: d1_def DDR4_get_preq_command_def RequireRowOpen_def)
  have "check_ready (DDR4_spec d1) 0 demo_addr (d_clk d1) [0] (d_nodes d1) = Inr True"
    by (rule check_ready_after) (use addr init in \<open>auto simp: d1_def ddr4_addr_def new_nodes_def new_node_def\<close>)
  then have ready: "DDR4_check_ready 0 demo_addr d1 = Inr True" using chan by (simp add: DDR4_check_ready_def)
  obtain d2 where "DDR4_issue_command 0 demo_addr d1 = Inr d2"
    using ddr4_issue_total [OF ddr4_tick [OF ddr4_start [OF d(1)] tick] _ addr, of 0] d(4) by (auto simp: d1_def)
  moreover have "ddr4_config demo_params d Open_Row []"
    using d ok by (simp add: ddr4_config_def timings_ok_def banks_per_channel_def org_children_def)
  moreover have "Organization.count (d_org d1) = [1, 1, 4, 4, 2 ^ 14, 2 ^ 10]" using d(2) by (simp add: d1_def)
  note demo_query [OF this closed(1) chan closed(2)]
  ultimately show thesis using that d(2,3) tick preq ready by blast
qed


definition demo_mapper :: "Request \<Rightarrow> Request result" where
  "demo_mapper r = Inr (r\<lparr>addr_vec := demo_addr\<rparr>)"

definition demo_read :: Request where
  "demo_read = Request_core 320 Type_Read 0"

lemma demo_ids:
  "SpecDef_id DDR4_levels ''channel'' = Inr 0" "SpecDef_id DDR4_levels ''rank'' = Inr 1" "SpecDef_id DDR4_timings ''nREFI'' = Inr 18"
  by code_simp+

lemma demo_init:
  assumes "Organization.count (d_org d) = [1, 1, 4, 4, 2 ^ 14, 2 ^ 10]" "timings_ok (d_timing_vals d)"
  shows "\<exists>s rf. system_init DDR4_ifce d None None Open_Row [] 1 = Inr s \<and> sys_dram s = d
    \<and> 1 < ref_next_cycle rf \<and> ref_clk rf = 0
    \<and> sys_controllers s = [\<lparr>c_clk = 0, m_channel_id = 0, pending = [], m_active_buffer = empty_ReqBuffer,
            m_priority_buffer = empty_ReqBuffer\<lparr>max_size := 512 * 3 + 32\<rparr>, m_read_buffer = empty_ReqBuffer,
            m_write_buffer = empty_ReqBuffer, m_bank_addr_idx = 3,
            m_wr_low_watermark = 1 / 5, m_wr_high_watermark = 4 / 5,
            m_is_write_mode = False, c_rows = new_row_stats 1, c_queues = new_queue_stats,
            m_refresh = rf, m_rowpolicy = Open_Row, m_plugins = []\<rparr>]"
proof -
  have t: "length (d_timing_vals d) = 21" "1 < d_timing_vals d ! 18"
    using assms(2) by (auto simp: timings_ok_def timing_val_def)
  show ?thesis
    using assms(1) t
    by (simp add: system_init_def get_level_size_def DDR4_ifce_def demo_ids controller_setup_def AllBankRefresh_setup_def vec_at_def
        DDR4_ifce_tables override_def)
qed


text \<open>The controller that holds the read, and the cycle in which it activates the row.\<close>

definition demo_queued :: "AllBankRefresh \<Rightarrow> GenericDRAMController \<Rightarrow> bool" where
  "demo_queued rf c \<longleftrightarrow> c_clk c = 0 \<and> pending c = [] \<and> buffer (m_active_buffer c) = [] \<and> max_size (m_active_buffer c) = 32
     \<and> buffer (m_priority_buffer c) = [] \<and> buffer (m_write_buffer c) = [] \<and> max_size (m_write_buffer c) = 32
     \<and> buffer (m_read_buffer c) = [demo_read\<lparr>addr_vec := demo_addr, final_command := 3, arrive := 0\<rparr>]
     \<and> \<not> m_is_write_mode c \<and> m_wr_high_watermark c = 4 / 5 \<and> c_rows c = new_row_stats 1 \<and> m_refresh c = rf
     \<and> m_rowpolicy c = Open_Row \<and> m_plugins c = []"

lemma demo_send:
  assumes "Organization.count (d_org d) = [1, 1, 4, 4, 2 ^ 14, 2 ^ 10]" "timings_ok (d_timing_vals d)"
  shows "\<exists>s0 s rf c. system_init DDR4_ifce d None None Open_Row [] 1 = Inr s0
    \<and> system_send DDR4_ifce demo_mapper demo_read s0 = Inr (True, s) \<and> sys_dram s = d \<and> sys_controllers s = [c]
    \<and> demo_queued rf c \<and> 1 < ref_next_cycle rf \<and> ref_clk rf = 0"
proof -
  have t: "translation_of DDR4_ifce 0 = Inr 3" by (simp add: ddr4_translation)
  have v: "vec_at demo_addr 0 = Some 0" by (simp add: demo_addr_def vec_at_def)
  have hd: "vec_at (c # cs) 0 = Some c" for c :: GenericDRAMController and cs by (simp add: vec_at_def)
  obtain s0 rf where s0: "system_init DDR4_ifce d None None Open_Row [] 1 = Inr s0" "sys_dram s0 = d" "1 < ref_next_cycle rf" "ref_clk rf = 0"
    and c: "sys_controllers s0 = [\<lparr>c_clk = 0, m_channel_id = 0, pending = [], m_active_buffer = empty_ReqBuffer,
            m_priority_buffer = empty_ReqBuffer\<lparr>max_size := 512 * 3 + 32\<rparr>, m_read_buffer = empty_ReqBuffer,
            m_write_buffer = empty_ReqBuffer, m_bank_addr_idx = 3,
            m_wr_low_watermark = 1 / 5, m_wr_high_watermark = 4 / 5,
            m_is_write_mode = False, c_rows = new_row_stats 1, c_queues = new_queue_stats,
            m_refresh = rf, m_rowpolicy = Open_Row, m_plugins = []\<rparr>]"
    using demo_init [OF assms] by blast
  have "\<exists>s c. system_send DDR4_ifce demo_mapper demo_read s0 = Inr (True, s) \<and> sys_dram s = d \<and> sys_controllers s = [c] \<and> demo_queued rf c"
    by (simp add: c s0(2) system_send_def demo_mapper_def demo_read_def Request_core_def default_Request_def v t hd controller_send_def
        Let_def enqueue_def empty_ReqBuffer_def count_accepted_def demo_queued_def)
  with s0 show ?thesis by blast
qed

lemma demo_tick:
  assumes "demo_queued rf c" "1 < ref_next_cycle rf" "ref_clk rf = 0"
    and "DDR4_get_preq_command 3 demo_addr d1 = Inr 0" "DDR4_check_ready 0 demo_addr d1 = Inr True"
    and "DDR4_issue_command 0 demo_addr d1 = Inr d2"
    and "DDR4_check_rowbuffer_hit 3 demo_addr d1 = Inr False" "DDR4_check_node_open 3 demo_addr d1 = Inr False"
  shows "\<exists>c'. controller_tick M DDR4_ifce c d1 = Inr (c', d2, None)
    \<and> map addr_vec (buffer (m_active_buffer c')) = [demo_addr]"
proof -
  let ?r = "demo_read\<lparr>addr_vec := demo_addr, final_command := 3, arrive := 0\<rparr>"
  let ?c = "c\<lparr>c_clk := 1, c_queues := count_queues c (c_queues c), m_refresh := rf\<lparr>ref_clk := 1\<rparr>\<rparr>"
  note q = assms(1) [unfolded demo_queued_def]
  have upd: "update_command DDR4_ifce d1 ?r = Inr (?r\<lparr>command := 0\<rparr>)"
    and rdy: "i_check_ready DDR4_ifce 0 demo_addr d1 = Inr True" and iss: "i_issue_command DDR4_ifce 0 demo_addr d1 = Inr d2"
    and hit: "final_command r = 3 \<Longrightarrow> addr_vec r = demo_addr \<Longrightarrow> is_row_hit DDR4_ifce d1 r = Inr False"
    and opn: "final_command r = 3 \<Longrightarrow> addr_vec r = demo_addr \<Longrightarrow> is_row_open DDR4_ifce d1 r = Inr False" for r
    using assms(4-8) by (simp_all add: update_command_def is_row_hit_def is_row_open_def DDR4_ifce_def with_command_def DDR4_tables)
  have "the DDR4_command_meta \<noteq> []" using DDR4_meta_table(1) by (metis list.map_disc_iff list.distinct(1))
  then obtain m where m: "meta_of DDR4_ifce 0 = Inr m"
    by (auto simp: meta_of_def SpecLUT_at_def DDR4_ifce_def DDR4_tables vec_at_def)
  have op: "is_opening m" "\<not> is_closing m" using ddr4_meta [OF m] by simp_all
  have best: "FRFCFS_get_best_request DDR4_ifce d1 (m_active_buffer c) = Inr (m_active_buffer c, None)"
    "FRFCFS_get_best_request DDR4_ifce d1 (m_read_buffer c) = Inr ((m_read_buffer c)\<lparr>buffer := [?r\<lparr>command := 0\<rparr>]\<rparr>, Some 0)"
    using q upd by (simp_all add: FRFCFS_get_best_request_def best_request_def buf_size_def)
  have sched: "schedule_request DDR4_ifce d1 ?c = Inr (set_request (Reads, 0) (?r\<lparr>command := 0\<rparr>) ?c, Some (Reads, 0))"
    using q by (simp add: schedule_request_def choose_request_def schedule_from_def best buf_size_def set_write_mode_def Let_def ready_request_def
        request_at_def rdy m op set_request_def)
  have serve: "serve_completed_reads M (c\<lparr>c_clk := 1, c_queues := count_queues c (c_queues c)\<rparr>) = Inr (c\<lparr>c_clk := 1, c_queues := count_queues c (c_queues c)\<rparr>, None)"
    using q by (simp add: serve_completed_reads_def)
  show ?thesis
    using q assms(2,3)
    by (simp add: controller_tick_def Let_def serve AllBankRefresh_tick_def sched rowpolicy_update_def serve_request_def
        update_request_stats_def set_request_def request_at_def hit opn count_row_def demo_read_def Request_core_def default_Request_def
        bump_def new_row_stats_def iss m op remove_request_def buf_remove_def enqueue_def del: bindr_Inr)
qed

text \<open>A run that accepts the read and activates its row.\<close>

lemma demo_run:
  obtains d s0 s where "ddr4_config demo_params d Open_Row []" "system_init DDR4_ifce d None None Open_Row [] 1 = Inr s0"
    "sys_run M DDR4_ifce demo_mapper s0 s [demo_read\<lparr>addr_vec := demo_addr\<rparr>] []"
    "map (map addr_vec \<circ> buffer \<circ> m_active_buffer) (sys_controllers s) = [[demo_addr]]"
proof (rule demo_cycle)
  fix d d1 d2
  assume d: "ddr4_config demo_params d Open_Row []" "Organization.count (d_org d) = [1, 1, 4, 4, 2 ^ 14, 2 ^ 10]"
    "timings_ok (d_timing_vals d)" and tick: "DDR4_tick d = Inr d1"
    and d1: "DDR4_get_preq_command 3 demo_addr d1 = Inr 0" "DDR4_check_ready 0 demo_addr d1 = Inr True" "DDR4_issue_command 0 demo_addr d1 = Inr d2"
    "DDR4_check_rowbuffer_hit 3 demo_addr d1 = Inr False" "DDR4_check_node_open 3 demo_addr d1 = Inr False"
  obtain s0 s rf c where s0: "system_init DDR4_ifce d None None Open_Row [] 1 = Inr s0"
    and send: "system_send DDR4_ifce demo_mapper demo_read s0 = Inr (True, s)"
    and s: "sys_dram s = d" "sys_controllers s = [c]" "demo_queued rf c" "1 < ref_next_cycle rf" "ref_clk rf = 0"
    using demo_send [OF d(2,3)] by blast
  obtain c' where c': "controller_tick M DDR4_ifce c d1 = Inr (c', d2, None)" "map addr_vec (buffer (m_active_buffer c')) = [demo_addr]"
    using demo_tick [OF s(3-5) d1, of M] by (elim exE conjE) (rule that)
  have tick: "system_tick M DDR4_ifce s = Inr (s\<lparr>sys_clk := sys_clk s + 1, sys_dram := d2, sys_controllers := [c']\<rparr>, [])"
    using tick c'(1) s(1,2) by (simp add: system_tick_def DDR4_ifce_tables)
  have "sys_run M DDR4_ifce demo_mapper s0 s [demo_read\<lparr>addr_vec := demo_addr\<rparr>] []"
    using run_send [OF run_start _ send, of "demo_read\<lparr>addr_vec := demo_addr\<rparr>" M]
    by (simp add: demo_mapper_def is_read_def demo_read_def Request_core_def)
  then have "sys_run M DDR4_ifce demo_mapper s0 (s\<lparr>sys_clk := sys_clk s + 1, sys_dram := d2, sys_controllers := [c']\<rparr>)
      [demo_read\<lparr>addr_vec := demo_addr\<rparr>] ([] @ [])"
    by (rule run_tick) (rule tick)
  then have run: "sys_run M DDR4_ifce demo_mapper s0 (s\<lparr>sys_clk := sys_clk s + 1, sys_dram := d2, sys_controllers := [c']\<rparr>)
      [demo_read\<lparr>addr_vec := demo_addr\<rparr>] []" by (simp only: append_Nil)
  show thesis by (rule that [OF d(1) s0 run]) (simp add: c'(2))
qed


theorem memory_system_follows_ddr4_witness:
  "\<exists>s :: DDR4 GenericDRAMSystem. ddr4_protocol demo_params (sys_dram s) \<and> map (map addr_vec \<circ> buffer \<circ> m_active_buffer) (sys_controllers s) = [[demo_addr]]"
proof (rule demo_run [of "[]"])
  fix d s0 s
  assume run: "ddr4_config demo_params d Open_Row []" "system_init DDR4_ifce d None None Open_Row [] 1 = Inr s0"
    "sys_run [] DDR4_ifce demo_mapper s0 s [demo_read\<lparr>addr_vec := demo_addr\<rparr>] []"
    and act: "map (map addr_vec \<circ> buffer \<circ> m_active_buffer) (sys_controllers s) = [[demo_addr]]"
  show ?thesis using memory_system_follows_ddr4 [OF run] act by (intro exI [where x = s] conjI)
qed

theorem active_rows_stay_open_witness:
  "\<exists>(s :: DDR4 GenericDRAMSystem) r. buffer (m_active_buffer (sys_controllers s ! 0)) = [r] \<and> addr_vec r = demo_addr \<and> ddr4_row_open (sys_dram s) demo_addr"
proof (rule demo_run [of "[]"])
  fix d s0 s
  assume run: "ddr4_config demo_params d Open_Row []" "system_init DDR4_ifce d None None Open_Row [] 1 = Inr s0"
    "sys_run [] DDR4_ifce demo_mapper s0 s [demo_read\<lparr>addr_vec := demo_addr\<rparr>] []"
    and act: "map (map addr_vec \<circ> buffer \<circ> m_active_buffer) (sys_controllers s) = [[demo_addr]]"
  obtain c r where c: "sys_controllers s = [c]" "buffer (m_active_buffer c) = [r]" "addr_vec r = demo_addr" using act by auto
  have "ddr4_row_open (sys_dram s) (addr_vec r)"
    using active_rows_stay_open [OF run, of 0 "[r]"] c by simp
  with c show ?thesis by (intro exI [where x = s] exI [where x = r]) simp
qed


end
