(* ===== verification/Translation.thy ===== *)
theory Translation
  imports Requests
begin

text \<open>
  The interface \<^verbatim>\<open>ITranslation\<close> of \<^verbatim>\<open>translation/translation.h\<close> as locales: what every
  page-based policy promises of \<^verbatim>\<open>translate\<close>, and, for the policies that never let two
  virtual pages share a frame, what follows for the addresses they produce.
\<close>

section \<open>Forming a physical address\<close>

text \<open>\<^verbatim>\<open>(ppn << m_offsetbits) | (addr & ((1 << m_offsetbits) - 1))\<close>\<close>

definition phys_addr :: "nat \<Rightarrow> nat \<Rightarrow> int \<Rightarrow> int" where
  "phys_addr offs ppn a = shl_i64 (int ppn) offs OR (a AND low_mask offs)"

lemma phys_addr_arith:
  assumes "offs < 31" and "int ppn * 2 ^ offs < 2 ^ 63"
  shows "phys_addr offs ppn a = int ppn * 2 ^ offs + a mod 2 ^ offs"
proof -
  have "phys_addr offs ppn a = push_bit offs (int ppn) OR take_bit offs a"
    using assms by (simp add: phys_addr_def c_arith push_bit_eq_mult take_bit_eq_mod)
  also have "\<dots> = concat_bit offs a (int ppn)"
    by (simp add: concat_bit_def or.commute)
  also have "\<dots> = int ppn * 2 ^ offs + a mod 2 ^ offs"
    by (simp add: concat_bit_eq push_bit_eq_mult take_bit_eq_mod)
  finally show ?thesis .
qed

lemma frame_bound:
  assumes "p < n" and "int n * 2 ^ offs < 2 ^ 63"
  shows "int p * 2 ^ offs < 2 ^ 63"
proof -
  have "int p * 2 ^ offs \<le> int n * 2 ^ offs" using assms(1) by (intro mult_right_mono) auto
  with assms(2) show ?thesis by linarith
qed

lemma div_mod_unique:
  fixes a b m :: int and p q :: nat
  assumes "0 < m" and "int p * m + a mod m = int q * m + b mod m"
  shows "p = q \<and> a mod m = b mod m"
proof -
  have "(int p * m + a mod m) div m = (int q * m + b mod m) div m"
    and "(int p * m + a mod m) mod m = (int q * m + b mod m) mod m"
    using assms(2) by simp_all
  with assms(1) show ?thesis by simp
qed

text \<open>The arithmetic all \<^verbatim>\<open>init\<close> methods share: page size and number of pages.\<close>

lemma page_geometry:
  assumes "k < 21" and "0 \<le> max_addr" and "max_addr < 2 ^ 63"
  shows "shl_i64 (2 ^ k) 10 = 2 ^ (k + 10)"
    "nat (take_bit 64 (max_addr sdiv 2 ^ (k + 10))) = nat (max_addr div 2 ^ (k + 10))"
    "int (nat (max_addr div 2 ^ (k + 10))) * 2 ^ (k + 10) \<le> max_addr"
proof -
  have "(2::int) ^ (k + 10) < 2 ^ 63" using assms(1) by (intro power_strict_increasing) auto
  then show "shl_i64 (2 ^ k) 10 = 2 ^ (k + 10)"
    by (subst shl_i64_mult) (simp_all add: power_add)
  let ?n = "max_addr div 2 ^ (k + 10)"
  have "max_addr sdiv 2 ^ (k + 10) = ?n"
    using assms(2) by (simp add: signed_divide_int_def sgn_if)
  moreover have nb: "0 \<le> ?n" "?n \<le> max_addr"
    using assms(2) zdiv_mono2 [of max_addr 1 "2 ^ (k + 10)"] by (simp_all add: pos_imp_zdiv_nonneg_iff)
  moreover have "take_bit 64 ?n = ?n"
    using nb assms(3) by (intro take_bit_int_eq_self) auto
  ultimately show "nat (take_bit 64 (max_addr sdiv 2 ^ (k + 10))) = nat ?n" by simp
  show "int (nat ?n) * 2 ^ (k + 10) \<le> max_addr"
    using nb(1) by (simp add: minus_mod_eq_div_mult [symmetric])
qed


section \<open>Sequences of requests\<close>

text \<open>A front end translates one request after another through the same object.\<close>

fun translate_all ::
  "(Request \<Rightarrow> 's \<Rightarrow> (bool \<times> Request \<times> 's) result) \<Rightarrow> Request list \<Rightarrow> 's \<Rightarrow> (Request list \<times> 's) result"
where
  "translate_all tr [] s = Inr ([], s)"
| "translate_all tr (r # rs) s =
     (case tr r s of
        Inl e \<Rightarrow> Inl e
      | Inr (ok, r', s') \<Rightarrow>
          (case translate_all tr rs s' of Inl e \<Rightarrow> Inl e | Inr (rs', s'') \<Rightarrow> Inr (r' # rs', s'')))"


section \<open>The contract of a page-based translation\<close>

text \<open>
  \<open>key\<close> is what a policy looks a request up by: the virtual page, or the core and the page.
\<close>

locale page_translation =
  fixes translate :: "Request \<Rightarrow> 's \<Rightarrow> (bool \<times> Request \<times> 's) result"
    and invar :: "'s \<Rightarrow> bool"
    and key :: "'s \<Rightarrow> Request \<Rightarrow> 'k"
    and frame :: "'s \<Rightarrow> 'k \<Rightarrow> nat option"
    and frames :: "'s \<Rightarrow> nat"
    and offs :: "'s \<Rightarrow> nat"
  assumes translate_invar: "invar s \<Longrightarrow> translate r s = Inr (ok, r', s') \<Longrightarrow> invar s'"
    and translate_config:
      "invar s \<Longrightarrow> translate r s = Inr (ok, r', s') \<Longrightarrow> frames s' = frames s \<and> offs s' = offs s"
    and translate_maps:
      "invar s \<Longrightarrow> translate r s = Inr (ok, r', s') \<Longrightarrow>
       \<exists>p. frame s' (key s r) = Some p \<and> addr r' = phys_addr (offs s) p (addr r)"
    and frame_in_range: "invar s \<Longrightarrow> frame s v = Some p \<Longrightarrow> p < frames s"
    and address_space: "invar s \<Longrightarrow> offs s < 31 \<and> int (frames s) * 2 ^ offs s < 2 ^ 63"
begin

lemma translate_all_invar:
  "invar s \<Longrightarrow> translate_all translate rs s = Inr (rs', s') \<Longrightarrow>
   invar s' \<and> frames s' = frames s \<and> offs s' = offs s \<and> length rs' = length rs"
proof (induction rs arbitrary: s rs')
  case Nil
  then show ?case by simp
next
  case (Cons r rs)
  then obtain ok r1 s1 rs1 where t: "translate r s = Inr (ok, r1, s1)"
    and a: "translate_all translate rs s1 = Inr (rs1, s')" and rs': "rs' = r1 # rs1"
    by (auto split: sum.splits)
  with Cons.IH [OF _ a] translate_invar [OF _ t] translate_config [OF _ t] Cons.prems
  show ?case by simp
qed

text \<open>The translated address lies in physical memory and keeps the page offset.\<close>

lemma translate_in_memory:
  assumes "invar s" and t: "translate r s = Inr (ok, r', s')"
  shows "0 \<le> addr r' \<and> addr r' < int (frames s) * 2 ^ offs s
         \<and> addr r' mod 2 ^ offs s = addr r mod 2 ^ offs s"
proof -
  obtain p where p: "frame s' (key s r) = Some p"
    "addr r' = phys_addr (offs s) p (addr r)"
    using translate_maps [OF assms] by blast
  have "p < frames s"
    using frame_in_range [OF translate_invar [OF assms] p(1)] translate_config [OF assms] by simp
  moreover have sp: "offs s < 31" "int (frames s) * 2 ^ offs s < 2 ^ 63"
    using address_space [OF assms(1)] by auto
  ultimately have eq: "addr r' = int p * 2 ^ offs s + addr r mod 2 ^ offs s"
    using p(2) phys_addr_arith [OF sp(1) frame_bound [OF _ sp(2)]] by simp
  have "int p * 2 ^ offs s + addr r mod 2 ^ offs s < (int p + 1) * 2 ^ offs s"
    by (simp add: algebra_simps)
  also have "\<dots> \<le> int (frames s) * 2 ^ offs s"
    using \<open>p < frames s\<close> by (intro mult_right_mono) auto
  finally show ?thesis using eq by simp
qed

end

text \<open>A policy with one table for all cores, under which two virtual pages never share a frame.\<close>

locale exclusive_translation =
  page_translation translate invar "\<lambda>s r. drop_bit (offs s) (addr r)" frame frames offs
  for translate :: "Request \<Rightarrow> 's \<Rightarrow> (bool \<times> Request \<times> 's) result"
    and invar frame frames offs +
  assumes frame_inj: "invar s \<Longrightarrow> frame s v = Some p \<Longrightarrow> frame s w = Some p \<Longrightarrow> v = w"
begin

lemma address_inj:
  assumes "invar s" and "frame s (drop_bit (offs s) a) = Some p"
    and "frame s (drop_bit (offs s) b) = Some q"
    and "phys_addr (offs s) p a = phys_addr (offs s) q b"
  shows "a = b"
proof -
  let ?m = "2 ^ offs s :: int"
  have sp: "offs s < 31" "int (frames s) * ?m < 2 ^ 63"
    using address_space [OF assms(1)] by auto
  have "p < frames s" "q < frames s"
    using frame_in_range [OF assms(1)] assms(2,3) by blast+
  then have "int p * ?m + a mod ?m = int q * ?m + b mod ?m"
    using assms(4) phys_addr_arith [OF sp(1) frame_bound [OF _ sp(2)]] by metis
  then have "p = q" and mod: "a mod ?m = b mod ?m"
    using div_mod_unique [of ?m] by auto
  then have "a div ?m = b div ?m"
    using frame_inj [OF assms(1)] assms(2,3) by (simp add: drop_bit_eq_div)
  with mod show ?thesis by (metis div_mult_mod_eq)
qed

end

end
