(* ===== verification/Local_To_Requester.thy ===== *)
theory Local_To_Requester
  imports Translation Utils
begin

text \<open>
  The first NUMA-aware page placement policy, \<^verbatim>\<open>translation/impl/Local_to_requester.cpp\<close>:
  a page is placed on first touch in the memory channel closest to the core that touches
  it. The physical pages are split into eight partitions, one per channel, each with a
  bitmap of its free pages and a counter of them.

  The members of the class are the record \<open>page_tables\<close>, to which the global
  \<^verbatim>\<open>page_to_channel_mapping\<close> of \<^verbatim>\<open>base/utils.h\<close> is added. Virtual page numbers are integers,
  physical page numbers naturals. The matrix of core-to-channel latencies is the argument
  \<open>lat\<close>. The random number generator is the stream of its outputs.
\<close>

section \<open>State\<close>

record page_tables =
  m_allocator_rng :: "nat stream"
  m_max_paddr :: int
  m_pagesize :: int
  m_offsetbits :: nat
  m_num_pages :: nat
  migration_counter :: nat
  HOT_PAGE_THRESHOLD :: nat
  STABILITY_WINDOW :: nat
  window_counter :: int
  m_cost :: nat
  pages_per_channel :: nat
  m_free_physical_pages2d :: "bool list list"
  m_num_free_physical_pages_per_part :: "nat list"
  global_page_table :: "int \<rightharpoonup> nat"
  reverse_page_table :: "nat \<rightharpoonup> int"
  page_access_counts_per_core :: "int \<rightharpoonup> (int \<rightharpoonup> nat)"
  m_reserved_pages :: "int set"
  page_to_channel_mapping :: "int \<rightharpoonup> nat"


section \<open>Operations\<close>

text \<open>
  \<^verbatim>\<open>calculate_migration_cost\<close>, with exact rationals for \<^verbatim>\<open>double\<close>.
\<close>

definition calculate_migration_cost :: "nat \<Rightarrow> rat \<Rightarrow> rat" where
  "calculate_migration_cost page_size memory_bandwidth =
     (let page_size_in_bytes = of_nat page_size * 1024;
          bandwidth_in_bytes_per_second = memory_bandwidth * 1024 * 1024 * 1024;
          cost_in_seconds = page_size_in_bytes / bandwidth_in_bytes_per_second;
          cost_in_microseconds = cost_in_seconds * 1000000
      in cost_in_microseconds)"

text \<open>
  \<^verbatim>\<open>init\<close>: the configuration parameters are arguments, the seeded generator is \<open>rng\<close>. The
  members the method leaves alone have their default values.
\<close>

definition lr_init :: "nat stream \<Rightarrow> int \<Rightarrow> int \<Rightarrow> nat \<Rightarrow> nat \<Rightarrow> page_tables result" where
  "lr_init rng max_addr pagesize_KB hot_page_threshold window_size =
     (let psz = shl_i64 pagesize_KB 10 in
      case calc_log2 psz of
        None \<Rightarrow> Inl No_Return
      | Some offs \<Rightarrow>
          if psz = 0 then Inl Div_By_Zero
          else
            (let npages = nat (take_bit 64 (max_addr sdiv psz)); ppc = npages div 8 in
             Inr \<lparr>m_allocator_rng = rng, m_max_paddr = max_addr, m_pagesize = psz,
                  m_offsetbits = offs, m_num_pages = npages, migration_counter = 0,
                  HOT_PAGE_THRESHOLD = hot_page_threshold, STABILITY_WINDOW = window_size,
                  window_counter = 0,
                  m_cost = nat \<lfloor>calculate_migration_cost (nat psz) 153\<rfloor>,
                  pages_per_channel = ppc,
                  m_free_physical_pages2d = replicate 8 (replicate ppc True),
                  m_num_free_physical_pages_per_part = replicate 8 ppc,
                  global_page_table = Map.empty, reverse_page_table = Map.empty,
                  page_access_counts_per_core = Map.empty, m_reserved_pages = {},
                  page_to_channel_mapping = Map.empty\<rparr>))"

text \<open>
  \<^verbatim>\<open>find_best_channel\<close>: the comparison is on \<^verbatim>\<open>size_t\<close>, so an entry is converted to 64
  unsigned bits. A core outside the matrix is an access out of bounds.
\<close>

definition best_channel_step :: "int list \<Rightarrow> nat \<times> nat \<Rightarrow> nat \<Rightarrow> nat \<times> nat" where
  "best_channel_step row acc channel =
     (case acc of (best_channel, min_latency) \<Rightarrow>
        let l = nat (take_bit 64 (row ! channel))
        in if l < min_latency then (channel, l) else (best_channel, min_latency))"

definition find_best_channel :: "int list list \<Rightarrow> int \<Rightarrow> nat result" where
  "find_best_channel lat core =
     (case vec_at lat core of
        None \<Rightarrow> Inl Out_Of_Bounds
      | Some row \<Rightarrow> Inr (fst (foldl (best_channel_step row) (0, 2 ^ 64 - 1) [0..<8])))"

text \<open>
  The allocation loop of \<^verbatim>\<open>find_random_free_page\<close> and \<^verbatim>\<open>translate\<close>: draw a page of the
  partition until a free one is found, mark it used.
\<close>

definition take_free_page ::
  "nat \<Rightarrow> 'a page_tables_scheme \<Rightarrow> (nat \<times> 'a page_tables_scheme) result" where
  "take_free_page ch s =
     (let ppc = pages_per_channel s in
      if ppc = 0 then Inl Div_By_Zero
      else case draw (\<lambda>p. m_free_physical_pages2d s ! ch ! ((p + ch * ppc) mod ppc)) ppc
                  (m_allocator_rng s) of
             None \<Rightarrow> Inl No_Return
           | Some (p, rng) \<Rightarrow>
               (let ppn = p + ch * ppc in
                Inr (ppn, s\<lparr>m_allocator_rng := rng,
                    m_free_physical_pages2d := (m_free_physical_pages2d s)
                      [ch := (m_free_physical_pages2d s ! ch)[ppn mod ppc := False]],
                    m_num_free_physical_pages_per_part := (m_num_free_physical_pages_per_part s)
                      [ch := m_num_free_physical_pages_per_part s ! ch - 1]\<rparr>)))"

text \<open>
  The state change of \<^verbatim>\<open>evict_and_replace_page\<close> before it looks for a page again. A missing
  entry of the reverse table reads as page 0, the default value of \<^verbatim>\<open>operator[]\<close>.
\<close>

definition evict_victim :: "nat \<Rightarrow> nat \<Rightarrow> 'a page_tables_scheme \<Rightarrow> 'a page_tables_scheme" where
  "evict_victim ch ppc s =
     (let victim_ppn = shd (m_allocator_rng s) mod ppc + ch * ppc;
          victim_vpn = (case reverse_page_table s victim_ppn of None \<Rightarrow> 0 | Some v \<Rightarrow> v)
      in s\<lparr>m_allocator_rng := stl (m_allocator_rng s),
           global_page_table := (global_page_table s)(victim_vpn := None),
           reverse_page_table := (reverse_page_table s)(victim_ppn := None),
           page_to_channel_mapping := (page_to_channel_mapping s)(victim_vpn := None),
           m_free_physical_pages2d := (m_free_physical_pages2d s)
             [ch := (m_free_physical_pages2d s ! ch)[victim_ppn mod ppc := True]],
           m_num_free_physical_pages_per_part := (m_num_free_physical_pages_per_part s)
             [ch := Suc (m_num_free_physical_pages_per_part s ! ch)]\<rparr>)"

text \<open>
  The two methods call each other: an empty partition evicts, and eviction looks again in
  a partition that now has a free page.
\<close>

function find_random_free_page ::
    "nat \<Rightarrow> 'a page_tables_scheme \<Rightarrow> (nat \<times> 'a page_tables_scheme) result"
  and evict_and_replace_page ::
    "nat \<Rightarrow> 'a page_tables_scheme \<Rightarrow> (nat \<times> 'a page_tables_scheme) result" where
  "find_random_free_page ch s =
     (if length (m_num_free_physical_pages_per_part s) \<le> ch then Inl Out_Of_Bounds
      else if m_num_free_physical_pages_per_part s ! ch = 0 then evict_and_replace_page ch s
      else take_free_page ch s)"
| "evict_and_replace_page ch s =
     (let ppc = m_num_pages s div 8 in
      if ppc = 0 then Inl Div_By_Zero
      else if length (m_num_free_physical_pages_per_part s) \<le> ch then Inl Out_Of_Bounds
      else find_random_free_page ch (evict_victim ch ppc s))"
  by pat_completeness auto
termination
  by (relation "measure (\<lambda>x. case x of
        Inl (ch, s) \<Rightarrow> if m_num_free_physical_pages_per_part s ! ch = 0 then 2 else 0
      | Inr (ch, s) \<Rightarrow> 1)")
    (auto simp: evict_victim_def Let_def)

declare find_random_free_page.simps [simp del] evict_and_replace_page.simps [simp del]

text \<open>\<^verbatim>\<open>page_access_counts_per_core[vpn][core]++\<close>\<close>

definition count_access ::
  "int \<Rightarrow> int \<Rightarrow> (int \<rightharpoonup> (int \<rightharpoonup> nat)) \<Rightarrow> (int \<rightharpoonup> (int \<rightharpoonup> nat))" where
  "count_access vpn core cnt =
     (let m = (case cnt vpn of None \<Rightarrow> Map.empty | Some m \<Rightarrow> m)
      in cnt(vpn \<mapsto> m(core \<mapsto> (case m core of None \<Rightarrow> 1 | Some c \<Rightarrow> Suc c))))"

text \<open>
  The bookkeeping of \<^verbatim>\<open>translate\<close>: count the access, advance the window counter. The call of
  \<^verbatim>\<open>migrate_pages\<close> at the end of a window is commented out in this class.
\<close>

definition lr_touch :: "int \<Rightarrow> int \<Rightarrow> page_tables \<Rightarrow> page_tables" where
  "lr_touch vpn core s =
     (let s1 = s\<lparr>page_access_counts_per_core :=
                 count_access vpn core (page_access_counts_per_core s),
               migration_counter := Suc (migration_counter s)\<rparr>
      in if migration_counter s1 = STABILITY_WINDOW s1 then s1\<lparr>migration_counter := 0\<rparr> else s1)"

text \<open>The choice between a free page of the partition and an eviction.\<close>

definition assign_page ::
  "nat \<Rightarrow> 'a page_tables_scheme \<Rightarrow> (nat \<times> 'a page_tables_scheme) result" where
  "assign_page ch s =
     (if length (m_num_free_physical_pages_per_part s) \<le> ch then Inl Out_Of_Bounds
      else if 0 < m_num_free_physical_pages_per_part s ! ch then take_free_page ch s
      else evict_and_replace_page ch s)"

definition lr_translate ::
  "int list list \<Rightarrow> Request \<Rightarrow> page_tables \<Rightarrow> (bool \<times> Request \<times> page_tables) result" where
  "lr_translate lat req0 s0 =
     (let vpn = drop_bit (m_offsetbits s0) (addr req0);
          req = req0\<lparr>v_addr := addr req0, vpage := vpn\<rparr>;
          s = lr_touch vpn (source_id req) s0
      in case global_page_table s vpn of
           Some ppn \<Rightarrow> Inr (True, req\<lparr>addr := phys_addr (m_offsetbits s) ppn (addr req)\<rparr>, s)
         | None \<Rightarrow>
             (case find_best_channel lat (source_id req) of
                Inl e \<Rightarrow> Inl e
              | Inr ch \<Rightarrow>
                  (case assign_page ch s of
                     Inl e \<Rightarrow> Inl e
                   | Inr (ppn, s') \<Rightarrow>
                       (let s'' = s'\<lparr>global_page_table := (global_page_table s')(vpn \<mapsto> ppn),
                                     reverse_page_table := (reverse_page_table s')(ppn \<mapsto> vpn),
                                     page_to_channel_mapping :=
                                       (page_to_channel_mapping s')(vpn \<mapsto> ch)\<rparr>
                        in Inr (True, req\<lparr>addr := phys_addr (m_offsetbits s'') ppn (addr req)\<rparr>,
                                s'')))))"

definition lr_reserve :: "int \<Rightarrow> page_tables \<Rightarrow> bool \<times> page_tables" where
  "lr_reserve a s =
     (True, s\<lparr>m_reserved_pages := insert (drop_bit (m_offsetbits s) a) (m_reserved_pages s)\<rparr>)"

definition lr_get_max_addr :: "page_tables \<Rightarrow> int" where
  "lr_get_max_addr s = m_max_paddr s"


section \<open>Invariants\<close>

definition page_free :: "'a page_tables_scheme \<Rightarrow> nat \<Rightarrow> bool" where
  "page_free s p =
     (m_free_physical_pages2d s ! (p div pages_per_channel s) ! (p mod pages_per_channel s))"

text \<open>The bitmaps and the counters of free pages agree, for every partition.\<close>

definition alloc_inv :: "'a page_tables_scheme \<Rightarrow> bool" where
  "alloc_inv s \<longleftrightarrow>
     pages_per_channel s = m_num_pages s div 8
     \<and> length (m_free_physical_pages2d s) = 8
     \<and> length (m_num_free_physical_pages_per_part s) = 8
     \<and> (\<forall>ch < 8. length (m_free_physical_pages2d s ! ch) = pages_per_channel s
          \<and> m_num_free_physical_pages_per_part s ! ch
              = length (filter id (m_free_physical_pages2d s ! ch)))"

text \<open>
  The two page tables are inverse to each other, the used pages are exactly the mapped
  ones, and the recorded channel of a page is the partition its frame lies in.
\<close>

definition table_inv :: "'a page_tables_scheme \<Rightarrow> bool" where
  "table_inv s \<longleftrightarrow>
     (\<forall>v p. global_page_table s v = Some p \<longleftrightarrow> reverse_page_table s p = Some v)
     \<and> (\<forall>p. reverse_page_table s p \<noteq> None \<longleftrightarrow> p < 8 * pages_per_channel s \<and> \<not> page_free s p)
     \<and> (\<forall>v. page_to_channel_mapping s v
           = map_option (\<lambda>p. p div pages_per_channel s) (global_page_table s v))"

lemma table_inv_inverse:
  "table_inv s \<Longrightarrow> global_page_table s v = Some p \<longleftrightarrow> reverse_page_table s p = Some v"
  by (simp add: table_inv_def)

lemma table_inv_used:
  "table_inv s \<Longrightarrow> reverse_page_table s p \<noteq> None \<longleftrightarrow> p < 8 * pages_per_channel s \<and> \<not> page_free s p"
  by (simp add: table_inv_def)

lemma table_inv_channel:
  "table_inv s \<Longrightarrow>
   page_to_channel_mapping s v = map_option (\<lambda>p. p div pages_per_channel s) (global_page_table s v)"
  by (simp add: table_inv_def)

lemma div_mod_page:
  "0 < n \<Longrightarrow> p < m * n \<Longrightarrow> p div n < (m::nat) \<and> p mod n < n"
  by (simp add: less_mult_imp_div_less)

lemma page_eq_iff: "i < n \<Longrightarrow> p = i + ch * n \<longleftrightarrow> p div n = ch \<and> p mod n = (i::nat)"
  by (metis div_mult_mod_eq add.commute mod_less div_less div_mult_self3 mod_mult_self1
      add_0 gr_implies_not0)

lemma page_in_range: "i < n \<Longrightarrow> ch < m \<Longrightarrow> i + ch * n < m * (n::nat)"
proof -
  assume "i < n" "ch < m"
  then have "i + ch * n < Suc ch * n" by simp
  also have "\<dots> \<le> m * n" using \<open>ch < m\<close> by (intro mult_le_mono1) simp
  finally show ?thesis .
qed

lemma bitmap_update:
  assumes "ch < length fs" and "i < length (fs ! ch)" and "length (fs ! ch) = n"
  shows "fs[ch := (fs ! ch)[i := b]] ! (p div n) ! (p mod n)
           = (if p = i + ch * n then b else fs ! (p div n) ! (p mod n))"
  using assms by (auto simp: page_eq_iff nth_list_update)

lemma evict_eq:
  assumes "ch < length (m_num_free_physical_pages_per_part s)" and "m_num_pages s div 8 \<noteq> 0"
  shows "evict_and_replace_page ch s = take_free_page ch (evict_victim ch (m_num_pages s div 8) s)"
proof -
  let ?s = "evict_victim ch (m_num_pages s div 8) s"
  have "m_num_free_physical_pages_per_part ?s ! ch \<noteq> 0"
    and "ch < length (m_num_free_physical_pages_per_part ?s)"
    using assms(1) by (simp_all add: evict_victim_def Let_def)
  then show ?thesis
    using assms by (simp add: evict_and_replace_page.simps find_random_free_page.simps)
qed

lemma take_free_page_Inr:
  assumes "take_free_page ch s = Inr (ppn, s')"
  obtains i k where "0 < pages_per_channel s" "i < pages_per_channel s"
    "ppn = i + ch * pages_per_channel s" "m_free_physical_pages2d s ! ch ! i"
    "s' = s\<lparr>m_allocator_rng := sdrop (Suc k) (m_allocator_rng s),
            m_free_physical_pages2d := (m_free_physical_pages2d s)
              [ch := (m_free_physical_pages2d s ! ch)[i := False]],
            m_num_free_physical_pages_per_part := (m_num_free_physical_pages_per_part s)
              [ch := m_num_free_physical_pages_per_part s ! ch - 1]\<rparr>"
proof -
  let ?n = "pages_per_channel s"
  have pos: "0 < ?n" using assms by (auto simp: take_free_page_def Let_def split: if_splits)
  then obtain i rng where d: "draw (\<lambda>p. m_free_physical_pages2d s ! ch ! ((p + ch * ?n) mod ?n)) ?n
      (m_allocator_rng s) = Some (i, rng)" and ppn: "ppn = i + ch * ?n"
    and s': "s' = s\<lparr>m_allocator_rng := rng,
            m_free_physical_pages2d := (m_free_physical_pages2d s)
              [ch := (m_free_physical_pages2d s ! ch)[ppn mod ?n := False]],
            m_num_free_physical_pages_per_part := (m_num_free_physical_pages_per_part s)
              [ch := m_num_free_physical_pages_per_part s ! ch - 1]\<rparr>"
    using assms by (auto simp: take_free_page_def Let_def split: option.splits)
  obtain k where k: "m_free_physical_pages2d s ! ch ! ((i + ch * ?n) mod ?n)"
      "i = m_allocator_rng s !! k mod ?n" "rng = sdrop (Suc k) (m_allocator_rng s)"
    using draw_Some [OF d] by auto
  have i: "i < ?n" using k(2) pos by simp
  then have "ppn mod ?n = i" using ppn by simp
  with that [OF pos i ppn, of k] k(1,3) i s' show ?thesis by simp
qed

lemma alloc_inv_take:
  assumes inv: "alloc_inv s" and ch: "ch < 8" and t: "take_free_page ch s = Inr (ppn, s')"
  shows "alloc_inv s'"
proof -
  obtain i k where *: "i < pages_per_channel s" "m_free_physical_pages2d s ! ch ! i"
    "s' = s\<lparr>m_allocator_rng := sdrop (Suc k) (m_allocator_rng s),
            m_free_physical_pages2d := (m_free_physical_pages2d s)
              [ch := (m_free_physical_pages2d s ! ch)[i := False]],
            m_num_free_physical_pages_per_part := (m_num_free_physical_pages_per_part s)
              [ch := m_num_free_physical_pages_per_part s ! ch - 1]\<rparr>"
    using take_free_page_Inr [OF t] by metis
  have "Suc (length (filter id ((m_free_physical_pages2d s ! ch)[i := False])))
      = length (filter id (m_free_physical_pages2d s ! ch))"
    using inv ch * by (intro count_marks_clear) (auto simp: alloc_inv_def)
  with inv ch * show ?thesis
    by (auto simp: alloc_inv_def nth_list_update)
qed

lemma page_free_take:
  assumes inv: "alloc_inv s" and ch: "ch < 8" and t: "take_free_page ch s = Inr (ppn, s')"
  shows "ppn < 8 * pages_per_channel s" "ppn div pages_per_channel s = ch" "page_free s ppn"
    "page_free s' p \<longleftrightarrow> page_free s p \<and> p \<noteq> ppn"
    "pages_per_channel s' = pages_per_channel s" "m_num_pages s' = m_num_pages s"
    "m_offsetbits s' = m_offsetbits s" "global_page_table s' = global_page_table s"
    "reverse_page_table s' = reverse_page_table s"
    "page_to_channel_mapping s' = page_to_channel_mapping s"
    "0 < pages_per_channel s"
proof -
  obtain i k where *: "0 < pages_per_channel s" "i < pages_per_channel s"
    "ppn = i + ch * pages_per_channel s" "m_free_physical_pages2d s ! ch ! i"
    "s' = s\<lparr>m_allocator_rng := sdrop (Suc k) (m_allocator_rng s),
            m_free_physical_pages2d := (m_free_physical_pages2d s)
              [ch := (m_free_physical_pages2d s ! ch)[i := False]],
            m_num_free_physical_pages_per_part := (m_num_free_physical_pages_per_part s)
              [ch := m_num_free_physical_pages_per_part s ! ch - 1]\<rparr>"
    using take_free_page_Inr [OF t] by metis
  show "ppn div pages_per_channel s = ch" and "page_free s ppn"
    using * by (simp_all add: page_free_def)
  show "ppn < 8 * pages_per_channel s" using * page_in_range [OF _ ch] by simp
  show "page_free s' p \<longleftrightarrow> page_free s p \<and> p \<noteq> ppn"
    using inv ch * bitmap_update [of ch "m_free_physical_pages2d s" i "pages_per_channel s" False p]
    by (auto simp: page_free_def alloc_inv_def)
qed (use take_free_page_Inr [OF t] in \<open>force\<close>)+


lemma no_free_page:
  assumes "alloc_inv s" and "ch < 8" and "m_num_free_physical_pages_per_part s ! ch = 0"
    and "i < pages_per_channel s"
  shows "\<not> m_free_physical_pages2d s ! ch ! i"
proof -
  have "\<not> 0 < length (filter id (m_free_physical_pages2d s ! ch))"
    using assms(1-3) by (auto simp: alloc_inv_def)
  then show ?thesis
    using assms unfolding count_marks_pos by (simp add: alloc_inv_def)
qed

lemma alloc_inv_evict:
  assumes inv: "alloc_inv s" and ch: "ch < 8" and zero: "m_num_free_physical_pages_per_part s ! ch = 0"
    and pos: "0 < pages_per_channel s"
  shows "alloc_inv (evict_victim ch (pages_per_channel s) s)"
proof -
  let ?i = "shd (m_allocator_rng s) mod pages_per_channel s"
  have i: "?i < pages_per_channel s" using pos by simp
  have "length (filter id ((m_free_physical_pages2d s ! ch)[?i := True]))
      = Suc (length (filter id (m_free_physical_pages2d s ! ch)))"
    using inv ch i no_free_page [OF inv ch zero i] by (intro count_marks_set) (auto simp: alloc_inv_def)
  with inv ch i show ?thesis
    by (auto simp: alloc_inv_def evict_victim_def Let_def nth_list_update)
qed

lemma evict_victim_simps [simp]:
  "pages_per_channel (evict_victim ch n s) = pages_per_channel s"
  "m_num_pages (evict_victim ch n s) = m_num_pages s"
  "m_offsetbits (evict_victim ch n s) = m_offsetbits s"
  "m_allocator_rng (evict_victim ch n s) = stl (m_allocator_rng s)"
  by (simp_all add: evict_victim_def Let_def)

lemma evict_victim_unmapped:
  "global_page_table s v = None \<Longrightarrow> global_page_table (evict_victim ch n s) v = None"
  by (simp add: evict_victim_def Let_def)

lemma table_inv_evict:
  assumes inv: "alloc_inv s" and tab: "table_inv s" and ch: "ch < 8"
    and zero: "m_num_free_physical_pages_per_part s ! ch = 0" and pos: "0 < pages_per_channel s"
  shows "table_inv (evict_victim ch (pages_per_channel s) s)"
proof -
  let ?n = "pages_per_channel s"
  let ?i = "shd (m_allocator_rng s) mod ?n"
  let ?p = "?i + ch * ?n"
  let ?s = "evict_victim ch ?n s"
  have i: "?i < ?n" using pos by simp
  have range: "?p < 8 * ?n" by (rule page_in_range [OF i ch])
  have "\<not> page_free s ?p"
    using no_free_page [OF inv ch zero i] i by (simp add: page_free_def)
  then obtain v where v: "reverse_page_table s ?p = Some v"
    using table_inv_used [OF tab, of ?p] range by auto
  have eqs: "global_page_table ?s = (global_page_table s)(v := None)"
    "reverse_page_table ?s = (reverse_page_table s)(?p := None)"
    "page_to_channel_mapping ?s = (page_to_channel_mapping s)(v := None)"
    using v by (simp_all add: evict_victim_def Let_def)
  have free: "page_free ?s q \<longleftrightarrow> q = ?p \<or> page_free s q" for q
    using inv ch i bitmap_update [of ch "m_free_physical_pages2d s" ?i ?n True q]
    by (auto simp: page_free_def alloc_inv_def evict_victim_def Let_def)
  from tab v range show ?thesis
    unfolding table_inv_def eqs free
    by (auto split: if_splits) (metis option.inject)+
qed

text \<open>Mapping a page that has just been taken restores the table invariant.\<close>

lemma table_inv_map_new:
  assumes inv: "alloc_inv s" and tab: "table_inv s" and ch: "ch < 8"
    and t: "take_free_page ch s = Inr (ppn, s')" and new: "global_page_table s vpn = None"
  shows "table_inv (s'\<lparr>global_page_table := (global_page_table s')(vpn \<mapsto> ppn),
                      reverse_page_table := (reverse_page_table s')(ppn \<mapsto> vpn),
                      page_to_channel_mapping := (page_to_channel_mapping s')(vpn \<mapsto> ch)\<rparr>)"
    (is "table_inv ?s")
proof -
  note pf = page_free_take [OF inv ch t]
  have free: "page_free ?s q \<longleftrightarrow> page_free s q \<and> q \<noteq> ppn" for q
    using pf(4) [of q] by (simp add: page_free_def)
  have unm: "reverse_page_table s ppn = None"
    using tab pf(3) by (metis table_inv_def)
  have "reverse_page_table s q \<noteq> Some vpn" for q
    using tab new by (metis table_inv_def option.distinct(1))
  with tab unm pf show ?thesis
    unfolding table_inv_def free by (auto split: if_splits)
qed



section \<open>The best channel\<close>

lemma best_channel_fold:
  fixes row defines "g \<equiv> \<lambda>ch. nat (take_bit 64 (row ! ch))"
  shows "foldl (best_channel_step row) (0, M) [0..<n] = (b, m) \<Longrightarrow>
         (m = M \<or> b < n \<and> m = g b) \<and> (\<forall>ch < n. m \<le> g ch)"
proof (induction n arbitrary: b m)
  case 0
  then show ?case by simp
next
  case (Suc n)
  obtain b0 m0 where f: "foldl (best_channel_step row) (0, M) [0..<n] = (b0, m0)"
    by (cases "foldl (best_channel_step row) (0, M) [0..<n]")
  with Suc.prems have "best_channel_step row (b0, m0) n = (b, m)" by simp
  then have "(if g n < m0 then (n, g n) else (b0, m0)) = (b, m)"
    by (auto simp: best_channel_step_def g_def Let_def split: if_splits)
  with Suc.IH [OF f] show ?case
    by (auto simp: less_Suc_eq split: if_splits)
qed

lemma find_best_channel_argmin:
  assumes "c < 8"
  shows "find_best_channel initialize_core_channel_latency (int c) = Inr c"
proof -
  let ?row = "initialize_core_channel_latency ! c"
  let ?f = "\<lambda>ch. nat (take_bit 64 (?row ! ch))"
  obtain b m where f: "foldl (best_channel_step ?row) (0, 2 ^ 64 - 1) [0..<8] = (b, m)"
    by (cases "foldl (best_channel_step ?row) (0, 2 ^ 64 - 1) [0..<8]")
  have ent: "?f h = nat (latency_pattern ! min (nat \<bar>int c - int h\<bar>) (8 - nat \<bar>int c - int h\<bar>))"
    if "h < 8" for h
  proof -
    let ?d = "min (nat \<bar>int c - int h\<bar>) (8 - nat \<bar>int c - int h\<bar>)"
    have "?d < 5" using assms that by (auto simp: min_def)
    then have "0 \<le> latency_pattern ! ?d \<and> latency_pattern ! ?d < 2 ^ 64"
      by (auto simp: latency_pattern_def less_Suc_eq numeral_eq_Suc)
    then have "take_bit 64 (latency_pattern ! ?d) = latency_pattern ! ?d"
      by (intro take_bit_int_eq_self) auto
    then show ?thesis using assms that by (simp add: latency_entry_ring)
  qed
  have diag: "?f c = 20" using ent [OF assms] by (simp add: latency_pattern_def)
  have off: "20 < ?f h" if "h < 8" "h \<noteq> c" for h
  proof -
    have "latency_pattern ! 0 < latency_pattern !
        min (nat \<bar>int c - int h\<bar>) (8 - nat \<bar>int c - int h\<bar>)"
      using that assms by (intro latency_pattern_strict) (auto simp: min_def)
    moreover have "latency_pattern ! 0 = 20" by (simp add: latency_pattern_def)
    ultimately show ?thesis using ent [OF that(1)] by linarith
  qed
  have "m \<le> 20" using best_channel_fold [OF f] diag assms by auto
  then have "b < 8" "m = ?f b" using best_channel_fold [OF f] by auto
  then have "b = c" using off [of b] \<open>m \<le> 20\<close> by fastforce
  with f assms show ?thesis by (simp add: find_best_channel_def del: upt.simps upt_conv_Cons)
qed



section \<open>Translation\<close>

lemma lr_touch_simps [simp]:
  "global_page_table (lr_touch v c s) = global_page_table s"
  "reverse_page_table (lr_touch v c s) = reverse_page_table s"
  "page_to_channel_mapping (lr_touch v c s) = page_to_channel_mapping s"
  "m_free_physical_pages2d (lr_touch v c s) = m_free_physical_pages2d s"
  "m_num_free_physical_pages_per_part (lr_touch v c s) = m_num_free_physical_pages_per_part s"
  "pages_per_channel (lr_touch v c s) = pages_per_channel s"
  "m_num_pages (lr_touch v c s) = m_num_pages s"
  "m_offsetbits (lr_touch v c s) = m_offsetbits s"
  "m_allocator_rng (lr_touch v c s) = m_allocator_rng s"
  by (simp_all add: lr_touch_def Let_def)

lemma lr_touch_inv [simp]:
  "alloc_inv (lr_touch v c s) = alloc_inv s" "table_inv (lr_touch v c s) = table_inv s"
  by (simp_all add: alloc_inv_def table_inv_def page_free_def)

text \<open>The state a fresh mapping starts from: the old one, or the one after an eviction.\<close>

definition room_for :: "nat \<Rightarrow> 'a page_tables_scheme \<Rightarrow> 'a page_tables_scheme" where
  "room_for ch s =
     (if 0 < m_num_free_physical_pages_per_part s ! ch then s
      else evict_victim ch (pages_per_channel s) s)"

lemma assign_page_eq_find: "assign_page ch s = find_random_free_page ch s"
  by (simp add: assign_page_def find_random_free_page.simps)

lemma assign_page_Inr:
  assumes inv: "alloc_inv s" and al: "assign_page ch s = Inr (ppn, s2)"
  shows "ch < 8" "0 < pages_per_channel s" "take_free_page ch (room_for ch s) = Inr (ppn, s2)"
    "m_offsetbits s2 = m_offsetbits s"
proof -
  have len: "ch < length (m_num_free_physical_pages_per_part s)"
    using al by (auto simp: assign_page_def split: if_splits)
  then show "ch < 8" using inv by (simp add: alloc_inv_def)
  show take: "take_free_page ch (room_for ch s) = Inr (ppn, s2)"
  proof (cases "0 < m_num_free_physical_pages_per_part s ! ch")
    case True
    with al len show ?thesis by (simp add: room_for_def assign_page_def)
  next
    case False
    with al len have e: "evict_and_replace_page ch s = Inr (ppn, s2)"
      by (simp add: assign_page_def)
    then have "m_num_pages s div 8 \<noteq> 0"
      by (auto simp: evict_and_replace_page.simps [of ch s] Let_def split: if_splits)
    moreover have "m_num_pages s div 8 = pages_per_channel s"
      using inv by (simp add: alloc_inv_def)
    ultimately show ?thesis using evict_eq [OF len] e False by (simp add: room_for_def)
  qed
  show "0 < pages_per_channel s" "m_offsetbits s2 = m_offsetbits s"
    by (rule take_free_page_Inr [OF take]; simp add: room_for_def split: if_splits)+
qed

lemma lr_translate_cases:
  assumes inv: "alloc_inv s0" and t: "lr_translate lat req s0 = Inr (ok, req', s')"
  obtains ppn where "ok"
      "req' = req\<lparr>v_addr := addr req, vpage := drop_bit (m_offsetbits s0) (addr req),
                  addr := phys_addr (m_offsetbits s0) ppn (addr req)\<rparr>"
      "global_page_table s0 (drop_bit (m_offsetbits s0) (addr req)) = Some ppn"
      "s' = lr_touch (drop_bit (m_offsetbits s0) (addr req)) (source_id req) s0"
  | ppn ch s2 where "ok"
      "req' = req\<lparr>v_addr := addr req, vpage := drop_bit (m_offsetbits s0) (addr req),
                  addr := phys_addr (m_offsetbits s0) ppn (addr req)\<rparr>"
      "global_page_table s0 (drop_bit (m_offsetbits s0) (addr req)) = None"
      "find_best_channel lat (source_id req) = Inr ch" "ch < 8" "0 < pages_per_channel s0"
      "take_free_page ch
         (room_for ch (lr_touch (drop_bit (m_offsetbits s0) (addr req)) (source_id req) s0))
         = Inr (ppn, s2)"
      "s' = s2\<lparr>global_page_table :=
                 (global_page_table s2)(drop_bit (m_offsetbits s0) (addr req) \<mapsto> ppn),
               reverse_page_table :=
                 (reverse_page_table s2)(ppn \<mapsto> drop_bit (m_offsetbits s0) (addr req)),
               page_to_channel_mapping :=
                 (page_to_channel_mapping s2)(drop_bit (m_offsetbits s0) (addr req) \<mapsto> ch)\<rparr>"
proof -
  let ?v = "drop_bit (m_offsetbits s0) (addr req)"
  let ?s = "lr_touch ?v (source_id req) s0"
  show thesis
  proof (cases "global_page_table s0 ?v")
    case (Some ppn)
    with t that(1) show ?thesis by (auto simp: lr_translate_def Let_def)
  next
    case None
    then obtain ch ppn s2 where ch: "find_best_channel lat (source_id req) = Inr ch"
      and al: "assign_page ch ?s = Inr (ppn, s2)"
      using t by (auto simp: lr_translate_def Let_def split: sum.splits)
    have inv': "alloc_inv ?s" using inv by simp
    note a = assign_page_Inr [OF inv' al]
    show ?thesis
      using t None ch al that(2) [OF _ _ None ch a(1) _ a(3)] a(2,4)
      by (simp add: lr_translate_def Let_def)
  qed
qed

lemma room_for_inv:
  assumes "alloc_inv s" and "table_inv s" and "ch < 8" and "0 < pages_per_channel s"
  shows "alloc_inv (room_for ch s)" "table_inv (room_for ch s)"
    "pages_per_channel (room_for ch s) = pages_per_channel s"
  using assms by (auto simp: room_for_def intro: alloc_inv_evict table_inv_evict)


definition lr_invar :: "page_tables \<Rightarrow> bool" where
  "lr_invar s \<longleftrightarrow> alloc_inv s \<and> table_inv s \<and> m_offsetbits s < 31
     \<and> int (8 * pages_per_channel s) * 2 ^ m_offsetbits s < 2 ^ 63"

lemma lr_translate_preserves:
  assumes inv: "lr_invar s" and t: "lr_translate lat r s = Inr (ok, r', s')"
  shows "lr_invar s' \<and> pages_per_channel s' = pages_per_channel s \<and> m_offsetbits s' = m_offsetbits s"
proof -
  have al: "alloc_inv s" and tab: "table_inv s" using inv by (auto simp: lr_invar_def)
  from al t show ?thesis
  proof (cases rule: lr_translate_cases)
    case (1 ppn)
    with inv show ?thesis by (simp add: lr_invar_def)
  next
    case (2 ppn ch s2)
    let ?v = "drop_bit (m_offsetbits s) (addr r)"
    let ?s = "lr_touch ?v (source_id r) s"
    have al1: "alloc_inv (room_for ch ?s)" and tab1: "table_inv (room_for ch ?s)"
      and ppc: "pages_per_channel (room_for ch ?s) = pages_per_channel s"
      using room_for_inv [of ?s ch] al tab 2(5,6) by simp_all
    have new: "global_page_table (room_for ch ?s) ?v = None"
      using 2(3) by (simp add: room_for_def evict_victim_unmapped)
    note pf = page_free_take [OF al1 2(5,7)]
    have offs: "m_offsetbits (room_for ch ?s) = m_offsetbits s" by (simp add: room_for_def)
    have "alloc_inv s'"
      using alloc_inv_take [OF al1 2(5,7)] 2(8) by (simp add: alloc_inv_def)
    moreover have "table_inv s'"
      using table_inv_map_new [OF al1 tab1 2(5,7) new] 2(8) by simp
    ultimately show ?thesis
      using inv pf(5,7) ppc offs 2(8) by (simp add: lr_invar_def)
  qed
qed

lemma lr_translate_maps:
  assumes inv: "alloc_inv s" and t: "lr_translate lat r s = Inr (ok, r', s')"
  shows "\<exists>p. global_page_table s' (drop_bit (m_offsetbits s) (addr r)) = Some p
           \<and> addr r' = phys_addr (m_offsetbits s) p (addr r)"
  using inv t by (cases rule: lr_translate_cases) auto

interpretation lr: exclusive_translation
  "lr_translate lat" lr_invar global_page_table "\<lambda>s. 8 * pages_per_channel s" m_offsetbits
proof unfold_locales
  fix s :: page_tables and r ok r' s'
  assume inv: "lr_invar s" and t: "lr_translate lat r s = Inr (ok, r', s')"
  show "lr_invar s'"
    and "8 * pages_per_channel s' = 8 * pages_per_channel s \<and> m_offsetbits s' = m_offsetbits s"
    using lr_translate_preserves [OF inv t] by auto
  show "\<exists>p. global_page_table s' (drop_bit (m_offsetbits s) (addr r)) = Some p
           \<and> addr r' = phys_addr (m_offsetbits s) p (addr r)"
    using lr_translate_maps [OF _ t] inv by (simp add: lr_invar_def)
next
  fix s :: page_tables and v p
  assume inv: "lr_invar s" and p: "global_page_table s v = Some p"
  have tab: "table_inv s" using inv by (simp add: lr_invar_def)
  show "p < 8 * pages_per_channel s"
    using table_inv_used [OF tab, of p] table_inv_inverse [OF tab, of v p] p by simp
next
  fix s :: page_tables
  assume "lr_invar s"
  then show "m_offsetbits s < 31 \<and> int (8 * pages_per_channel s) * 2 ^ m_offsetbits s < 2 ^ 63"
    by (simp add: lr_invar_def)
next
  fix s :: page_tables and v p w
  assume "lr_invar s" "global_page_table s v = Some p" "global_page_table s w = Some p"
  then show "v = w"
    by (metis lr_invar_def table_inv_inverse option.inject)
qed

lemma fresh_bitmap: "p < m * n \<Longrightarrow> replicate m (replicate n True) ! (p div n) ! (p mod (n::nat))"
  using div_mod_page [of n p m] by (cases "n = 0") auto

lemma lr_init_invar:
  assumes "lr_init rng max_addr (2 ^ k) thr win = Inr s" and "k < 21"
    and "0 \<le> max_addr" and "max_addr < 2 ^ 63"
  shows "lr_invar s \<and> m_offsetbits s = k + 10
         \<and> pages_per_channel s = nat (max_addr div 2 ^ (k + 10)) div 8
         \<and> global_page_table s = Map.empty \<and> m_allocator_rng s = rng"
proof -
  let ?n = "max_addr div 2 ^ (k + 10)"
  note g = page_geometry [OF assms(2-4)]
  have s: "m_offsetbits s = k + 10" "m_num_pages s = nat ?n" "pages_per_channel s = nat ?n div 8"
    "m_free_physical_pages2d s = replicate 8 (replicate (nat ?n div 8) True)"
    "m_num_free_physical_pages_per_part s = replicate 8 (nat ?n div 8)"
    "global_page_table s = Map.empty" "reverse_page_table s = Map.empty"
    "page_to_channel_mapping s = Map.empty" "m_allocator_rng s = rng"
    using assms(1) by (auto simp: lr_init_def g Let_def)
  have "8 * (nat ?n div 8) \<le> nat ?n" by simp
  then have "int (8 * (nat ?n div 8)) * 2 ^ (k + 10) \<le> int (nat ?n) * 2 ^ (k + 10)"
    by (intro mult_right_mono) (simp_all only: of_nat_le_iff zero_le_power zero_le_numeral)
  also note g(3)
  finally have "int (8 * (nat ?n div 8)) * 2 ^ (k + 10) < 2 ^ 63"
    using assms(4) by (rule le_less_trans)
  moreover have "alloc_inv s" by (auto simp: alloc_inv_def s)
  moreover have "table_inv s"
    by (auto simp: table_inv_def s page_free_def fresh_bitmap)
  ultimately show ?thesis using assms(2) by (simp add: lr_invar_def s)
qed


text \<open>With a fair generator the allocation loop returns, also after an eviction.\<close>

lemma take_free_page_returns:
  assumes inv: "alloc_inv s" and ch: "ch < 8" and pos: "0 < m_num_free_physical_pages_per_part s ! ch"
    and fair: "fair (pages_per_channel s) (m_allocator_rng s)"
  shows "\<exists>ppn s'. take_free_page ch s = Inr (ppn, s')
           \<and> fair (pages_per_channel s') (m_allocator_rng s')"
proof -
  let ?n = "pages_per_channel s"
  have "0 < length (filter id (m_free_physical_pages2d s ! ch))"
    using inv ch pos by (auto simp: alloc_inv_def)
  then obtain i where i: "i < ?n" "m_free_physical_pages2d s ! ch ! i"
    unfolding count_marks_pos using inv ch by (auto simp: alloc_inv_def)
  then obtain q r' where d: "draw (\<lambda>p. m_free_physical_pages2d s ! ch ! ((p + ch * ?n) mod ?n)) ?n
      (m_allocator_rng s) = Some (q, r')"
    using fair_draw [OF fair i(1), of "\<lambda>p. m_free_physical_pages2d s ! ch ! ((p + ch * ?n) mod ?n)"]
    by auto
  moreover have "fair ?n r'" using draw_Some [OF d] fair by (auto intro: fair_sdrop simp del: sdrop.simps)
  ultimately show ?thesis using i(1) by (auto simp: take_free_page_def Let_def)
qed

lemma assign_page_returns:
  assumes inv: "alloc_inv s" and ch: "ch < 8" and ppc: "0 < pages_per_channel s"
    and fair: "fair (pages_per_channel s) (m_allocator_rng s)"
  shows "\<exists>ppn s'. assign_page ch s = Inr (ppn, s')
           \<and> fair (pages_per_channel s') (m_allocator_rng s')"
proof (cases "0 < m_num_free_physical_pages_per_part s ! ch")
  case True
  with take_free_page_returns [OF inv ch _ fair] inv ch show ?thesis
    by (simp add: assign_page_def alloc_inv_def)
next
  case False
  let ?s = "evict_victim ch (pages_per_channel s) s"
  have n: "pages_per_channel s = m_num_pages s div 8"
    and len: "ch < length (m_num_free_physical_pages_per_part s)"
    using inv ch by (auto simp: alloc_inv_def)
  have "alloc_inv ?s" using alloc_inv_evict [OF inv ch _ ppc] False by simp
  moreover have "0 < m_num_free_physical_pages_per_part ?s ! ch"
    using len by (simp add: evict_victim_def Let_def)
  moreover have "fair (pages_per_channel ?s) (m_allocator_rng ?s)"
    using fair_stl [OF fair] by simp
  ultimately obtain ppn s' where "take_free_page ch ?s = Inr (ppn, s')"
      "fair (pages_per_channel s') (m_allocator_rng s')"
    using take_free_page_returns [of ?s ch] ch by auto
  with False len evict_eq [OF len] ppc n show ?thesis by (simp add: assign_page_def)
qed

lemma lr_translate_returns:
  assumes inv: "alloc_inv s" and ppc: "0 < pages_per_channel s"
    and fair: "fair (pages_per_channel s) (m_allocator_rng s)"
    and c: "0 \<le> source_id r" "source_id r < 8"
  shows "\<exists>r' s'. lr_translate initialize_core_channel_latency r s = Inr (True, r', s')
           \<and> fair (pages_per_channel s') (m_allocator_rng s')"
proof (cases "global_page_table s (drop_bit (m_offsetbits s) (addr r))")
  case (Some p)
  with fair show ?thesis by (simp add: lr_translate_def Let_def)
next
  case None
  let ?v = "drop_bit (m_offsetbits s) (addr r)"
  let ?s = "lr_touch ?v (source_id r) s"
  have ch: "find_best_channel initialize_core_channel_latency (source_id r) = Inr (nat (source_id r))"
    using find_best_channel_argmin [of "nat (source_id r)"] c by simp
  have "nat (source_id r) < 8" using c by (simp add: nat_less_iff)
  then obtain ppn s' where "assign_page (nat (source_id r)) ?s = Inr (ppn, s')"
      "fair (pages_per_channel s') (m_allocator_rng s')"
    using assign_page_returns [of ?s "nat (source_id r)"] inv ppc fair by auto
  with None ch show ?thesis by (simp add: lr_translate_def Let_def)
qed

lemma lr_translate_all_returns:
  "lr_invar s \<Longrightarrow> 0 < pages_per_channel s \<Longrightarrow> fair (pages_per_channel s) (m_allocator_rng s) \<Longrightarrow>
   list_all (\<lambda>r. 0 \<le> source_id r \<and> source_id r < 8) rs \<Longrightarrow>
   \<exists>rs' s'. translate_all (lr_translate initialize_core_channel_latency) rs s = Inr (rs', s')"
proof (induction rs arbitrary: s)
  case Nil
  then show ?case by simp
next
  case (Cons r rs)
  then obtain r' s' where t: "lr_translate initialize_core_channel_latency r s = Inr (True, r', s')"
    and f: "fair (pages_per_channel s') (m_allocator_rng s')"
    using lr_translate_returns [of s r] by (auto simp: lr_invar_def)
  with Cons.IH [of s'] Cons.prems lr_translate_preserves [OF _ t] show ?case by fastforce
qed

section \<open>Properties\<close>

lemma lr_reachable:
  assumes "lr_init rng max_addr (2 ^ k) thr win = Inr s0" and "k < 21"
    and "0 \<le> max_addr" and "max_addr < 2 ^ 63"
    and "translate_all (lr_translate lat) rs s0 = Inr (rs', s)"
  shows "lr_invar s \<and> m_offsetbits s = k + 10
         \<and> pages_per_channel s = nat (max_addr div 2 ^ (k + 10)) div 8 \<and> length rs' = length rs"
  using lr.translate_all_invar [OF _ assms(5)] lr_init_invar [OF assms(1-4)] by auto

text \<open>
  C8. From initialisation on, whatever requests are translated: the free-page counter of
  every partition is the number of free bits of its bitmap, the page table and the reverse
  table are inverse to each other, the used frames are exactly the mapped ones, and the
  recorded channel of a page is the partition of its frame. Evictions included.
\<close>

theorem lr_tables_consistent:
  assumes "lr_init rng max_addr (2 ^ k) thr win = Inr s0" and "k < 21"
    and "0 \<le> max_addr" and "max_addr < 2 ^ 63"
    and "translate_all (lr_translate lat) rs s0 = Inr (rs', s)"
  shows "alloc_inv s \<and> table_inv s"
  using lr_reachable [OF assms] by (simp add: lr_invar_def)

text \<open>
  C9. No aliasing: in every reachable state two virtual addresses with the same physical
  address are the same address, and physical addresses lie below the configured maximum.
\<close>

theorem lr_no_aliasing:
  assumes "lr_init rng max_addr (2 ^ k) thr win = Inr s0" and "k < 21"
    and "0 \<le> max_addr" and "max_addr < 2 ^ 63"
    and "translate_all (lr_translate lat) rs s0 = Inr (rs', s)"
    and "global_page_table s (drop_bit (m_offsetbits s) a) = Some p"
  shows "phys_addr (m_offsetbits s) p a < max_addr
         \<and> (\<forall>b q. global_page_table s (drop_bit (m_offsetbits s) b) = Some q
                \<and> phys_addr (m_offsetbits s) p a = phys_addr (m_offsetbits s) q b \<longrightarrow> a = b)"
proof
  have inv: "lr_invar s" using lr_reachable [OF assms(1-5)] by simp
  then show "\<forall>b q. global_page_table s (drop_bit (m_offsetbits s) b) = Some q
      \<and> phys_addr (m_offsetbits s) p a = phys_addr (m_offsetbits s) q b \<longrightarrow> a = b"
    using lr.address_inj assms(6) by blast
  let ?m = "2 ^ m_offsetbits s :: int"
  have p: "p < 8 * pages_per_channel s" by (rule lr.frame_in_range [OF inv assms(6)])
  have sp: "m_offsetbits s < 31" "int (8 * pages_per_channel s) * ?m < 2 ^ 63"
    using lr.address_space [OF inv] by auto
  have "phys_addr (m_offsetbits s) p a = int p * ?m + a mod ?m"
    by (rule phys_addr_arith [OF sp(1) frame_bound [OF p sp(2)]])
  also have "\<dots> < (int p + 1) * ?m" by (simp add: algebra_simps)
  also have "\<dots> \<le> (max_addr div ?m) * ?m"
  proof (rule mult_right_mono)
    have "int (8 * pages_per_channel s) \<le> max_addr div ?m"
      using lr_reachable [OF assms(1-5)] assms(3) by (simp add: zdiv_int pos_imp_zdiv_nonneg_iff)
    then show "int p + 1 \<le> max_addr div ?m" using p by simp
  qed simp
  also have "\<dots> \<le> max_addr" by (simp add: minus_mod_eq_div_mult [symmetric])
  finally show "phys_addr (m_offsetbits s) p a < max_addr" .
qed

text \<open>
  C23. Placement: a page touched for the first time by core \<open>c < 8\<close> is placed in channel
  \<open>c\<close>, the channel with the smallest latency of the built-in matrix, and a mapping that
  exists is kept unless the partition of that channel is full.
\<close>

theorem lr_first_touch_local:
  assumes inv: "lr_invar s"
    and t: "lr_translate initialize_core_channel_latency r s = Inr (ok, r', s')"
    and new: "global_page_table s (drop_bit (m_offsetbits s) (addr r)) = None"
    and c: "source_id r = int c" "c < 8"
  shows "ok \<and> page_to_channel_mapping s' (drop_bit (m_offsetbits s) (addr r)) = Some c
         \<and> (\<exists>p. global_page_table s' (drop_bit (m_offsetbits s) (addr r)) = Some p
               \<and> p div pages_per_channel s = c)
         \<and> (0 < m_num_free_physical_pages_per_part s ! c \<longrightarrow>
              global_page_table s \<subseteq>\<^sub>m global_page_table s')"
proof -
  have al: "alloc_inv s" and tab: "table_inv s" using inv by (auto simp: lr_invar_def)
  from al t show ?thesis
  proof (cases rule: lr_translate_cases)
    case (1 ppn)
    with new show ?thesis by simp
  next
    case (2 ppn ch s2)
    let ?v = "drop_bit (m_offsetbits s) (addr r)"
    let ?s = "lr_touch ?v (source_id r) s"
    have "ch = c" using 2(4) find_best_channel_argmin [OF c(2)] c(1) by simp
    have al1: "alloc_inv (room_for ch ?s)"
      and ppc: "pages_per_channel (room_for ch ?s) = pages_per_channel s"
      using room_for_inv [of ?s ch] al tab 2(5,6) by simp_all
    note pf = page_free_take [OF al1 2(5,7)]
    have "global_page_table s \<subseteq>\<^sub>m global_page_table s'"
      if "0 < m_num_free_physical_pages_per_part s ! c"
      using that 2(8) pf(8) new \<open>ch = c\<close> by (auto simp: map_le_def room_for_def)
    with 2(1,8) pf(2) ppc \<open>ch = c\<close> show ?thesis by simp
  qed
qed

text \<open>
  C22. Translation never hangs and never faults on the cores the latency matrix covers: with
  a generator that keeps drawing every residue, and at least one page per channel, every
  sequence of requests from cores 0 to 7 is translated.
\<close>

theorem lr_translation_returns:
  assumes "lr_init rng max_addr (2 ^ k) thr win = Inr s0" and "k < 21"
    and "8 * 2 ^ (k + 10) \<le> max_addr" and "max_addr < 2 ^ 63"
    and "fair (nat (max_addr div 2 ^ (k + 10)) div 8) rng"
    and "list_all (\<lambda>r. 0 \<le> source_id r \<and> source_id r < 8) rs"
  shows "\<exists>rs' s. translate_all (lr_translate initialize_core_channel_latency) rs s0 = Inr (rs', s)
           \<and> length rs' = length rs"
proof -
  have nn: "0 \<le> max_addr" by (rule order_trans [OF _ assms(3)]) simp
  note i = lr_init_invar [OF assms(1,2) nn assms(4)]
  have "8 \<le> max_addr div 2 ^ (k + 10)"
    using zdiv_mono1 [OF assms(3), of "2 ^ (k + 10)"] by simp
  then have "0 < pages_per_channel s0" using i by (simp add: div_greater_zero_iff)
  then obtain rs' s where "translate_all (lr_translate initialize_core_channel_latency) rs s0 = Inr (rs', s)"
    using lr_translate_all_returns [of s0 rs] i assms(5,6) by auto
  then show ?thesis using lr.translate_all_invar i by blast
qed

text \<open>
  C38. A core the 8 by 8 latency matrix does not cover reads outside it on the first touch
  of a page.
\<close>

theorem lr_core_out_of_matrix:
  assumes "global_page_table s (drop_bit (m_offsetbits s) (addr r)) = None" and "8 \<le> source_id r"
  shows "lr_translate initialize_core_channel_latency r s = Inl Out_Of_Bounds"
proof -
  have "vec_at initialize_core_channel_latency (source_id r) = None"
    using assms(2) by (simp add: vec_at_def)
  with assms(1) show ?thesis by (simp add: lr_translate_def Let_def find_best_channel_def)
qed


section \<open>Witnesses\<close>

text \<open>A memory of two pages per channel and a generator that counts up from zero.\<close>

definition lr_demo :: page_tables where
  "lr_demo = \<lparr>m_allocator_rng = siterate Suc 0, m_max_paddr = 65536, m_pagesize = 4096,
     m_offsetbits = 12, m_num_pages = 16, migration_counter = 0, HOT_PAGE_THRESHOLD = 1,
     STABILITY_WINDOW = 2, window_counter = 0,
     m_cost = nat \<lfloor>calculate_migration_cost 4096 153\<rfloor>, pages_per_channel = 2,
     m_free_physical_pages2d = replicate 8 (replicate 2 True),
     m_num_free_physical_pages_per_part = replicate 8 2,
     global_page_table = Map.empty, reverse_page_table = Map.empty,
     page_access_counts_per_core = Map.empty, m_reserved_pages = {},
     page_to_channel_mapping = Map.empty\<rparr>"

definition lr_demo_request :: Request where
  "lr_demo_request = default_Request\<lparr>addr := 5000, source_id := 3\<rparr>"

lemma lr_demo_init: "lr_init (siterate Suc 0) 65536 (2 ^ 2) 1 2 = Inr lr_demo"
proof -
  have "shl_i64 4 10 = 4096" by (simp add: shl_i64_mult)
  moreover have "calc_log2 4096 = Some 12" using calc_log2_pow2 [of 12] by simp
  ultimately show ?thesis
    by (simp add: lr_init_def lr_demo_def Let_def signed_divide_int_def take_bit_eq_mod)
qed

lemma lr_demo_translate:
  "\<exists>s. lr_translate initialize_core_channel_latency lr_demo_request lr_demo
      = Inr (True, lr_demo_request\<lparr>v_addr := 5000, vpage := 1, addr := 25480\<rparr>, s)
     \<and> global_page_table s = [1 \<mapsto> 6]"
proof -
  have ch: "find_best_channel initialize_core_channel_latency 3 = Inr 3"
    using find_best_channel_argmin [of 3] by simp
  have v: "drop_bit 12 (5000::int) = 1" by simp
  have p: "phys_addr 12 6 5000 = 25480" by (subst phys_addr_arith) simp_all
  have "draw (\<lambda>p. replicate 8 (replicate 2 True) ! 3 ! ((p + 6) mod 2)) 2 (siterate Suc 0)
      = Some (0, siterate Suc 1)"
    by (subst draw.simps) simp
  then show ?thesis
    by (simp add: lr_translate_def lr_demo_request_def default_Request_def v ch p Let_def
        lr_demo_def lr_touch_def assign_page_def take_free_page_def)
qed

lemma lr_demo_translate_all:
  "\<exists>s. translate_all (lr_translate initialize_core_channel_latency) [lr_demo_request] lr_demo
      = Inr ([lr_demo_request\<lparr>v_addr := 5000, vpage := 1, addr := 25480\<rparr>], s)
     \<and> global_page_table s = [1 \<mapsto> 6] \<and> m_offsetbits s = 12"
proof -
  obtain s where s: "lr_translate initialize_core_channel_latency lr_demo_request lr_demo
      = Inr (True, lr_demo_request\<lparr>v_addr := 5000, vpage := 1, addr := 25480\<rparr>, s)"
    "global_page_table s = [1 \<mapsto> 6]"
    using lr_demo_translate by blast
  have "lr_invar lr_demo" using lr_init_invar [OF lr_demo_init] by simp
  then have "m_offsetbits s = 12" using lr_translate_preserves [OF _ s(1)] by (simp add: lr_demo_def)
  with s show ?thesis by auto
qed

theorem lr_tables_consistent_witness:
  "\<exists>s. translate_all (lr_translate initialize_core_channel_latency) [lr_demo_request] lr_demo
      = Inr ([lr_demo_request\<lparr>v_addr := 5000, vpage := 1, addr := 25480\<rparr>], s)
     \<and> alloc_inv s \<and> table_inv s"
  using lr_demo_translate_all lr_tables_consistent [OF lr_demo_init] by fastforce

theorem lr_no_aliasing_witness:
  "\<exists>s. translate_all (lr_translate initialize_core_channel_latency) [lr_demo_request] lr_demo
      = Inr ([lr_demo_request\<lparr>v_addr := 5000, vpage := 1, addr := 25480\<rparr>], s)
     \<and> global_page_table s 1 = Some 6 \<and> phys_addr 12 6 5000 < 65536"
proof -
  obtain s where s: "translate_all (lr_translate initialize_core_channel_latency) [lr_demo_request] lr_demo
      = Inr ([lr_demo_request\<lparr>v_addr := 5000, vpage := 1, addr := 25480\<rparr>], s)"
    "global_page_table s = [1 \<mapsto> 6]" "m_offsetbits s = 12"
    using lr_demo_translate_all by blast
  then have "phys_addr 12 6 5000 < 65536"
    using lr_no_aliasing [OF lr_demo_init _ _ _ s(1), of 5000 6] by simp
  with s show ?thesis by auto
qed

theorem lr_first_touch_local_witness:
  "\<exists>r' s. lr_translate initialize_core_channel_latency lr_demo_request lr_demo = Inr (True, r', s)
     \<and> page_to_channel_mapping s 1 = Some 3"
proof -
  have inv: "lr_invar lr_demo" using lr_init_invar [OF lr_demo_init] by simp
  have "m_offsetbits lr_demo = 12" "addr lr_demo_request = 5000" "source_id lr_demo_request = int 3"
    "global_page_table lr_demo = Map.empty"
    by (simp_all add: lr_demo_def lr_demo_request_def default_Request_def)
  with lr_first_touch_local [OF inv, of lr_demo_request _ _ _ 3] lr_demo_translate show ?thesis
    by fastforce
qed

theorem lr_translation_returns_witness:
  "\<exists>rs' s. translate_all (lr_translate initialize_core_channel_latency)
      [lr_demo_request, lr_demo_request] lr_demo = Inr (rs', s) \<and> length rs' = 2"
  using lr_translation_returns [OF lr_demo_init, of "[lr_demo_request, lr_demo_request]"]
  by (simp add: fair_siterate lr_demo_request_def default_Request_def numeral_2_eq_2
      del: translate_all.simps)

theorem lr_core_out_of_matrix_witness:
  "lr_translate initialize_core_channel_latency (lr_demo_request\<lparr>source_id := 11\<rparr>) lr_demo
   = Inl Out_Of_Bounds"
  by (rule lr_core_out_of_matrix) (simp_all add: lr_demo_def)

end
