(* ===== verification/Dynamic_Migration.thy ===== *)
theory Dynamic_Migration
  imports Local_To_Requester
begin

text \<open>
  The second NUMA-aware policy, \<^verbatim>\<open>translation/impl/Dynamic_migration.cpp\<close>: first-touch
  placement as in \<^verbatim>\<open>Local_to_requester\<close>, and at the end of every window of
  \<^verbatim>\<open>STABILITY_WINDOW\<close> accesses the hot pages move to the channel that is closest to the core
  that used them most. The members and methods the two classes have in common, line by
  line, are those of the theory of the first one, whose operations accept the extended
  record.

  A loop over an \<^verbatim>\<open>unordered_map\<close> visits the keys in an order the library does not promise.
  It is the argument \<open>iter\<close> for the page table and \<open>citer\<close> for the cores of a page, both
  functions of the whole state, which differs from one call of \<^verbatim>\<open>migrate_pages\<close> to the next
  in its window counter.
\<close>

section \<open>State\<close>

record migration_tables = page_tables +
  last_migration_window :: "int \<rightharpoonup> int"
  COOLDOWN_WINDOWS :: int
  bandwidth :: rat
  migrations :: int

text \<open>
  \<^verbatim>\<open>init\<close>. A bandwidth that is not positive makes the conversion of the cost to \<^verbatim>\<open>size_t\<close>
  leave its range.
\<close>

definition dm_init ::
  "nat stream \<Rightarrow> int \<Rightarrow> int \<Rightarrow> nat \<Rightarrow> nat \<Rightarrow> int \<Rightarrow> rat \<Rightarrow> migration_tables result" where
  "dm_init rng max_addr pagesize_KB hot_page_threshold window_size cooldown bw =
     (let psz = shl_i64 pagesize_KB 10 in
      case calc_log2 psz of
        None \<Rightarrow> Inl No_Return
      | Some offs \<Rightarrow>
          if psz = 0 then Inl Div_By_Zero
          else if bw \<le> 0 then Inl Out_Of_Range
          else
            (let npages = nat (take_bit 64 (max_addr sdiv psz)); ppc = npages div 8 in
             Inr \<lparr>m_allocator_rng = rng, m_max_paddr = max_addr, m_pagesize = psz,
                  m_offsetbits = offs, m_num_pages = npages, migration_counter = 0,
                  HOT_PAGE_THRESHOLD = hot_page_threshold, STABILITY_WINDOW = window_size,
                  window_counter = 0,
                  m_cost = nat \<lfloor>calculate_migration_cost (nat psz) bw\<rfloor>,
                  pages_per_channel = ppc,
                  m_free_physical_pages2d = replicate 8 (replicate ppc True),
                  m_num_free_physical_pages_per_part = replicate 8 ppc,
                  global_page_table = Map.empty, reverse_page_table = Map.empty,
                  page_access_counts_per_core = Map.empty, m_reserved_pages = {},
                  page_to_channel_mapping = Map.empty,
                  last_migration_window = Map.empty, COOLDOWN_WINDOWS = cooldown,
                  bandwidth = bw, migrations = 0\<rparr>))"


section \<open>Migration\<close>

text \<open>The counters of a page; \<^verbatim>\<open>operator[]\<close> gives the empty map for a page without.\<close>

definition page_counts :: "'a page_tables_scheme \<Rightarrow> int \<Rightarrow> (int \<rightharpoonup> nat)" where
  "page_counts s vpn =
     (case page_access_counts_per_core s vpn of None \<Rightarrow> Map.empty | Some m \<Rightarrow> m)"

definition core_count :: "'a page_tables_scheme \<Rightarrow> int \<Rightarrow> int \<Rightarrow> nat" where
  "core_count s vpn core = (case page_counts s vpn core of None \<Rightarrow> 0 | Some c \<Rightarrow> c)"

definition is_hot_page :: "int list \<Rightarrow> int \<Rightarrow> 'a page_tables_scheme \<Rightarrow> bool" where
  "is_hot_page cores vpn s =
     (HOT_PAGE_THRESHOLD s \<le> foldl (\<lambda>total core. total + core_count s vpn core) 0 cores)"

definition find_most_frequent_core :: "int list \<Rightarrow> int \<Rightarrow> 'a page_tables_scheme \<Rightarrow> int" where
  "find_most_frequent_core cores vpn s =
     fst (foldl (\<lambda>(best, mx) core.
            if mx < core_count s vpn core then (core, core_count s vpn core) else (best, mx))
          (0, 0) cores)"

text \<open>\<^verbatim>\<open>std::min_element\<close> on a row of the matrix: the first position of the least entry.\<close>

definition min_element :: "int list \<Rightarrow> nat" where
  "min_element row = foldl (\<lambda>best i. if row ! i < row ! best then i else best) 0 [1..<length row]"

definition estimate_latency_gain ::
  "int list list \<Rightarrow> int \<Rightarrow> int \<Rightarrow> nat \<Rightarrow> 'a page_tables_scheme \<Rightarrow> int result" where
  "estimate_latency_gain lat vpn core current_channel s =
     (case vec_at lat core of
        None \<Rightarrow> Inl Out_Of_Bounds
      | Some row \<Rightarrow>
          (case vec_at row (int current_channel) of
             None \<Rightarrow> Inl Out_Of_Bounds
           | Some current_latency \<Rightarrow>
               (let new_latency = row ! min_element row;
                    predicted_accesses = core_count s vpn core * 1
                in Inr ((current_latency - new_latency) * 2 * int predicted_accesses))))"

text \<open>
  One round of the loop of \<^verbatim>\<open>migrate_pages\<close>, for a page the loop visits. The read of
  \<^verbatim>\<open>page_to_channel_mapping[vpn]\<close> creates a missing entry with channel 0. When the page that
  makes room is the page being moved, the loop goes on from an erased element.
\<close>

definition cooling_down :: "int \<Rightarrow> migration_tables \<Rightarrow> bool" where
  "cooling_down vpn s =
     (case last_migration_window s vpn of
        None \<Rightarrow> False
      | Some last_window \<Rightarrow> window_counter s - last_window < COOLDOWN_WINDOWS s)"

definition move_page :: "int \<Rightarrow> nat \<Rightarrow> migration_tables \<Rightarrow> migration_tables result" where
  "move_page vpn best_channel s =
     (case find_random_free_page best_channel s of
        Inl e \<Rightarrow> Inl e
      | Inr (ppn, s') \<Rightarrow>
          if global_page_table s' vpn = None then Inl Invalid_Iterator
          else Inr (s'\<lparr>global_page_table := (global_page_table s')(vpn \<mapsto> ppn),
                      page_to_channel_mapping := (page_to_channel_mapping s')(vpn \<mapsto> best_channel),
                      last_migration_window := (last_migration_window s')(vpn \<mapsto> window_counter s'),
                      migrations := migrations s' + 1\<rparr>))"

definition migrate_page ::
  "int list list \<Rightarrow> int list \<Rightarrow> int \<Rightarrow> migration_tables \<Rightarrow> migration_tables result" where
  "migrate_page lat cores vpn s0 =
     (if \<not> is_hot_page cores vpn s0 then Inr s0
      else if vpn = 0 then Inr s0
      else
        (let core = find_most_frequent_core cores vpn s0 in
         case find_best_channel lat core of
           Inl e \<Rightarrow> Inl e
         | Inr best_channel \<Rightarrow>
             (let current_channel =
                    (case page_to_channel_mapping s0 vpn of None \<Rightarrow> 0 | Some c \<Rightarrow> c);
                  s = s0\<lparr>page_to_channel_mapping :=
                           (page_to_channel_mapping s0)(vpn \<mapsto> current_channel)\<rparr>
              in if best_channel = current_channel then Inr s
                 else if cooling_down vpn s then Inr s
                 else
                   (case estimate_latency_gain lat vpn core current_channel s of
                      Inl e \<Rightarrow> Inl e
                    | Inr gain \<Rightarrow>
                        if of_nat (m_cost s) < (of_int gain :: rat) / 1000
                        then move_page vpn best_channel s
                        else Inr s))))"

text \<open>
  The loop visits the keys in the order \<open>vpns\<close> and passes over those that an eviction has
  erased on the way.
\<close>

fun migrate_loop ::
  "int list list \<Rightarrow> (migration_tables \<Rightarrow> int \<Rightarrow> int list) \<Rightarrow> int list \<Rightarrow> migration_tables
   \<Rightarrow> migration_tables result" where
  "migrate_loop lat citer [] s = Inr s"
| "migrate_loop lat citer (vpn # vpns) s =
     (if global_page_table s vpn = None then migrate_loop lat citer vpns s
      else case migrate_page lat (citer s vpn) vpn s of
             Inl e \<Rightarrow> Inl e
           | Inr s' \<Rightarrow> migrate_loop lat citer vpns s')"

definition reset_all_page_access_counts :: "migration_tables \<Rightarrow> migration_tables" where
  "reset_all_page_access_counts s = s\<lparr>page_access_counts_per_core := Map.empty\<rparr>"

definition migrate_pages ::
  "int list list \<Rightarrow> (migration_tables \<Rightarrow> int list) \<Rightarrow> (migration_tables \<Rightarrow> int \<Rightarrow> int list)
   \<Rightarrow> migration_tables \<Rightarrow> migration_tables result" where
  "migrate_pages lat iter citer s =
     (case migrate_loop lat citer (iter s) s of
        Inl e \<Rightarrow> Inl e
      | Inr s' \<Rightarrow>
          Inr (reset_all_page_access_counts (s'\<lparr>window_counter := window_counter s' + 1\<rparr>)))"


section \<open>Translation\<close>

definition dm_touch ::
  "int list list \<Rightarrow> (migration_tables \<Rightarrow> int list) \<Rightarrow> (migration_tables \<Rightarrow> int \<Rightarrow> int list)
   \<Rightarrow> int \<Rightarrow> int \<Rightarrow> migration_tables \<Rightarrow> migration_tables result" where
  "dm_touch lat iter citer vpn core s =
     (let s1 = s\<lparr>page_access_counts_per_core :=
                 count_access vpn core (page_access_counts_per_core s),
               migration_counter := Suc (migration_counter s)\<rparr>
      in if migration_counter s1 = STABILITY_WINDOW s1
         then (case migrate_pages lat iter citer s1 of
                 Inl e \<Rightarrow> Inl e
               | Inr s2 \<Rightarrow> Inr (s2\<lparr>migration_counter := 0\<rparr>))
         else Inr s1)"

definition dm_translate ::
  "int list list \<Rightarrow> (migration_tables \<Rightarrow> int list) \<Rightarrow> (migration_tables \<Rightarrow> int \<Rightarrow> int list)
   \<Rightarrow> Request \<Rightarrow> migration_tables \<Rightarrow> (bool \<times> Request \<times> migration_tables) result" where
  "dm_translate lat iter citer req0 s0 =
     (let vpn = drop_bit (m_offsetbits s0) (addr req0);
          req = req0\<lparr>v_addr := addr req0, vpage := vpn\<rparr>
      in case dm_touch lat iter citer vpn (source_id req) s0 of
           Inl e \<Rightarrow> Inl e
         | Inr s \<Rightarrow>
             (case global_page_table s vpn of
                Some ppn \<Rightarrow> Inr (True, req\<lparr>addr := phys_addr (m_offsetbits s) ppn (addr req)\<rparr>, s)
              | None \<Rightarrow>
                  (case find_best_channel lat (source_id req) of
                     Inl e \<Rightarrow> Inl e
                   | Inr ch \<Rightarrow>
                       (case assign_page ch s of
                          Inl e \<Rightarrow> Inl e
                        | Inr (ppn, s') \<Rightarrow>
                            (let s'' = s'\<lparr>global_page_table := (global_page_table s')(vpn \<mapsto> ppn),
                                          reverse_page_table := (reverse_page_table s')(ppn \<mapsto> vpn),
                                          page_to_channel_mapping :=
                                            (page_to_channel_mapping s')(vpn \<mapsto> ch)\<rparr>
                             in Inr (True, req\<lparr>addr := phys_addr (m_offsetbits s'') ppn (addr req)\<rparr>,
                                     s''))))))"

definition dm_reserve :: "int \<Rightarrow> migration_tables \<Rightarrow> bool \<times> migration_tables" where
  "dm_reserve a s =
     (True, s\<lparr>m_reserved_pages := insert (drop_bit (m_offsetbits s) a) (m_reserved_pages s)\<rparr>)"

definition dm_get_max_addr :: "migration_tables \<Rightarrow> int" where
  "dm_get_max_addr s = m_max_paddr s"


section \<open>Invariants\<close>

text \<open>Every mapped frame exists, and the recorded channel of a page is the partition of its frame.\<close>

definition place_inv :: "'a page_tables_scheme \<Rightarrow> bool" where
  "place_inv s \<longleftrightarrow>
     (\<forall>v. page_to_channel_mapping s v
        = map_option (\<lambda>p. p div pages_per_channel s) (global_page_table s v))
     \<and> (\<forall>v p. global_page_table s v = Some p \<longrightarrow> p < 8 * pages_per_channel s)"

lemma place_inv_evict [intro]: "place_inv s \<Longrightarrow> place_inv (evict_victim ch n s)"
  by (auto simp: place_inv_def evict_victim_def Let_def)

lemma place_inv_room: "place_inv s \<Longrightarrow> place_inv (room_for ch s)"
  by (auto simp: room_for_def)

lemma place_inv_set:
  "place_inv s \<Longrightarrow> ppn < 8 * pages_per_channel s \<Longrightarrow> ppn div pages_per_channel s = ch \<Longrightarrow>
   global_page_table s' = (global_page_table s)(v \<mapsto> ppn) \<Longrightarrow>
   page_to_channel_mapping s' = (page_to_channel_mapping s)(v \<mapsto> ch) \<Longrightarrow>
   pages_per_channel s' = pages_per_channel s \<Longrightarrow> place_inv s'"
  by (auto simp: place_inv_def)

lemma alloc_inv_cong:
  "m_num_pages s' = m_num_pages s \<Longrightarrow> pages_per_channel s' = pages_per_channel s \<Longrightarrow>
   m_free_physical_pages2d s' = m_free_physical_pages2d s \<Longrightarrow>
   m_num_free_physical_pages_per_part s' = m_num_free_physical_pages_per_part s \<Longrightarrow>
   alloc_inv s' = alloc_inv s"
  by (simp add: alloc_inv_def)

text \<open>What an allocation does to the state, whether or not it has to evict.\<close>

lemma assign_page_effect:
  assumes inv: "alloc_inv s" and pl: "place_inv s" and al: "assign_page ch s = Inr (ppn, s')"
  shows "alloc_inv s'" "place_inv s'" "ppn < 8 * pages_per_channel s'" "ch < 8"
    "ppn div pages_per_channel s' = ch" "pages_per_channel s' = pages_per_channel s"
    "m_offsetbits s' = m_offsetbits s" "page_tables.more s' = page_tables.more s"
    "window_counter s' = window_counter s"
    "global_page_table s' \<subseteq>\<^sub>m global_page_table s"
proof -
  note a = assign_page_Inr [OF inv al]
  let ?s = "room_for ch s"
  have ppc: "pages_per_channel ?s = pages_per_channel s" by (simp add: room_for_def)
  have inv1: "alloc_inv ?s" using inv a(1,2) by (auto simp: room_for_def intro: alloc_inv_evict)
  note pf = page_free_take [OF inv1 a(1,3)]
  obtain fs ns rng where s': "s' = ?s\<lparr>m_allocator_rng := rng, m_free_physical_pages2d := fs,
      m_num_free_physical_pages_per_part := ns\<rparr>"
    using take_free_page_Inr [OF a(3)] by metis
  show "alloc_inv s'" by (rule alloc_inv_take [OF inv1 a(1,3)])
  show "place_inv s'"
    using place_inv_room [OF pl, of ch] pf(5,8,10) by (simp add: place_inv_def)
  show "page_tables.more s' = page_tables.more s" "window_counter s' = window_counter s"
    using s' by (simp_all add: room_for_def evict_victim_def Let_def)
  show "global_page_table s' \<subseteq>\<^sub>m global_page_table s"
    using pf(8) by (auto simp: map_le_def room_for_def evict_victim_def Let_def split: if_splits)
  show "ppn < 8 * pages_per_channel s'" "ppn div pages_per_channel s' = ch"
    "pages_per_channel s' = pages_per_channel s"
    using pf(1,2,5) ppc by simp_all
qed (use assign_page_Inr [OF inv al] in simp_all)

text \<open>The operations of a window keep the invariants and the configuration.\<close>

definition dm_invar :: "migration_tables \<Rightarrow> bool" where
  "dm_invar s \<longleftrightarrow> alloc_inv s \<and> place_inv s \<and> m_offsetbits s < 31
     \<and> int (8 * pages_per_channel s) * 2 ^ m_offsetbits s < 2 ^ 63"

definition same_config :: "migration_tables \<Rightarrow> migration_tables \<Rightarrow> bool" where
  "same_config s s' \<longleftrightarrow> pages_per_channel s' = pages_per_channel s \<and> m_offsetbits s' = m_offsetbits s"

lemma same_config_refl [simp]: "same_config s s"
  by (simp add: same_config_def)

lemma same_config_trans [trans]: "same_config a b \<Longrightarrow> same_config b c \<Longrightarrow> same_config a c"
  by (simp add: same_config_def)

lemma dm_invar_cong:
  "dm_invar s \<Longrightarrow> same_config s s' \<Longrightarrow> alloc_inv s' \<Longrightarrow> place_inv s' \<Longrightarrow> dm_invar s'"
  by (simp add: dm_invar_def same_config_def)

lemma dm_invar_counters [simp]:
  "dm_invar (s\<lparr>page_access_counts_per_core := c\<rparr>) = dm_invar s"
  "dm_invar (s\<lparr>migration_counter := n\<rparr>) = dm_invar s"
  "dm_invar (s\<lparr>window_counter := w\<rparr>) = dm_invar s"
  by (simp_all add: dm_invar_def alloc_inv_def place_inv_def)

lemma move_page_invar:
  assumes inv: "dm_invar s" and m: "move_page vpn ch s = Inr s'"
  shows "dm_invar s' \<and> same_config s s'"
proof -
  obtain ppn s1 where f: "assign_page ch s = Inr (ppn, s1)"
    and s': "s' = s1\<lparr>global_page_table := (global_page_table s1)(vpn \<mapsto> ppn),
      page_to_channel_mapping := (page_to_channel_mapping s1)(vpn \<mapsto> ch),
      last_migration_window := (last_migration_window s1)(vpn \<mapsto> window_counter s1),
      migrations := migrations s1 + 1\<rparr>"
    using m by (auto simp: move_page_def assign_page_eq_find split: sum.splits if_splits)
  have al: "alloc_inv s" and pl: "place_inv s" using inv by (auto simp: dm_invar_def)
  note e = assign_page_effect [OF al pl f]
  have c: "same_config s s'" using e(6,7) s' by (simp add: same_config_def)
  moreover have "alloc_inv s'" using e(1) s' by (simp add: alloc_inv_def)
  moreover have "place_inv s'" using s' by (intro place_inv_set [OF e(2,3,5)]) simp_all
  ultimately show ?thesis using dm_invar_cong [OF inv c] by simp
qed

lemma channel_entry_invar:
  assumes "dm_invar s" and "global_page_table s vpn = Some p"
  shows "page_to_channel_mapping s vpn = Some (p div pages_per_channel s)" "p < 8 * pages_per_channel s"
  using assms by (auto simp: dm_invar_def place_inv_def)

text \<open>
  On a mapped page the round reads an existing entry of the channel map, so it either
  leaves the state alone or moves the page.
\<close>

lemma migrate_page_cases:
  assumes inv: "dm_invar s" and map: "global_page_table s vpn = Some p"
    and m: "migrate_page lat cores vpn s = Inr s'"
  obtains (stay) "s' = s"
  | (move) best gain where "is_hot_page cores vpn s" "vpn \<noteq> 0"
      "find_best_channel lat (find_most_frequent_core cores vpn s) = Inr best"
      "best \<noteq> p div pages_per_channel s" "\<not> cooling_down vpn s"
      "estimate_latency_gain lat vpn (find_most_frequent_core cores vpn s) (p div pages_per_channel s) s
         = Inr gain"
      "of_nat (m_cost s) < (of_int gain :: rat) / 1000" "move_page vpn best s = Inr s'"
proof -
  note c = channel_entry_invar(1) [OF inv map]
  have "(page_to_channel_mapping s)(vpn \<mapsto> p div pages_per_channel s) = page_to_channel_mapping s"
    using c by (intro fun_upd_idem)
  then have same: "s\<lparr>page_to_channel_mapping := (page_to_channel_mapping s)
      (vpn \<mapsto> p div pages_per_channel s)\<rparr> = s" by simp
  show thesis
    using m stay move
    by (auto simp: migrate_page_def c same Let_def split: if_splits sum.splits)
qed

lemma migrate_page_invar:
  assumes "dm_invar s" and "global_page_table s vpn = Some p"
    and "migrate_page lat cores vpn s = Inr s'"
  shows "dm_invar s' \<and> same_config s s'"
  using migrate_page_cases [OF assms] move_page_invar [OF assms(1)] assms(1) same_config_refl by metis

lemma migrate_loop_invar:
  "dm_invar s \<Longrightarrow> migrate_loop lat citer vpns s = Inr s' \<Longrightarrow> dm_invar s' \<and> same_config s s'"
proof (induction lat citer vpns s rule: migrate_loop.induct)
  case (2 lat citer vpn vpns s)
  show ?case
  proof (cases "global_page_table s vpn")
    case None
    with 2 show ?thesis by simp
  next
    case (Some p)
    with 2 show ?thesis
      using migrate_page_invar [OF 2(3) Some] by (fastforce split: sum.splits intro: same_config_trans)
  qed
qed simp

lemma dm_touch_invar:
  assumes inv: "dm_invar s" and t: "dm_touch lat iter citer vpn core s = Inr s'"
  shows "dm_invar s' \<and> same_config s s'"
proof -
  let ?s = "s\<lparr>page_access_counts_per_core := count_access vpn core (page_access_counts_per_core s),
            migration_counter := Suc (migration_counter s)\<rparr>"
  have inv1: "dm_invar ?s" using inv by simp
  show ?thesis
  proof (cases "Suc (migration_counter s) = STABILITY_WINDOW s")
    case False
    with t inv1 show ?thesis by (auto simp: dm_touch_def Let_def same_config_def)
  next
    case True
    then obtain s2 where m: "migrate_loop lat citer (iter ?s) ?s = Inr s2"
      and s': "s' = s2\<lparr>window_counter := window_counter s2 + 1, page_access_counts_per_core := Map.empty,
                 migration_counter := 0\<rparr>"
      using t by (auto simp: dm_touch_def Let_def migrate_pages_def reset_all_page_access_counts_def
          split: sum.splits)
    from migrate_loop_invar [OF inv1 m] s' show ?thesis by (simp add: same_config_def)
  qed
qed

lemma dm_translate_invar:
  assumes inv: "dm_invar s" and t: "dm_translate lat iter citer r s = Inr (ok, r', s')"
  shows "dm_invar s' \<and> same_config s s' \<and> ok
         \<and> (\<exists>p. global_page_table s' (drop_bit (m_offsetbits s) (addr r)) = Some p
               \<and> addr r' = phys_addr (m_offsetbits s) p (addr r))"
proof -
  let ?v = "drop_bit (m_offsetbits s) (addr r)"
  obtain s1 where t1: "dm_touch lat iter citer ?v (source_id r) s = Inr s1"
    using t by (auto simp: dm_translate_def Let_def split: sum.splits)
  have i1: "dm_invar s1" "same_config s s1" using dm_touch_invar [OF inv t1] by auto
  show ?thesis
  proof (cases "global_page_table s1 ?v")
    case (Some p)
    with t t1 i1 show ?thesis by (auto simp: dm_translate_def Let_def same_config_def)
  next
    case None
    then obtain ch ppn s2 where al: "assign_page ch s1 = Inr (ppn, s2)"
      and s': "s' = s2\<lparr>global_page_table := (global_page_table s2)(?v \<mapsto> ppn),
                 reverse_page_table := (reverse_page_table s2)(ppn \<mapsto> ?v),
                 page_to_channel_mapping := (page_to_channel_mapping s2)(?v \<mapsto> ch)\<rparr>"
      and ok: "ok" and r': "addr r' = phys_addr (m_offsetbits s2) ppn (addr r)"
      using t t1 by (auto simp: dm_translate_def Let_def split: sum.splits)
    have a1: "alloc_inv s1" and p1: "place_inv s1" using i1 by (auto simp: dm_invar_def)
    note e = assign_page_effect [OF a1 p1 al]
    have c: "same_config s1 s'" using e(6,7) s' by (simp add: same_config_def)
    have "alloc_inv s'" using e(1) s' by (simp add: alloc_inv_def)
    moreover have "place_inv s'" using s' by (intro place_inv_set [OF e(2,3,5)]) simp_all
    ultimately have "dm_invar s'" using dm_invar_cong [OF i1(1) c] by simp
    with c i1(2) ok r' s' e(7) show ?thesis by (simp add: same_config_def)
  qed
qed

interpretation dm: page_translation
  "dm_translate lat iter citer" dm_invar "\<lambda>s r. drop_bit (m_offsetbits s) (addr r)" global_page_table
  "\<lambda>s. 8 * pages_per_channel s" m_offsetbits
proof unfold_locales
  fix s :: migration_tables and r ok r' s'
  assume inv: "dm_invar s" and t: "dm_translate lat iter citer r s = Inr (ok, r', s')"
  show "dm_invar s'"
    and "8 * pages_per_channel s' = 8 * pages_per_channel s \<and> m_offsetbits s' = m_offsetbits s"
    and "\<exists>p. global_page_table s' (drop_bit (m_offsetbits s) (addr r)) = Some p
           \<and> addr r' = phys_addr (m_offsetbits s) p (addr r)"
    using dm_translate_invar [OF inv t] by (auto simp: same_config_def)
qed (auto simp: dm_invar_def place_inv_def)


lemma dm_init_invar:
  assumes "dm_init rng max_addr (2 ^ k) thr win cool bw = Inr s" and "k < 21"
    and "0 \<le> max_addr" and "max_addr < 2 ^ 63"
  shows "dm_invar s"
proof -
  let ?n = "max_addr div 2 ^ (k + 10)"
  note g = page_geometry [OF assms(2-4)]
  have s: "m_offsetbits s = k + 10" "m_num_pages s = nat ?n" "pages_per_channel s = nat ?n div 8"
    "m_free_physical_pages2d s = replicate 8 (replicate (nat ?n div 8) True)"
    "m_num_free_physical_pages_per_part s = replicate 8 (nat ?n div 8)"
    "global_page_table s = Map.empty" "page_to_channel_mapping s = Map.empty"
    using assms(1) by (auto simp: dm_init_def g Let_def split: if_splits)
  have "8 * (nat ?n div 8) \<le> nat ?n" by simp
  then have "int (8 * (nat ?n div 8)) * 2 ^ (k + 10) \<le> int (nat ?n) * 2 ^ (k + 10)"
    by (intro mult_right_mono) (simp_all only: of_nat_le_iff zero_le_power zero_le_numeral)
  also note g(3)
  finally have "int (8 * (nat ?n div 8)) * 2 ^ (k + 10) < 2 ^ 63"
    using assms(4) by (rule le_less_trans)
  moreover have "alloc_inv s" by (auto simp: alloc_inv_def s)
  ultimately show ?thesis using assms(2) by (simp add: dm_invar_def place_inv_def s)
qed

text \<open>
  C24. Whatever is translated and migrated since initialisation, the counters of
  \<^verbatim>\<open>Dynamic_migration\<close> count the free bits of their bitmaps, every mapped frame exists and the
  recorded channel of a page is the partition its frame lies in.
\<close>

theorem dm_placement_consistent:
  assumes "dm_init rng max_addr (2 ^ k) thr win cool bw = Inr s0" and "k < 21"
    and "0 \<le> max_addr" and "max_addr < 2 ^ 63"
    and "translate_all (dm_translate lat iter citer) rs s0 = Inr (rs', s)"
  shows "alloc_inv s \<and> place_inv s"
  using dm.translate_all_invar [OF dm_init_invar [OF assms(1-4)] assms(5)] by (simp add: dm_invar_def)


section \<open>What a migration achieves\<close>

text \<open>A matrix of eight latencies per core, each a non-negative \<^verbatim>\<open>int\<close>.\<close>

definition latency_matrix :: "int list list \<Rightarrow> bool" where
  "latency_matrix lat \<longleftrightarrow>
     list_all (\<lambda>row. length row = 8 \<and> list_all (\<lambda>l. 0 \<le> l \<and> l < 2 ^ 31) row) lat"

lemma find_best_channel_min:
  assumes lat: "latency_matrix lat" and f: "find_best_channel lat core = Inr b"
  obtains row where "vec_at lat core = Some row" "length row = 8" "b < 8" "\<forall>ch < 8. row ! b \<le> row ! ch"
proof -
  obtain row where row: "vec_at lat core = Some row"
    and b: "b = fst (foldl (best_channel_step row) (0, 2 ^ 64 - 1) [0..<8])"
    using f by (auto simp: find_best_channel_def split: option.splits)
  then have "row \<in> set lat" by (auto simp: vec_at_Some)
  then have len: "length row = 8" and ent: "\<And>ch. ch < 8 \<Longrightarrow> 0 \<le> row ! ch \<and> row ! ch < 2 ^ 31"
    using lat by (auto simp: latency_matrix_def list_all_iff)
  have tb: "nat (take_bit 64 (row ! ch)) = nat (row ! ch)" if "ch < 8" for ch
  proof -
    have "row ! ch < 2 ^ 64" using ent [OF that] by simp
    then show ?thesis using ent [OF that] by (simp add: take_bit_int_eq_self)
  qed
  obtain m where fold: "foldl (best_channel_step row) (0, 2 ^ 64 - 1) [0..<8] = (b, m)"
    using b by (metis prod.collapse)
  note bf = best_channel_fold [OF fold]
  have "m \<le> nat (row ! 0)" using bf tb [of 0] by force
  moreover have "nat (row ! 0) < 2 ^ 64 - 1" using ent [of 0] by (simp add: nat_less_iff)
  ultimately have "m \<noteq> 2 ^ 64 - 1" by linarith
  then have b8: "b < 8" "m = nat (row ! b)" using bf tb by auto
  have "row ! b \<le> row ! ch" if "ch < 8" for ch
    using bf tb [OF that] b8 that ent [OF that] ent [OF b8(1)] by (metis nat_le_eq_zle)
  with that row len b8(1) show thesis by blast
qed

lemma min_element_fold:
  "n \<le> length row \<Longrightarrow> 0 < n \<Longrightarrow>
   (let b = foldl (\<lambda>best i. if row ! i < row ! best then i else best) 0 [1..<n]
    in b < n \<and> (\<forall>i < n. row ! b \<le> (row ! i :: int)))"
proof (induction n)
  case 0
  then show ?case by simp
next
  case (Suc n)
  show ?case
  proof (cases "n = 0")
    case True
    then show ?thesis by (simp add: Let_def)
  next
    case False
    with Suc have "let b = foldl (\<lambda>best i. if row ! i < row ! best then i else best) 0 [1..<n]
      in b < n \<and> (\<forall>i < n. row ! b \<le> row ! i)" by simp
    with False show ?thesis by (fastforce simp: Let_def less_Suc_eq)
  qed
qed

lemma min_element_least: "i < length row \<Longrightarrow> row ! min_element row \<le> row ! i"
  using min_element_fold [of "length row" row] by (cases row) (auto simp: min_element_def Let_def)

lemma find_most_frequent_core_fold:
  "foldl (\<lambda>(best, mx) core. if mx < f core then (core, f core) else (best, mx)) (b, m0) cores = (c, m)
   \<Longrightarrow> (m = m0 \<and> c = b \<or> m = f c) \<and> m0 \<le> m \<and> (\<forall>x \<in> set cores. f x \<le> (m :: nat))"
proof (induction cores arbitrary: b m0)
  case (Cons x cores)
  show ?case
  proof (cases "m0 < f x")
    case True
    with Cons.IH [of x "f x"] Cons.prems show ?thesis by auto
  next
    case False
    with Cons.IH [of b m0] Cons.prems show ?thesis by auto
  qed
qed auto

lemma find_most_frequent_core_max:
  "x \<in> set cores \<Longrightarrow> core_count s vpn x \<le> core_count s vpn (find_most_frequent_core cores vpn s)"
proof -
  assume x: "x \<in> set cores"
  obtain c m where f: "foldl (\<lambda>(best, mx) core. if mx < core_count s vpn core
      then (core, core_count s vpn core) else (best, mx)) (0, 0) cores = (c, m)" (is "?fold = _")
    by (cases ?fold)
  from find_most_frequent_core_fold [OF f] x f show ?thesis
    by (auto simp: find_most_frequent_core_def)
qed

lemma move_page_target:
  assumes inv: "dm_invar s" and m: "move_page vpn ch s = Inr s'"
  shows "\<exists>q. global_page_table s' vpn = Some q \<and> q div pages_per_channel s = ch"
    "last_migration_window s' = (last_migration_window s)(vpn \<mapsto> window_counter s)"
    "migrations s' = migrations s + 1"
proof -
  obtain ppn s1 where f: "assign_page ch s = Inr (ppn, s1)"
    and s': "s' = s1\<lparr>global_page_table := (global_page_table s1)(vpn \<mapsto> ppn),
      page_to_channel_mapping := (page_to_channel_mapping s1)(vpn \<mapsto> ch),
      last_migration_window := (last_migration_window s1)(vpn \<mapsto> window_counter s1),
      migrations := migrations s1 + 1\<rparr>"
    using m by (auto simp: move_page_def assign_page_eq_find split: sum.splits if_splits)
  have al: "alloc_inv s" and pl: "place_inv s" using inv by (auto simp: dm_invar_def)
  note e = assign_page_effect [OF al pl f]
  have "last_migration_window s1 = last_migration_window s" "migrations s1 = migrations s"
    using e(8) by (cases s; cases s1; simp)+
  with s' e(5,6,9) show "\<exists>q. global_page_table s' vpn = Some q \<and> q div pages_per_channel s = ch"
    "last_migration_window s' = (last_migration_window s)(vpn \<mapsto> window_counter s)"
    "migrations s' = migrations s + 1"
    by simp_all
qed

text \<open>
  C14. A page that a round of the migration loop moves was hot and not in its cool-down; it
  moves to a channel with the least latency for the core that accessed it most, strictly
  less than that of the channel it leaves, and the move is recorded.
\<close>

theorem migrate_page_improves:
  assumes inv: "dm_invar s" and lat: "latency_matrix lat"
    and map: "global_page_table s vpn = Some p"
    and cores: "set cores = dom (page_counts s vpn)"
    and m: "migrate_page lat cores vpn s = Inr s'" and moved: "s' \<noteq> s"
  shows "\<exists>q core row. global_page_table s' vpn = Some q \<and> vec_at lat core = Some row
     \<and> (\<forall>c \<in> dom (page_counts s vpn). core_count s vpn c \<le> core_count s vpn core)
     \<and> row ! (q div pages_per_channel s) < row ! (p div pages_per_channel s)
     \<and> (\<forall>ch < 8. row ! (q div pages_per_channel s) \<le> row ! ch)
     \<and> is_hot_page cores vpn s
     \<and> (\<forall>w. last_migration_window s vpn = Some w \<longrightarrow> COOLDOWN_WINDOWS s \<le> window_counter s - w)
     \<and> last_migration_window s' vpn = Some (window_counter s) \<and> migrations s' = migrations s + 1"
  using inv map m
proof (cases rule: migrate_page_cases)
  case (move best gain)
  let ?core = "find_most_frequent_core cores vpn s"
  obtain row where row: "vec_at lat ?core = Some row" "length row = 8" "best < 8"
    "\<forall>ch < 8. row ! best \<le> row ! ch"
    using find_best_channel_min [OF lat move(3)] by blast
  have p8: "p div pages_per_channel s < 8"
    using channel_entry_invar(2) [OF inv map] by (simp add: less_mult_imp_div_less)
  have "(0::rat) \<le> of_nat (m_cost s)" by simp
  also note move(7)
  finally have "0 < gain" by (simp add: zero_less_divide_iff)
  moreover have "gain = (row ! (p div pages_per_channel s) - row ! min_element row) * 2
      * int (core_count s vpn ?core)"
    using move(6) row(1,2) p8 by (simp add: estimate_latency_gain_def Let_def)
  ultimately have "row ! min_element row < row ! (p div pages_per_channel s)"
    by (simp add: zero_less_mult_iff)
  moreover have "row ! best \<le> row ! min_element row"
  proof -
    have "min_element row < 8"
      using min_element_fold [of "length row" row] row(2) by (simp add: min_element_def Let_def)
    then show ?thesis using row(4) by blast
  qed
  ultimately have "row ! best < row ! (p div pages_per_channel s)" by simp
  moreover obtain q where q: "global_page_table s' vpn = Some q" "q div pages_per_channel s = best"
    using move_page_target(1) [OF inv move(8)] by blast
  moreover have "\<forall>c \<in> dom (page_counts s vpn). core_count s vpn c \<le> core_count s vpn ?core"
    using find_most_frequent_core_max cores by blast
  moreover have "COOLDOWN_WINDOWS s \<le> window_counter s - w" if "last_migration_window s vpn = Some w" for w
    using move(5) that by (simp add: cooling_down_def)
  ultimately show ?thesis
    using row(1,4) move(1) move_page_target(2,3) [OF inv move(8)]
    by (intro exI [of _ q] exI [of _ ?core] exI [of _ row]) simp
qed (use moved in simp)


section \<open>Sharing of frames\<close>

text \<open>No two pages share a frame, and a mapped frame is not free.\<close>

definition excl_inv :: "'a page_tables_scheme \<Rightarrow> bool" where
  "excl_inv s \<longleftrightarrow>
     (\<forall>v w p. global_page_table s v = Some p \<longrightarrow> global_page_table s w = Some p \<longrightarrow> v = w)
     \<and> (\<forall>v p. global_page_table s v = Some p \<longrightarrow> \<not> page_free s p)"

lemma take_free_page_room:
  assumes "alloc_inv s" and "ch < 8" and "take_free_page ch s = Inr (ppn, s')" and "c < 8"
  shows "m_num_free_physical_pages_per_part s ! c \<le> Suc (m_num_free_physical_pages_per_part s' ! c)"
proof -
  obtain ns where "m_num_free_physical_pages_per_part s' = ns"
    "ns = (m_num_free_physical_pages_per_part s)[ch := m_num_free_physical_pages_per_part s ! ch - 1]"
    using take_free_page_Inr [OF assms(3)] by force
  with assms(1,2,4) show ?thesis by (cases "c = ch") (auto simp: alloc_inv_def)
qed

lemma move_page_excl:
  assumes inv: "dm_invar s" and ex: "excl_inv s" and m: "move_page vpn ch s = Inr s'"
    and map: "global_page_table s vpn = Some p"
    and room: "0 < m_num_free_physical_pages_per_part s ! ch"
  shows "excl_inv s'" "\<not> page_free s' p" "\<And>v. global_page_table s' v \<noteq> Some p"
    "c < 8 \<Longrightarrow> m_num_free_physical_pages_per_part s ! c \<le> Suc (m_num_free_physical_pages_per_part s' ! c)"
proof -
  have al: "alloc_inv s" using inv by (simp add: dm_invar_def)
  obtain ppn s1 where f: "assign_page ch s = Inr (ppn, s1)"
    and s': "s' = s1\<lparr>global_page_table := (global_page_table s1)(vpn \<mapsto> ppn),
      page_to_channel_mapping := (page_to_channel_mapping s1)(vpn \<mapsto> ch),
      last_migration_window := (last_migration_window s1)(vpn \<mapsto> window_counter s1),
      migrations := migrations s1 + 1\<rparr>"
    using m by (auto simp: move_page_def assign_page_eq_find split: sum.splits if_splits)
  have ch: "ch < 8" and t: "take_free_page ch s = Inr (ppn, s1)"
    using assign_page_Inr [OF al f] room by (auto simp: room_for_def)
  note pf = page_free_take [OF al ch t]
  have free: "page_free s' q \<longleftrightarrow> page_free s q \<and> q \<noteq> ppn" for q
    using pf(4) [of q] s' by (simp add: page_free_def)
  have tab: "global_page_table s' = (global_page_table s)(vpn \<mapsto> ppn)" using s' pf(8) by simp
  have new: "global_page_table s v \<noteq> Some ppn" for v using ex pf(3) by (auto simp: excl_inv_def)
  have old: "\<not> page_free s p" "v = vpn" if "global_page_table s v = Some p" for v
    using ex map that by (auto simp: excl_inv_def)
  show "excl_inv s'" using ex new unfolding excl_inv_def tab free by (auto split: if_splits)
  show "\<not> page_free s' p" using old(1) [OF map] free by simp
  show "global_page_table s' v \<noteq> Some p" for v
  proof (cases "v = vpn")
    case True
    with new [of vpn] map show ?thesis by (auto simp: tab)
  next
    case False
    with old(2) [of v] show ?thesis by (auto simp: tab)
  qed
  show "c < 8 \<Longrightarrow> m_num_free_physical_pages_per_part s ! c \<le> Suc (m_num_free_physical_pages_per_part s' ! c)"
    using take_free_page_room [OF al ch t] s' by simp
qed


lemma migrate_loop_excl:
  "dm_invar s \<Longrightarrow> excl_inv s \<Longrightarrow>
   (\<And>c. c < 8 \<Longrightarrow> length vpns < m_num_free_physical_pages_per_part s ! c) \<Longrightarrow>
   migrate_loop lat citer vpns s = Inr s' \<Longrightarrow>
   excl_inv s' \<and> (\<forall>c < 8. 0 < m_num_free_physical_pages_per_part s' ! c)"
proof (induction lat citer vpns s rule: migrate_loop.induct)
  case (1 lat citer s)
  then show ?case by simp
next
  case (2 lat citer vpn vpns s)
  note inv = 2(3) and ex = 2(4) and room = 2(5) and run = 2(6)
  show ?case
  proof (cases "global_page_table s vpn")
    case None
    have "length vpns < m_num_free_physical_pages_per_part s ! c" if "c < 8" for c
      using room [OF that] by simp
    with 2(1) [OF None inv ex] run None show ?thesis by simp
  next
    case (Some p)
    then obtain s1 where m: "migrate_page lat (citer s vpn) vpn s = Inr s1"
      and l: "migrate_loop lat citer vpns s1 = Inr s'"
      using run by (auto split: sum.splits)
    have inv1: "dm_invar s1" using migrate_page_invar [OF inv Some m] by simp
    have pos: "0 < m_num_free_physical_pages_per_part s ! c" if "c < 8" for c
      using room [OF that] by simp
    have "excl_inv s1 \<and> (\<forall>c < 8. length vpns < m_num_free_physical_pages_per_part s1 ! c)"
      using inv Some m
    proof (cases rule: migrate_page_cases)
      case stay
      with ex room show ?thesis by (simp add: Suc_lessD)
    next
      case (move best gain)
      have "best < 8" using assign_page_Inr(1) inv move(8)
        by (fastforce simp: dm_invar_def move_page_def assign_page_eq_find split: sum.splits)
      note e = move_page_excl(1,4) [OF inv ex move(8) Some pos [OF this]]
      have "length vpns < m_num_free_physical_pages_per_part s1 ! c" if "c < 8" for c
        using room [OF that] e(2) [OF that] by simp
      with e(1) show ?thesis by simp
    qed
    with 2(2) [OF _ m inv1] Some l show ?thesis by auto
  qed
qed


lemma excl_inv_cong:
  "global_page_table s' = global_page_table s \<Longrightarrow> pages_per_channel s' = pages_per_channel s \<Longrightarrow>
   m_free_physical_pages2d s' = m_free_physical_pages2d s \<Longrightarrow> excl_inv s' = excl_inv s"
  by (simp add: excl_inv_def page_free_def)

lemma excl_inv_finite:
  assumes inv: "dm_invar s" and ex: "excl_inv s"
  shows "finite (dom (global_page_table s))"
proof (rule finite_imageD [of "\<lambda>v. the (global_page_table s v)"])
  have "(\<lambda>v. the (global_page_table s v)) ` dom (global_page_table s) \<subseteq> {..<8 * pages_per_channel s}"
    using channel_entry_invar(2) [OF inv] by auto
  then show "finite ((\<lambda>v. the (global_page_table s v)) ` dom (global_page_table s))"
    by (rule finite_subset) simp
  show "inj_on (\<lambda>v. the (global_page_table s v)) (dom (global_page_table s))"
  proof (rule inj_onI)
    fix v w assume "v \<in> dom (global_page_table s)" "w \<in> dom (global_page_table s)"
      and eq: "the (global_page_table s v) = the (global_page_table s w)"
    then obtain p where "global_page_table s v = Some p" "global_page_table s w = Some p"
      by (auto simp: dom_def)
    with ex show "v = w" unfolding excl_inv_def by blast
  qed
qed

lemma dm_touch_excl:
  assumes inv: "dm_invar s" and ex: "excl_inv s"
    and iter: "\<And>st. finite (dom (global_page_table st)) \<Longrightarrow>
                 distinct (iter st) \<and> set (iter st) = dom (global_page_table st)"
    and room: "\<And>c. c < 8 \<Longrightarrow> card (dom (global_page_table s)) < m_num_free_physical_pages_per_part s ! c"
    and t: "dm_touch lat iter citer vpn core s = Inr s'"
  shows "excl_inv s' \<and> (\<forall>c < 8. 0 < m_num_free_physical_pages_per_part s' ! c)"
proof -
  let ?s = "s\<lparr>page_access_counts_per_core := count_access vpn core (page_access_counts_per_core s),
            migration_counter := Suc (migration_counter s)\<rparr>"
  have inv1: "dm_invar ?s" using inv by simp
  have ex1: "excl_inv ?s" using ex excl_inv_cong [of ?s s] by simp
  show ?thesis
  proof (cases "Suc (migration_counter s) = STABILITY_WINDOW s")
    case False
    with t have "s' = ?s" by (simp add: dm_touch_def Let_def)
    with ex1 room show ?thesis by (metis (no_types, lifting) gr_zeroI not_less_zero
        page_tables.select_convs(13) page_tables.surjective page_tables.update_convs(6,16))
  next
    case True
    then obtain s2 where m: "migrate_loop lat citer (iter ?s) ?s = Inr s2"
      and s': "s' = s2\<lparr>window_counter := window_counter s2 + 1, page_access_counts_per_core := Map.empty,
                 migration_counter := 0\<rparr>"
      using t by (auto simp: dm_touch_def Let_def migrate_pages_def reset_all_page_access_counts_def
          split: sum.splits)
    have len: "length (iter ?s) = card (dom (global_page_table s))"
      using iter [of ?s] excl_inv_finite [OF inv ex] distinct_card [of "iter ?s"] by simp
    have "length (iter ?s) < m_num_free_physical_pages_per_part ?s ! c" if "c < 8" for c
      using room [OF that] len by simp
    then have "excl_inv s2 \<and> (\<forall>c < 8. 0 < m_num_free_physical_pages_per_part s2 ! c)"
      by (rule migrate_loop_excl [OF inv1 ex1 _ m])
    with s' excl_inv_cong [of s' s2] show ?thesis by simp
  qed
qed

text \<open>
  C15. As long as every partition has more free frames than there are mapped pages, a
  translation, with the migrations it triggers, evicts nothing and keeps the frames of
  distinct pages distinct. The order of iteration is any enumeration of the page table.
\<close>

theorem dm_exclusive_while_room:
  assumes inv: "dm_invar s" and ex: "excl_inv s"
    and iter: "\<And>st. finite (dom (global_page_table st)) \<Longrightarrow>
                 distinct (iter st) \<and> set (iter st) = dom (global_page_table st)"
    and room: "\<And>c. c < 8 \<Longrightarrow> card (dom (global_page_table s)) < m_num_free_physical_pages_per_part s ! c"
    and t: "dm_translate lat iter citer r s = Inr (ok, r', s')"
  shows "excl_inv s'"
proof -
  let ?v = "drop_bit (m_offsetbits s) (addr r)"
  obtain s1 where t1: "dm_touch lat iter citer ?v (source_id r) s = Inr s1"
    using t by (auto simp: dm_translate_def Let_def split: sum.splits)
  have i1: "dm_invar s1" using dm_touch_invar [OF inv t1] by simp
  note e1 = dm_touch_excl [OF inv ex iter room t1]
  show ?thesis
  proof (cases "global_page_table s1 ?v")
    case (Some p)
    with t t1 e1 show ?thesis by (auto simp: dm_translate_def Let_def)
  next
    case None
    then obtain ch ppn s2 where al: "assign_page ch s1 = Inr (ppn, s2)"
      and s': "s' = s2\<lparr>global_page_table := (global_page_table s2)(?v \<mapsto> ppn),
                 reverse_page_table := (reverse_page_table s2)(ppn \<mapsto> ?v),
                 page_to_channel_mapping := (page_to_channel_mapping s2)(?v \<mapsto> ch)\<rparr>"
      using t t1 by (auto simp: dm_translate_def Let_def split: sum.splits)
    have a1: "alloc_inv s1" using i1 by (simp add: dm_invar_def)
    have ch: "ch < 8" and tk: "take_free_page ch s1 = Inr (ppn, s2)"
      using assign_page_Inr [OF a1 al] e1 by (auto simp: room_for_def)
    note pf = page_free_take [OF a1 ch tk]
    have free: "page_free s' q \<longleftrightarrow> page_free s1 q \<and> q \<noteq> ppn" for q
      using pf(4) [of q] s' by (simp add: page_free_def)
    have tab: "global_page_table s' = (global_page_table s1)(?v \<mapsto> ppn)" using s' pf(8) by simp
    have "global_page_table s1 w \<noteq> Some ppn" for w using e1 pf(3) by (auto simp: excl_inv_def)
    with e1 show ?thesis unfolding excl_inv_def tab free by (auto split: if_splits)
  qed
qed


section \<open>Two pages in one frame\<close>

text \<open>
  One page of 1 KB per channel, a window of three accesses, a bandwidth at which the
  migration cost rounds down to nothing.
\<close>

definition dm_demo :: migration_tables where
  "dm_demo = \<lparr>m_allocator_rng = siterate Suc 0, m_max_paddr = 8192, m_pagesize = 1024,
     m_offsetbits = 10, m_num_pages = 8, migration_counter = 0, HOT_PAGE_THRESHOLD = 1,
     STABILITY_WINDOW = 3, window_counter = 0, m_cost = 0, pages_per_channel = 1,
     m_free_physical_pages2d = replicate 8 [True],
     m_num_free_physical_pages_per_part = replicate 8 1,
     global_page_table = Map.empty, reverse_page_table = Map.empty,
     page_access_counts_per_core = Map.empty, m_reserved_pages = {},
     page_to_channel_mapping = Map.empty,
     last_migration_window = Map.empty, COOLDOWN_WINDOWS = 2, bandwidth = 2000, migrations = 0\<rparr>"

definition dm_request :: "int \<Rightarrow> int \<Rightarrow> Request" where
  "dm_request a c = default_Request\<lparr>addr := a, source_id := c\<rparr>"

lemma dm_demo_init: "dm_init (siterate Suc 0) 8192 (2 ^ 0) 1 3 2 2000 = Inr dm_demo"
proof -
  have "shl_i64 1 10 = 1024" by (simp add: shl_i64_mult)
  moreover have "calc_log2 1024 = Some 10" using calc_log2_pow2 [of 10] by simp
  moreover have "nat \<lfloor>calculate_migration_cost 1024 2000\<rfloor> = 0"
    by (simp add: calculate_migration_cost_def Let_def)
  ultimately show ?thesis
    by (simp add: dm_init_def dm_demo_def Let_def signed_divide_int_def take_bit_eq_mod)
qed

text \<open>Iteration in the order of the keys.\<close>

definition key_order :: "migration_tables \<Rightarrow> int list" where
  "key_order s = sorted_list_of_set (dom (global_page_table s))"

definition core_order :: "migration_tables \<Rightarrow> int \<Rightarrow> int list" where
  "core_order s vpn = sorted_list_of_set (dom (page_counts s vpn))"

definition dm_demo_1 :: migration_tables where
  "dm_demo_1 = dm_demo\<lparr>m_allocator_rng := siterate Suc 1, migration_counter := 1,
     m_free_physical_pages2d := (replicate 8 [True])[0 := [False]],
     m_num_free_physical_pages_per_part := (replicate 8 1)[0 := 0],
     global_page_table := [1 \<mapsto> 0], reverse_page_table := [0 \<mapsto> 1],
     page_access_counts_per_core := [1 \<mapsto> [0 \<mapsto> 1]], page_to_channel_mapping := [1 \<mapsto> 0]\<rparr>"

definition dm_demo_2 :: migration_tables where
  "dm_demo_2 = dm_demo_1\<lparr>migration_counter := 2,
     page_access_counts_per_core := [1 \<mapsto> [0 \<mapsto> 1, 1 \<mapsto> 1]]\<rparr>"

definition dm_demo_3 :: migration_tables where
  "dm_demo_3 = dm_demo_2\<lparr>m_allocator_rng := siterate Suc 2, migration_counter := 0,
     m_free_physical_pages2d := (replicate 8 [True])[0 := [False], 1 := [False]],
     m_num_free_physical_pages_per_part := (replicate 8 1)[0 := 0, 1 := 0],
     global_page_table := [1 \<mapsto> 1], page_access_counts_per_core := Map.empty,
     page_to_channel_mapping := [1 \<mapsto> 1], window_counter := 1,
     last_migration_window := [1 \<mapsto> 0], migrations := 1\<rparr>"

definition dm_demo_4 :: migration_tables where
  "dm_demo_4 = dm_demo_3\<lparr>m_allocator_rng := siterate Suc 4, migration_counter := 1,
     global_page_table := [1 \<mapsto> 1, 2 \<mapsto> 1], reverse_page_table := [0 \<mapsto> 1, 1 \<mapsto> 2],
     page_access_counts_per_core := [2 \<mapsto> [1 \<mapsto> 1]], page_to_channel_mapping := [1 \<mapsto> 1, 2 \<mapsto> 1]\<rparr>"

lemmas dm_demo_defs = dm_demo_def dm_demo_1_def dm_demo_2_def dm_demo_3_def dm_demo_4_def
  dm_request_def default_Request_def dm_translate_def dm_touch_def Let_def count_access_def

lemma best_channel_demo:
  "find_best_channel initialize_core_channel_latency 0 = Inr 0"
  "find_best_channel initialize_core_channel_latency 1 = Inr 1"
  using find_best_channel_argmin [of 0] find_best_channel_argmin [of 1] by simp_all

lemma phys_addr_demo: "phys_addr 10 0 1024 = 0" "phys_addr 10 1 1024 = 1024" "phys_addr 10 1 2048 = 1024"
  by (subst phys_addr_arith; simp)+

lemma draw_one: "ok 0 \<Longrightarrow> draw ok (Suc 0) r = Some (0, stl r)"
  by (subst draw.simps) simp

lemma siterate_stl [simp]: "stl (siterate f x) = siterate f (f x)"
  by simp

lemma dm_step_1:
  "dm_translate initialize_core_channel_latency key_order core_order (dm_request 1024 0) dm_demo
   = Inr (True, (dm_request 1024 0)\<lparr>v_addr := 1024, vpage := 1, addr := 0\<rparr>, dm_demo_1)"
  by (simp add: dm_demo_defs best_channel_demo phys_addr_demo assign_page_def take_free_page_def draw_one)

lemma dm_step_2:
  "dm_translate initialize_core_channel_latency key_order core_order (dm_request 1024 1) dm_demo_1
   = Inr (True, (dm_request 1024 1)\<lparr>v_addr := 1024, vpage := 1, addr := 0\<rparr>, dm_demo_2)"
  by (simp add: dm_demo_defs phys_addr_demo)

lemma dm_step_4:
  "dm_translate initialize_core_channel_latency key_order core_order (dm_request 2048 1) dm_demo_3
   = Inr (True, (dm_request 2048 1)\<lparr>v_addr := 2048, vpage := 2, addr := 1024\<rparr>, dm_demo_4)"
  by (simp add: dm_demo_defs best_channel_demo phys_addr_demo [unfolded One_nat_def] assign_page_def
      evict_eq take_free_page_def draw_one evict_victim_def)

lemma gain_demo:
  assumes "core_count s 1 1 = 2"
  shows "\<exists>g. estimate_latency_gain initialize_core_channel_latency 1 1 0 s = Inr g \<and> 0 < g"
proof -
  let ?row = "initialize_core_channel_latency ! 1"
  have e: "?row ! 0 = latency_pattern ! 1" "?row ! 1 = latency_pattern ! 0"
    using latency_entry_ring [of 1 0] latency_entry_ring [of 1 1] by simp_all
  have "?row ! min_element ?row \<le> ?row ! 1" by (rule min_element_least) simp
  moreover have "latency_pattern ! 0 < latency_pattern ! 1" by (rule latency_pattern_strict) simp_all
  ultimately have "0 < ?row ! 0 - ?row ! min_element ?row" using e by linarith
  then show ?thesis
    using assms by (simp add: estimate_latency_gain_def Let_def vec_at_def)
qed

lemma dm_demo_counts:
  "page_access_counts_per_core s = [1 \<mapsto> [0 \<mapsto> 1, 1 \<mapsto> 2]] \<Longrightarrow> core_order s 1 = [0, 1]"
  "page_access_counts_per_core s = [1 \<mapsto> [0 \<mapsto> 1, 1 \<mapsto> 2]] \<Longrightarrow> core_count s 1 0 = 1"
  "page_access_counts_per_core s = [1 \<mapsto> [0 \<mapsto> 1, 1 \<mapsto> 2]] \<Longrightarrow> core_count s 1 1 = 2"
  by (simp_all add: core_order_def page_counts_def core_count_def insert_commute)

lemma dm_demo_migrate:
  "migrate_page initialize_core_channel_latency [0, 1] 1
     (dm_demo_2\<lparr>page_access_counts_per_core := [1 \<mapsto> [0 \<mapsto> 1, 1 \<mapsto> 2]], migration_counter := 3\<rparr>)
   = Inr (dm_demo_3\<lparr>page_access_counts_per_core := [1 \<mapsto> [0 \<mapsto> 1, 1 \<mapsto> 2]], migration_counter := 3,
            window_counter := 0\<rparr>)" (is "migrate_page _ _ _ ?s = _")
proof -
  have "is_hot_page [0, 1] 1 ?s" "find_most_frequent_core [0, 1] 1 ?s = 1"
    by (simp_all add: is_hot_page_def find_most_frequent_core_def dm_demo_counts dm_demo_defs)
  moreover have "core_count ?s 1 1 = 2" by (simp add: dm_demo_counts)
  ultimately show ?thesis
    using gain_demo [of ?s]
    by (auto simp: migrate_page_def dm_demo_defs best_channel_demo cooling_down_def move_page_def
        assign_page_eq_find [symmetric] assign_page_def take_free_page_def draw_one numeral_2_eq_2)
qed

lemma dm_step_3:
  "dm_translate initialize_core_channel_latency key_order core_order (dm_request 1024 1) dm_demo_2
   = Inr (True, (dm_request 1024 1)\<lparr>v_addr := 1024, vpage := 1, addr := 1024\<rparr>, dm_demo_3)"
proof -
  let ?s = "dm_demo_2\<lparr>page_access_counts_per_core := [1 \<mapsto> [0 \<mapsto> 1, 1 \<mapsto> 2]], migration_counter := 3\<rparr>"
  have "dm_touch initialize_core_channel_latency key_order core_order 1 1 dm_demo_2 = Inr dm_demo_3"
  proof -
    have "count_access 1 1 (page_access_counts_per_core dm_demo_2) = [1 \<mapsto> [0 \<mapsto> 1, 1 \<mapsto> 2]]"
      and "Suc (migration_counter dm_demo_2) = 3" "STABILITY_WINDOW dm_demo_2 = 3"
      by (simp_all add: dm_demo_defs numeral_2_eq_2)
    moreover have "key_order ?s = [1]" "global_page_table ?s 1 = Some 0"
      by (simp_all add: key_order_def dm_demo_defs)
    moreover have "core_order ?s 1 = [0, 1]" by (simp add: dm_demo_counts)
    moreover note dm_demo_migrate
    ultimately show ?thesis
      by (simp add: dm_touch_def Let_def migrate_pages_def reset_all_page_access_counts_def)
        (simp add: dm_demo_defs)
  qed
  moreover have "m_offsetbits dm_demo_2 = 10" "m_offsetbits dm_demo_3 = 10"
    "global_page_table dm_demo_3 1 = Some 1"
    by (simp_all add: dm_demo_def dm_demo_1_def dm_demo_2_def dm_demo_3_def)
  ultimately show ?thesis
    by (simp add: dm_translate_def Let_def dm_request_def phys_addr_demo [unfolded One_nat_def])
qed

text \<open>
  C25. Two pages in one frame. From initialisation four requests suffice: core 0 touches
  page 1, core 1 touches it until it migrates to channel 1, then core 1 touches page 2.
  The migration records no owner for the frame it takes, so the eviction that makes room
  for page 2 erases nothing and gives the same frame out again: virtual addresses 1024
  and 2048 are both translated to physical address 1024.
\<close>

theorem dm_pages_share_frame:
  "\<exists>s0 rs s. dm_init (siterate Suc 0) 8192 1 1 3 2 2000 = Inr s0
     \<and> translate_all (dm_translate initialize_core_channel_latency key_order core_order)
         [dm_request 1024 0, dm_request 1024 1, dm_request 1024 1, dm_request 2048 1] s0 = Inr (rs, s)
     \<and> map addr rs = [0, 0, 1024, 1024]
     \<and> global_page_table s 1 = Some 1 \<and> global_page_table s 2 = Some 1"
proof -
  have "dm_init (siterate Suc 0) 8192 1 1 3 2 2000 = Inr dm_demo" using dm_demo_init by simp
  then show ?thesis
    by (simp add: dm_step_1 dm_step_2 dm_step_3 dm_step_4) (simp add: dm_demo_4_def)
qed


section \<open>Witnesses\<close>

lemma dm_demo_invar: "dm_invar dm_demo"
proof -
  have "alloc_inv dm_demo" by (auto simp: alloc_inv_def dm_demo_def)
  then show ?thesis by (simp add: dm_invar_def place_inv_def dm_demo_def)
qed

lemma dm_demo_2_invar: "dm_invar dm_demo_2"
  using dm_translate_invar [OF dm_demo_invar dm_step_1] dm_translate_invar [OF _ dm_step_2] by blast

lemma latency_pattern_bounds: "d < 5 \<Longrightarrow> 0 \<le> latency_pattern ! d \<and> latency_pattern ! d < 2 ^ 31"
  by (auto simp: latency_pattern_def less_Suc_eq numeral_eq_Suc)

lemma latency_matrix_demo: "latency_matrix initialize_core_channel_latency"
proof -
  have "0 \<le> core_channel_latency_entry (int c) (int h) \<and> core_channel_latency_entry (int c) (int h) < 2 ^ 31"
    if "c < 8" "h < 8" for c h
  proof -
    have "min (nat \<bar>int c - int h\<bar>) (8 - nat \<bar>int c - int h\<bar>) < 5" by linarith
    then show ?thesis using latency_pattern_bounds that by (simp add: latency_entry_ring)
  qed
  then show ?thesis
    by (simp add: latency_matrix_def list_all_length)
qed


text \<open>The state in which the migration of the run starts.\<close>

definition dm_demo_full :: migration_tables where
  "dm_demo_full = dm_demo_2\<lparr>page_access_counts_per_core := [1 \<mapsto> [0 \<mapsto> 1, 1 \<mapsto> 2]],
     migration_counter := 3\<rparr>"

lemma dm_demo_full_facts:
  "dm_invar dm_demo_full" "excl_inv dm_demo_full" "global_page_table dm_demo_full 1 = Some 0"
  "set [0, 1] = dom (page_counts dm_demo_full 1)"
  "find_most_frequent_core [0, 1] 1 dm_demo_full = 1"
  "m_num_free_physical_pages_per_part dm_demo_full ! 1 = 1"
proof -
  show "dm_invar dm_demo_full" using dm_demo_2_invar by (simp add: dm_demo_full_def)
  show "excl_inv dm_demo_full"
    by (auto simp: excl_inv_def dm_demo_full_def page_free_def dm_demo_defs split: if_splits)
  show "set [0, 1] = dom (page_counts dm_demo_full 1)"
    by (auto simp: dm_demo_full_def page_counts_def)
  show "find_most_frequent_core [0, 1] 1 dm_demo_full = 1"
    by (simp add: find_most_frequent_core_def dm_demo_counts dm_demo_full_def)
qed (simp_all add: dm_demo_full_def dm_demo_defs)

lemma dm_demo_full_moves:
  "\<exists>s'. migrate_page initialize_core_channel_latency [0, 1] 1 dm_demo_full = Inr s'
     \<and> s' \<noteq> dm_demo_full \<and> global_page_table s' = [1 \<mapsto> 1]"
proof -
  let ?t = "dm_demo_3\<lparr>page_access_counts_per_core := [1 \<mapsto> [0 \<mapsto> 1, 1 \<mapsto> 2]], migration_counter := 3,
            window_counter := 0\<rparr>"
  have m: "migrate_page initialize_core_channel_latency [0, 1] 1 dm_demo_full = Inr ?t"
    using dm_demo_migrate by (simp add: dm_demo_full_def)
  have t: "global_page_table ?t = [1 \<mapsto> 1]" by (simp add: dm_demo_3_def)
  moreover have "?t \<noteq> dm_demo_full"
  proof
    assume "?t = dm_demo_full"
    then have "global_page_table ?t 1 = Some 0" using dm_demo_full_facts(3) by metis
    with t show False by simp
  qed
  ultimately show ?thesis using m by blast
qed

theorem dm_placement_consistent_witness:
  "alloc_inv dm_demo_4 \<and> place_inv dm_demo_4"
proof -
  have "translate_all (dm_translate initialize_core_channel_latency key_order core_order)
      [dm_request 1024 0, dm_request 1024 1, dm_request 1024 1, dm_request 2048 1] dm_demo
      = Inr ([(dm_request 1024 0)\<lparr>v_addr := 1024, vpage := 1, addr := 0\<rparr>,
              (dm_request 1024 1)\<lparr>v_addr := 1024, vpage := 1, addr := 0\<rparr>,
              (dm_request 1024 1)\<lparr>v_addr := 1024, vpage := 1, addr := 1024\<rparr>,
              (dm_request 2048 1)\<lparr>v_addr := 2048, vpage := 2, addr := 1024\<rparr>], dm_demo_4)"
    by (simp add: dm_step_1 dm_step_2 dm_step_3 dm_step_4)
  from dm_placement_consistent [OF dm_demo_init _ _ _ this] show ?thesis by simp
qed

theorem migrate_page_improves_witness:
  "\<exists>s' core row. migrate_page initialize_core_channel_latency [0, 1] 1 dm_demo_full = Inr s'
     \<and> vec_at initialize_core_channel_latency core = Some row \<and> row ! 1 < row ! 0"
proof -
  obtain s' where s': "migrate_page initialize_core_channel_latency [0, 1] 1 dm_demo_full = Inr s'"
    "s' \<noteq> dm_demo_full" "global_page_table s' = [1 \<mapsto> 1]"
    using dm_demo_full_moves by blast
  have "pages_per_channel dm_demo_full = 1" by (simp add: dm_demo_full_def dm_demo_defs)
  moreover obtain q core row where "global_page_table s' 1 = Some q"
    "vec_at initialize_core_channel_latency core = Some row"
    "row ! (q div pages_per_channel dm_demo_full) < row ! (0 div pages_per_channel dm_demo_full)"
    using migrate_page_improves [OF dm_demo_full_facts(1) latency_matrix_demo dm_demo_full_facts(3,4)
        s'(1,2)] by blast
  ultimately show ?thesis using s'(1,3) by simp blast
qed


theorem dm_exclusive_while_room_witness:
  "excl_inv dm_demo_1 \<and> global_page_table dm_demo_1 1 = Some 0"
proof
  have "excl_inv dm_demo" by (simp add: excl_inv_def dm_demo_def)
  moreover have "card (dom (global_page_table dm_demo)) < m_num_free_physical_pages_per_part dm_demo ! c"
    if "c < 8" for c using that by (simp add: dm_demo_def)
  ultimately show "excl_inv dm_demo_1"
    using dm_exclusive_while_room [OF dm_demo_invar _ _ _ dm_step_1] by (simp add: key_order_def)
  show "global_page_table dm_demo_1 1 = Some 0" by (simp add: dm_demo_1_def)
qed

end
