(* ===== verification/Random_Translation.thy ===== *)
theory Random_Translation
  imports Translation Utils
begin

text \<open>
  The three baseline policies: \<^verbatim>\<open>random_translation.cpp\<close> with one table per core,
  \<^verbatim>\<open>random_translation2.cpp\<close> with one table for all cores, and \<^verbatim>\<open>no_translation.cpp\<close>.
  The global \<^verbatim>\<open>page_table\<close> of \<^verbatim>\<open>base/utils.h\<close>, which the first one writes, is a field of its
  state.
\<close>

section \<open>RandomTranslation\<close>

record random_tables =
  rt_rng :: "nat stream"
  rt_max_paddr :: int
  rt_pagesize :: int
  rt_offsetbits :: nat
  rt_num_pages :: nat
  rt_free_pages :: "bool list"
  rt_num_free :: nat
  rt_translation :: "(int \<rightharpoonup> nat) list"
  rt_reserved :: "int set"
  rt_page_table :: "int \<rightharpoonup> nat"

definition rt_init :: "nat stream \<Rightarrow> int \<Rightarrow> int \<Rightarrow> nat \<Rightarrow> random_tables result" where
  "rt_init rng max_addr pagesize_KB num_cores =
     (let psz = shl_i64 pagesize_KB 10 in
      case calc_log2 psz of
        None \<Rightarrow> Inl No_Return
      | Some offs \<Rightarrow>
          if psz = 0 then Inl Div_By_Zero
          else
            (let npages = nat (take_bit 64 (max_addr sdiv psz)) in
             Inr \<lparr>rt_rng = rng, rt_max_paddr = max_addr, rt_pagesize = psz, rt_offsetbits = offs,
                  rt_num_pages = npages, rt_free_pages = replicate npages True,
                  rt_num_free = npages, rt_translation = replicate num_cores Map.empty,
                  rt_reserved = {}, rt_page_table = Map.empty\<rparr>))"

text \<open>The two branches that give a page to \<open>vpn\<close>; \<open>key\<close> is the member \<^verbatim>\<open>vpage\<close> of the request.\<close>

definition rt_assign ::
  "nat \<Rightarrow> int \<Rightarrow> int \<Rightarrow> random_tables \<Rightarrow> random_tables result" where
  "rt_assign core vpn key s =
     (if rt_num_pages s = 0 then Inl Div_By_Zero
      else if rt_num_free s = 0 then
        (case draw (\<lambda>p. int p \<notin> rt_reserved s) (rt_num_pages s) (rt_rng s) of
           None \<Rightarrow> Inl No_Return
         | Some (ppn, rng) \<Rightarrow>
             Inr (s\<lparr>rt_rng := rng,
                    rt_translation := (rt_translation s)
                      [core := (rt_translation s ! core)(vpn \<mapsto> ppn)],
                    rt_page_table := (rt_page_table s)(vpn \<mapsto> ppn)\<rparr>))
      else
        (case draw (\<lambda>p. int p \<notin> rt_reserved s \<and> rt_free_pages s ! p) (rt_num_pages s) (rt_rng s) of
           None \<Rightarrow> Inl No_Return
         | Some (ppn, rng) \<Rightarrow>
             Inr (s\<lparr>rt_rng := rng,
                    rt_translation := (rt_translation s)
                      [core := (rt_translation s ! core)(vpn \<mapsto> ppn)],
                    rt_page_table := (rt_page_table s)(key \<mapsto> ppn),
                    rt_num_free := rt_num_free s - 1\<rparr>)))"

definition rt_translate ::
  "Request \<Rightarrow> random_tables \<Rightarrow> (bool \<times> Request \<times> random_tables) result" where
  "rt_translate req s =
     (let vpn = drop_bit (rt_offsetbits s) (addr req) in
      case vec_at (rt_translation s) (source_id req) of
        None \<Rightarrow> Inl Out_Of_Bounds
      | Some table \<Rightarrow>
          (case (if table vpn = None then rt_assign (nat (source_id req)) vpn (vpage req) s else Inr s) of
             Inl e \<Rightarrow> Inl e
           | Inr s' \<Rightarrow>
               (let ppn = (case (rt_translation s' ! nat (source_id req)) vpn of
                             None \<Rightarrow> 0 | Some p \<Rightarrow> p)
                in Inr (True, req\<lparr>addr := phys_addr (rt_offsetbits s') ppn (addr req)\<rparr>, s'))))"

definition rt_reserve :: "int \<Rightarrow> random_tables \<Rightarrow> bool \<times> random_tables" where
  "rt_reserve a s =
     (True, s\<lparr>rt_reserved := insert (drop_bit (rt_offsetbits s) a) (rt_reserved s)\<rparr>)"

definition rt_get_max_addr :: "random_tables \<Rightarrow> int" where
  "rt_get_max_addr s = rt_max_paddr s"


section \<open>RandomTranslation2\<close>

record random_tables2 =
  rt2_rng :: "nat stream"
  rt2_max_paddr :: int
  rt2_pagesize :: int
  rt2_offsetbits :: nat
  rt2_num_pages :: nat
  rt2_free_pages :: "bool list"
  rt2_num_free :: nat
  rt2_translation :: "(int \<rightharpoonup> nat) list"
  rt2_reserved :: "int set"
  rt2_global_page_table :: "int \<rightharpoonup> nat"

definition rt2_init :: "nat stream \<Rightarrow> int \<Rightarrow> int \<Rightarrow> nat \<Rightarrow> random_tables2 result" where
  "rt2_init rng max_addr pagesize_KB num_cores =
     (let psz = shl_i64 pagesize_KB 10 in
      case calc_log2 psz of
        None \<Rightarrow> Inl No_Return
      | Some offs \<Rightarrow>
          if psz = 0 then Inl Div_By_Zero
          else
            (let npages = nat (take_bit 64 (max_addr sdiv psz)) in
             Inr \<lparr>rt2_rng = rng, rt2_max_paddr = max_addr, rt2_pagesize = psz, rt2_offsetbits = offs,
                  rt2_num_pages = npages, rt2_free_pages = replicate npages True,
                  rt2_num_free = npages, rt2_translation = replicate num_cores Map.empty,
                  rt2_reserved = {}, rt2_global_page_table = Map.empty\<rparr>))"

definition rt2_assign :: "int \<Rightarrow> random_tables2 \<Rightarrow> (nat \<times> random_tables2) result" where
  "rt2_assign vpn s =
     (if rt2_num_pages s = 0 then Inl Div_By_Zero
      else if rt2_num_free s = 0 then
        (case draw (\<lambda>p. int p \<notin> rt2_reserved s) (rt2_num_pages s) (rt2_rng s) of
           None \<Rightarrow> Inl No_Return
         | Some (ppn, rng) \<Rightarrow>
             Inr (ppn, s\<lparr>rt2_rng := rng,
                         rt2_global_page_table := (rt2_global_page_table s)(vpn \<mapsto> ppn)\<rparr>))
      else
        (case draw (\<lambda>p. int p \<notin> rt2_reserved s \<and> rt2_free_pages s ! p) (rt2_num_pages s) (rt2_rng s) of
           None \<Rightarrow> Inl No_Return
         | Some (ppn, rng) \<Rightarrow>
             Inr (ppn, s\<lparr>rt2_rng := rng,
                         rt2_global_page_table := (rt2_global_page_table s)(vpn \<mapsto> ppn),
                         rt2_num_free := rt2_num_free s - 1,
                         rt2_free_pages := (rt2_free_pages s)[ppn := False]\<rparr>)))"

definition rt2_translate ::
  "Request \<Rightarrow> random_tables2 \<Rightarrow> (bool \<times> Request \<times> random_tables2) result" where
  "rt2_translate req0 s =
     (let vpn = drop_bit (rt2_offsetbits s) (addr req0);
          req = req0\<lparr>v_addr := addr req0, vpage := vpn\<rparr>
      in case rt2_global_page_table s vpn of
           None \<Rightarrow>
             (case rt2_assign vpn s of
                Inl e \<Rightarrow> Inl e
              | Inr (ppn, s') \<Rightarrow>
                  Inr (True, req\<lparr>addr := phys_addr (rt2_offsetbits s') ppn (addr req)\<rparr>, s'))
         | Some ppn \<Rightarrow> Inr (True, req\<lparr>addr := phys_addr (rt2_offsetbits s) ppn (addr req)\<rparr>, s))"

definition rt2_reserve :: "int \<Rightarrow> random_tables2 \<Rightarrow> bool \<times> random_tables2" where
  "rt2_reserve a s =
     (True, s\<lparr>rt2_reserved := insert (drop_bit (rt2_offsetbits s) a) (rt2_reserved s)\<rparr>)"

definition rt2_get_max_addr :: "random_tables2 \<Rightarrow> int" where
  "rt2_get_max_addr s = rt2_max_paddr s"


section \<open>NoTranslation\<close>

definition no_translate :: "Request \<Rightarrow> int \<Rightarrow> (bool \<times> Request \<times> int) result" where
  "no_translate req max_paddr = Inr (True, req\<lparr>addr := addr req\<rparr>, max_paddr)"


section \<open>Invariants\<close>

definition rt_invar :: "random_tables \<Rightarrow> bool" where
  "rt_invar s \<longleftrightarrow>
     (\<forall>c < length (rt_translation s). \<forall>v p. (rt_translation s ! c) v = Some p \<longrightarrow> p < rt_num_pages s)
     \<and> rt_offsetbits s < 31 \<and> int (rt_num_pages s) * 2 ^ rt_offsetbits s < 2 ^ 63"

definition rt_frame :: "random_tables \<Rightarrow> int \<times> int \<Rightarrow> nat option" where
  "rt_frame s k =
     (case vec_at (rt_translation s) (fst k) of None \<Rightarrow> None | Some table \<Rightarrow> table (snd k))"

text \<open>The counter of free pages counts the free bits, and mapped pages exist and are in use.\<close>

definition rt2_invar :: "random_tables2 \<Rightarrow> bool" where
  "rt2_invar s \<longleftrightarrow>
     length (rt2_free_pages s) = rt2_num_pages s
     \<and> rt2_num_free s = length (filter id (rt2_free_pages s))
     \<and> (\<forall>v p. rt2_global_page_table s v = Some p \<longrightarrow> p < rt2_num_pages s \<and> \<not> rt2_free_pages s ! p)
     \<and> rt2_offsetbits s < 31 \<and> int (rt2_num_pages s) * 2 ^ rt2_offsetbits s < 2 ^ 63"

lemma draw_Some_mod: "0 < n \<Longrightarrow> draw ok n r = Some (p, r') \<Longrightarrow> ok p \<and> p < n"
  using draw_Some [of ok n r "(p, r')"] by auto

lemma draw_None: "0 < n \<Longrightarrow> (\<And>p. p < n \<Longrightarrow> \<not> ok p) \<Longrightarrow> draw ok n r = None"
  using draw_Some_mod [of n ok r] by (cases "draw ok n r") fastforce+

lemma rt_assign_invar:
  assumes inv: "rt_invar s" and c: "core < length (rt_translation s)"
    and a: "rt_assign core vpn key s = Inr s'"
  shows "rt_invar s' \<and> rt_num_pages s' = rt_num_pages s \<and> rt_offsetbits s' = rt_offsetbits s
         \<and> length (rt_translation s') = length (rt_translation s)
         \<and> (\<exists>p. (rt_translation s' ! core) vpn = Some p) \<and> rt_free_pages s' = rt_free_pages s"
proof -
  have n: "0 < rt_num_pages s" using a by (auto simp: rt_assign_def split: if_splits)
  obtain ppn where "ppn < rt_num_pages s"
    "rt_translation s' = (rt_translation s)[core := (rt_translation s ! core)(vpn \<mapsto> ppn)]"
    "rt_num_pages s' = rt_num_pages s" "rt_offsetbits s' = rt_offsetbits s"
    "rt_free_pages s' = rt_free_pages s"
    using a n by (auto simp: rt_assign_def dest!: draw_Some_mod [OF n] split: if_splits option.splits)
  with inv c show ?thesis by (auto simp: rt_invar_def nth_list_update split: if_splits)
qed

lemma rt_translate_invar:
  assumes inv: "rt_invar s" and t: "rt_translate r s = Inr (ok, r', s')"
  shows "rt_invar s' \<and> rt_num_pages s' = rt_num_pages s \<and> rt_offsetbits s' = rt_offsetbits s
         \<and> rt_free_pages s' = rt_free_pages s
         \<and> (\<exists>p. rt_frame s' (source_id r, drop_bit (rt_offsetbits s) (addr r)) = Some p
               \<and> addr r' = phys_addr (rt_offsetbits s) p (addr r))"
proof -
  let ?v = "drop_bit (rt_offsetbits s) (addr r)" and ?c = "nat (source_id r)"
  obtain table where tab: "vec_at (rt_translation s) (source_id r) = Some table"
    using t by (auto simp: rt_translate_def Let_def split: option.splits)
  then have c: "0 \<le> source_id r" "?c < length (rt_translation s)" "table = rt_translation s ! ?c"
    by (auto simp: vec_at_Some)
  show ?thesis
  proof (cases "table ?v")
    case None
    then obtain s1 where a: "rt_assign ?c ?v (vpage r) s = Inr s1" and s': "s' = s1"
      using t tab by (auto simp: rt_translate_def Let_def split: sum.splits)
    from rt_assign_invar [OF inv c(2) a] None t tab a s' c(1,2) show ?thesis
      by (auto simp: rt_translate_def Let_def rt_frame_def vec_at_def)
  next
    case (Some p)
    with t tab inv c show ?thesis
      by (auto simp: rt_translate_def Let_def rt_frame_def)
  qed
qed

interpretation rt: page_translation
  rt_translate rt_invar "\<lambda>s r. (source_id r, drop_bit (rt_offsetbits s) (addr r))" rt_frame
  rt_num_pages rt_offsetbits
proof unfold_locales
  fix s r ok r' s'
  assume inv: "rt_invar s" and t: "rt_translate r s = Inr (ok, r', s')"
  show "rt_invar s'" and "rt_num_pages s' = rt_num_pages s \<and> rt_offsetbits s' = rt_offsetbits s"
    and "\<exists>p. rt_frame s' (source_id r, drop_bit (rt_offsetbits s) (addr r)) = Some p
           \<and> addr r' = phys_addr (rt_offsetbits s) p (addr r)"
    using rt_translate_invar [OF inv t] by auto
next
  fix s :: random_tables and k p
  assume "rt_invar s" "rt_frame s k = Some p"
  then show "p < rt_num_pages s"
    by (auto simp: rt_invar_def rt_frame_def vec_at_Some split: option.splits)
qed (simp add: rt_invar_def)


lemma rt2_assign_cases:
  assumes inv: "rt2_invar s" and a: "rt2_assign vpn s = Inr (ppn, s')"
  shows "ppn < rt2_num_pages s" "int ppn \<notin> rt2_reserved s"
    "rt2_global_page_table s' = (rt2_global_page_table s)(vpn \<mapsto> ppn)"
    "rt2_num_pages s' = rt2_num_pages s" "rt2_offsetbits s' = rt2_offsetbits s"
    "rt2_reserved s' = rt2_reserved s" "rt2_num_free s' = rt2_num_free s - 1"
    "0 < rt2_num_free s \<Longrightarrow> rt2_free_pages s ! ppn"
    "rt2_free_pages s' = (if 0 < rt2_num_free s then (rt2_free_pages s)[ppn := False] else rt2_free_pages s)"
proof -
  have n: "0 < rt2_num_pages s" using a by (auto simp: rt2_assign_def split: if_splits)
  show "ppn < rt2_num_pages s" "int ppn \<notin> rt2_reserved s"
    "rt2_global_page_table s' = (rt2_global_page_table s)(vpn \<mapsto> ppn)"
    "rt2_num_pages s' = rt2_num_pages s" "rt2_offsetbits s' = rt2_offsetbits s"
    "rt2_reserved s' = rt2_reserved s" "rt2_num_free s' = rt2_num_free s - 1"
    "0 < rt2_num_free s \<Longrightarrow> rt2_free_pages s ! ppn"
    "rt2_free_pages s' = (if 0 < rt2_num_free s then (rt2_free_pages s)[ppn := False] else rt2_free_pages s)"
    using a by (auto simp: rt2_assign_def dest!: draw_Some_mod [OF n] split: if_splits option.splits)
qed

lemma rt2_assign_invar:
  assumes inv: "rt2_invar s" and a: "rt2_assign vpn s = Inr (ppn, s')"
  shows "rt2_invar s'"
proof -
  note c = rt2_assign_cases [OF inv a]
  show ?thesis
  proof (cases "rt2_num_free s = 0")
    case True
    then have "\<not> 0 < length (filter id (rt2_free_pages s))" using inv by (simp add: rt2_invar_def)
    then have "\<not> rt2_free_pages s ! ppn"
      unfolding count_marks_pos using inv c(1) by (simp add: rt2_invar_def)
    with inv c True show ?thesis by (simp add: rt2_invar_def)
  next
    case False
    with c(8) have fr: "rt2_free_pages s ! ppn" by simp
    have "Suc (length (filter id ((rt2_free_pages s)[ppn := False]))) = length (filter id (rt2_free_pages s))"
      using inv c(1) fr by (intro count_marks_clear) (auto simp: rt2_invar_def)
    with inv c(1,3-7,9) False show ?thesis
      by (auto simp: rt2_invar_def nth_list_update)
  qed
qed

lemma rt2_translate_cases:
  assumes t: "rt2_translate r s = Inr (ok, r', s')"
  obtains (hit) p where "rt2_global_page_table s (drop_bit (rt2_offsetbits s) (addr r)) = Some p"
      "s' = s" "addr r' = phys_addr (rt2_offsetbits s) p (addr r)"
  | (fresh) p where "rt2_global_page_table s (drop_bit (rt2_offsetbits s) (addr r)) = None"
      "rt2_assign (drop_bit (rt2_offsetbits s) (addr r)) s = Inr (p, s')"
      "addr r' = phys_addr (rt2_offsetbits s') p (addr r)"
  using t by (auto simp: rt2_translate_def Let_def split: option.splits sum.splits)

lemma rt2_translate_invar:
  assumes inv: "rt2_invar s" and t: "rt2_translate r s = Inr (ok, r', s')"
  shows "rt2_invar s' \<and> rt2_num_pages s' = rt2_num_pages s \<and> rt2_offsetbits s' = rt2_offsetbits s
    \<and> (\<exists>p. rt2_global_page_table s' (drop_bit (rt2_offsetbits s) (addr r)) = Some p
          \<and> addr r' = phys_addr (rt2_offsetbits s) p (addr r))"
  using t
proof (cases rule: rt2_translate_cases)
  case (hit p)
  with inv show ?thesis by simp
next
  case (fresh p)
  with rt2_assign_invar [OF inv fresh(2)] rt2_assign_cases(3-5) [OF inv fresh(2)] show ?thesis by simp
qed

interpretation rt2: page_translation
  rt2_translate rt2_invar "\<lambda>s r. drop_bit (rt2_offsetbits s) (addr r)" rt2_global_page_table
  rt2_num_pages rt2_offsetbits
proof unfold_locales
  fix s r ok r' s'
  assume inv: "rt2_invar s" and t: "rt2_translate r s = Inr (ok, r', s')"
  show "rt2_invar s'" and "rt2_num_pages s' = rt2_num_pages s \<and> rt2_offsetbits s' = rt2_offsetbits s"
    and "\<exists>p. rt2_global_page_table s' (drop_bit (rt2_offsetbits s) (addr r)) = Some p
           \<and> addr r' = phys_addr (rt2_offsetbits s) p (addr r)"
    using rt2_translate_invar [OF inv t] by auto
qed (simp_all add: rt2_invar_def)

text \<open>A translation takes at most one free page, and only an unmapped one.\<close>

lemma rt2_translate_inj:
  assumes inv: "rt2_invar s" and t: "rt2_translate r s = Inr (ok, r', s')"
    and room: "0 < rt2_num_free s"
    and inj: "inj_on (rt2_global_page_table s) (dom (rt2_global_page_table s))"
  shows "inj_on (rt2_global_page_table s') (dom (rt2_global_page_table s'))"
    "rt2_num_free s \<le> Suc (rt2_num_free s')" "rt2_global_page_table s \<subseteq>\<^sub>m rt2_global_page_table s'"
proof -
  have "inj_on (rt2_global_page_table s') (dom (rt2_global_page_table s'))
      \<and> rt2_num_free s \<le> Suc (rt2_num_free s') \<and> rt2_global_page_table s \<subseteq>\<^sub>m rt2_global_page_table s'"
    using t
  proof (cases rule: rt2_translate_cases)
    case (hit p)
    with inj show ?thesis by simp
  next
    case (fresh p)
    note c = rt2_assign_cases [OF inv fresh(2)]
    have new: "rt2_global_page_table s v \<noteq> Some p" for v
      using inv c(8) [OF room] by (auto simp: rt2_invar_def)
    have "inj_on (rt2_global_page_table s') (dom (rt2_global_page_table s'))"
      using inj new by (simp add: c(3) inj_on_def) (metis domI)
    with fresh(1) c(3,7) show ?thesis by (auto simp: map_le_def)
  qed
  then show "inj_on (rt2_global_page_table s') (dom (rt2_global_page_table s'))"
    "rt2_num_free s \<le> Suc (rt2_num_free s')" "rt2_global_page_table s \<subseteq>\<^sub>m rt2_global_page_table s'"
    by simp_all
qed

lemma rt2_translate_all_inj:
  "rt2_invar s \<Longrightarrow> inj_on (rt2_global_page_table s) (dom (rt2_global_page_table s)) \<Longrightarrow>
   length rs \<le> rt2_num_free s \<Longrightarrow> translate_all rt2_translate rs s = Inr (rs', s') \<Longrightarrow>
   inj_on (rt2_global_page_table s') (dom (rt2_global_page_table s'))"
proof (induction rs arbitrary: s rs')
  case Nil
  then show ?case by simp
next
  case (Cons r rs)
  then obtain ok r1 s1 rs1 where t: "rt2_translate r s = Inr (ok, r1, s1)"
    and a: "translate_all rt2_translate rs s1 = Inr (rs1, s')"
    by (auto split: sum.splits)
  have room: "0 < rt2_num_free s" using Cons.prems(3) by simp
  note j = rt2_translate_inj [OF Cons.prems(1) t room Cons.prems(2)]
  have "rt2_invar s1" using rt2_translate_invar [OF Cons.prems(1) t] by simp
  then show ?case using Cons.IH [OF _ j(1) _ a] j(2) Cons.prems(3) by simp
qed

lemma rt2_init_invar:
  assumes "rt2_init rng max_addr (2 ^ k) cores = Inr s" and "k < 21"
    and "0 \<le> max_addr" and "max_addr < 2 ^ 63"
  shows "rt2_invar s \<and> rt2_num_free s = nat (max_addr div 2 ^ (k + 10))
         \<and> rt2_global_page_table s = Map.empty \<and> rt2_offsetbits s = k + 10"
proof -
  note g = page_geometry [OF assms(2-4)]
  have "int (nat (max_addr div 2 ^ (k + 10))) * 2 ^ (k + 10) < 2 ^ 63"
    using g(3) assms(4) by (rule le_less_trans)
  with assms(1,2) show ?thesis
    by (auto simp: rt2_init_def g Let_def rt2_invar_def)
qed


section \<open>Properties\<close>


text \<open>
  C39. \<^verbatim>\<open>RandomTranslation2\<close>: when every page that is still free is reserved, the search for a page
  never ends, although the counter of free pages is positive. Reserving a page does not
  take it out of that counter.
\<close>

theorem rt2_hangs_on_reserved:
  assumes "rt2_global_page_table s (drop_bit (rt2_offsetbits s) (addr r)) = None"
    and "0 < rt2_num_pages s" and "0 < rt2_num_free s"
    and "\<forall>p < rt2_num_pages s. rt2_free_pages s ! p \<longrightarrow> int p \<in> rt2_reserved s"
  shows "rt2_translate r s = Inl No_Return"
proof -
  have "draw (\<lambda>p. int p \<notin> rt2_reserved s \<and> rt2_free_pages s ! p) (rt2_num_pages s) (rt2_rng s) = None"
    using assms(2,4) by (intro draw_None) auto
  with assms(1-3) show ?thesis by (simp add: rt2_translate_def rt2_assign_def Let_def)
qed



section \<open>Witnesses\<close>

definition rt2_demo :: "int set \<Rightarrow> random_tables2" where
  "rt2_demo reserved = \<lparr>rt2_rng = siterate Suc 0, rt2_max_paddr = 16384, rt2_pagesize = 4096,
     rt2_offsetbits = 12, rt2_num_pages = 4, rt2_free_pages = replicate 4 True, rt2_num_free = 4,
     rt2_translation = [Map.empty], rt2_reserved = reserved, rt2_global_page_table = Map.empty\<rparr>"

lemma rt2_demo_init: "rt2_init (siterate Suc 0) 16384 (2 ^ 2) 1 = Inr (rt2_demo {})"
proof -
  have "shl_i64 4 10 = 4096" by (simp add: shl_i64_mult)
  moreover have "calc_log2 4096 = Some 12" using calc_log2_pow2 [of 12] by simp
  ultimately show ?thesis
    by (simp add: rt2_init_def rt2_demo_def Let_def signed_divide_int_def take_bit_eq_mod)
qed

lemma rt2_demo_run:
  "\<exists>rs s. translate_all rt2_translate [Request_core 0 0 0, Request_core 4096 0 0] (rt2_demo {}) = Inr (rs, s)
     \<and> rt2_global_page_table s = [0 \<mapsto> 0, 1 \<mapsto> 1]"
proof -
  have "draw (\<lambda>p. replicate 4 True ! p) 4 (siterate Suc 0) = Some (0, siterate Suc 1)"
    by (subst draw.simps) simp
  moreover have "draw (\<lambda>p. (replicate 4 True)[0 := False] ! p) 4 (siterate Suc (Suc 0)) = Some (1, siterate Suc 2)"
    by (subst draw.simps) (simp add: numeral_2_eq_2)
  ultimately show ?thesis
    by (simp add: rt2_translate_def rt2_assign_def rt2_demo_def Let_def Request_core_def default_Request_def)
qed


theorem rt2_hangs_on_reserved_witness:
  "rt2_translate (Request_core 0 0 0) (rt2_demo {0, 1, 2, 3}) = Inl No_Return"
  by (rule rt2_hangs_on_reserved) (auto simp: rt2_demo_def)

end
