(* ===== verification/Addr_Mapper.thy ===== *)
theory Addr_Mapper
  imports Dram_Spec Requests
begin

text \<open>
  The address mappers of \<^verbatim>\<open>addr_mapper/impl/linear_mappers.cpp\<close>: how the bits of a physical
  address become the channel, rank, bank group, bank, row and column of a DRAM location.

  \<^verbatim>\<open>setup\<close> reads the organization of the device, given here by its level names, the size of
  every level, the prefetch size and the channel width. The three mappings differ in the
  order in which they slice the levels off the address; the third one also permutes banks.
  The copy of the bit counts in the global \<^verbatim>\<open>global_addr_bits\<close> is only ever printed.
\<close>

section \<open>State and setup\<close>

record linear_mapper =
  m_num_levels :: nat
  m_addr_bits :: "int list"
  m_tx_offset :: nat
  m_col_bits_idx :: nat
  m_row_bits_idx :: nat

definition LinearMapperBase_setup :: "string list \<Rightarrow> int list \<Rightarrow> int \<Rightarrow> int \<Rightarrow> linear_mapper result" where
  "LinearMapperBase_setup levels counts prefetch_size channel_width =
     (if counts = [] then Inl Out_Of_Bounds
      else case (those (map calc_log2 counts), calc_log2 prefetch_size,
                 calc_log2 (prefetch_size * channel_width sdiv 8)) of
        (Some bits, Some prefetch_bits, Some tx_offset) \<Rightarrow>
          (let n = length counts in
           case SpecDef_id levels ''row'' of
             Inl e \<Rightarrow> Inl Runtime_Error
           | Inr row \<Rightarrow>
               Inr \<lparr>m_num_levels = n,
                    m_addr_bits = (map int bits)[n - 1 := int (bits ! (n - 1)) - int prefetch_bits],
                    m_tx_offset = tx_offset, m_col_bits_idx = n - 1, m_row_bits_idx = row\<rparr>)
      | _ \<Rightarrow> Inl No_Return)"


section \<open>Slicing\<close>

text \<open>\<^verbatim>\<open>vector::resize(n, d)\<close> and the conversion of an address to \<^verbatim>\<open>int\<close>.\<close>

definition vec_resize :: "nat \<Rightarrow> 'a \<Rightarrow> 'a list \<Rightarrow> 'a list" where
  "vec_resize n d xs = take n xs @ replicate (n - length xs) d"

definition to_int :: "int \<Rightarrow> int" where
  "to_int x = signed_take_bit 31 x"

fun slice_levels :: "int list \<Rightarrow> nat list \<Rightarrow> int \<Rightarrow> int list \<Rightarrow> int \<times> int list" where
  "slice_levels bits [] a v = (a, v)"
| "slice_levels bits (i # is) a v =
     (case slice_lower_bits a (nat (bits ! i)) of
        (l, a') \<Rightarrow> slice_levels bits is a' (v[i := to_int l]))"

text \<open>A negative number of bits is a shift by a negative amount.\<close>

definition ChRaBaRoCo_apply :: "linear_mapper \<Rightarrow> Request \<Rightarrow> Request result" where
  "ChRaBaRoCo_apply m req =
     (if \<not> list_all (\<lambda>b. 0 \<le> b) (m_addr_bits m) then Inl Out_Of_Range
      else
        (let v = vec_resize (m_num_levels m) (-1) (addr_vec req);
             a = drop_bit (m_tx_offset m) (addr req);
             (a', v') = slice_levels (m_addr_bits m) (rev [0..<length (m_addr_bits m)]) a v
         in Inr (req\<lparr>addr_vec := v'\<rparr>)))"

definition RoBaRaCoCh_apply :: "linear_mapper \<Rightarrow> Request \<Rightarrow> Request result" where
  "RoBaRaCoCh_apply m req =
     (if \<not> list_all (\<lambda>b. 0 \<le> b) (m_addr_bits m) then Inl Out_Of_Range
      else
        (let v = vec_resize (m_num_levels m) (-1) (addr_vec req);
             a = drop_bit (m_tx_offset m) (addr req);
             (a', v') = slice_levels (m_addr_bits m)
               (0 # (length (m_addr_bits m) - 1) # [1..<Suc (m_row_bits_idx m)]) a v
         in Inr (req\<lparr>addr_vec := v'\<rparr>)))"

fun xor_levels :: "int list \<Rightarrow> nat \<Rightarrow> nat list \<Rightarrow> nat \<Rightarrow> int list \<Rightarrow> int list" where
  "xor_levels bits col [] row_xor_index v = v"
| "xor_levels bits col (lvl # lvls) row_xor_index v =
     (if 0 < bits ! lvl
      then (let mask = drop_bit row_xor_index (v ! col) AND low_mask (nat (bits ! lvl))
            in xor_levels bits col lvls (row_xor_index + nat (bits ! lvl))
                 (v[lvl := v ! lvl XOR mask]))
      else xor_levels bits col lvls row_xor_index v)"

text \<open>The slicing part of \<^verbatim>\<open>MOP4CLXOR\<close>: two column bits, the levels above the row, the rest.\<close>

definition MOP4CLXOR_slice :: "linear_mapper \<Rightarrow> int \<Rightarrow> int list \<Rightarrow> int list" where
  "MOP4CLXOR_slice m a v =
     (let bits = m_addr_bits m; col = m_col_bits_idx m; row = m_row_bits_idx m;
          (low, a1) = slice_lower_bits a 2;
          (a2, v2) = slice_levels bits [0..<row] a1 (v[col := to_int low]);
          (high, a3) = slice_lower_bits a2 (nat (bits ! col - 2));
          v3 = v2[col := to_int (v2 ! col + shl_i64 high 2)]
      in v3[row := to_int a3])"

definition MOP4CLXOR_apply :: "linear_mapper \<Rightarrow> Request \<Rightarrow> Request result" where
  "MOP4CLXOR_apply m req =
     (let bits = m_addr_bits m; col = m_col_bits_idx m in
      if \<not> list_all (\<lambda>b. 0 \<le> b) bits \<or> bits ! col < 2 then Inl Out_Of_Range
      else
        (let v = MOP4CLXOR_slice m (drop_bit (m_tx_offset m) (addr req))
                   (vec_resize (m_num_levels m) (-1) (addr_vec req))
         in Inr (req\<lparr>addr_vec := xor_levels bits col [0..<col] 0 v\<rparr>)))"


section \<open>Lemmas on slicing\<close>

lemma to_int_small: "0 \<le> x \<Longrightarrow> x < 2 ^ 31 \<Longrightarrow> to_int x = x"
  unfolding to_int_def by (rule signed_take_bit_int_eq_self) simp_all

lemma slice_value:
  assumes "0 \<le> b" "b < 31"
  shows "slice_lower_bits a (nat b) = (a mod 2 ^ nat b, a div 2 ^ nat b)"
    "to_int (a mod 2 ^ nat b) = a mod 2 ^ nat b"
proof -
  have n: "nat b < 31" using assms by linarith
  then show "slice_lower_bits a (nat b) = (a mod 2 ^ nat b, a div 2 ^ nat b)"
    by (rule slice_lower_bits_div_mod)
  have "(2::int) ^ nat b < 2 ^ 31" using n by (intro power_strict_increasing) auto
  then have "a mod 2 ^ nat b < 2 ^ 31"
    using pos_mod_bound [of "2 ^ nat b" a] by (smt (verit) zero_less_power)
  then show "to_int (a mod 2 ^ nat b) = a mod 2 ^ nat b" by (intro to_int_small) simp_all
qed

text \<open>The inverse of slicing: the levels of \<open>v\<close> put together again above the rest \<open>a\<close>.\<close>

fun unslice :: "int list \<Rightarrow> nat list \<Rightarrow> int list \<Rightarrow> int \<Rightarrow> int" where
  "unslice bits [] v a = a"
| "unslice bits (i # is) v a = v ! i + 2 ^ nat (bits ! i) * unslice bits is v a"

definition bits_ok :: "int list \<Rightarrow> nat list \<Rightarrow> bool" where
  "bits_ok bits is \<longleftrightarrow> distinct is \<and> (\<forall>i \<in> set is. i < length bits \<and> 0 \<le> bits ! i \<and> bits ! i < 31)"

lemma slice_levels_other:
  "slice_levels bits is a v = (a', v') \<Longrightarrow> length v' = length v \<and> (\<forall>i. i \<notin> set is \<longrightarrow> v' ! i = v ! i)"
  by (induction bits "is" a v rule: slice_levels.induct) (auto split: prod.splits)

lemma slice_levels_correct:
  "slice_levels bits is a v = (a', v') \<Longrightarrow> bits_ok bits is \<Longrightarrow> length v = length bits \<Longrightarrow>
   unslice bits is v' a' = a
   \<and> (\<forall>i \<in> set is. 0 \<le> v' ! i \<and> v' ! i < 2 ^ nat (bits ! i))
   \<and> a' = a div 2 ^ sum_list (map (\<lambda>i. nat (bits ! i)) is)"
proof (induction bits "is" a v rule: slice_levels.induct)
  case (1 bits a v)
  then show ?case by simp
next
  case (2 bits i "is" a v)
  let ?n = "nat (bits ! i)"
  have i: "i < length bits" "0 \<le> bits ! i" "bits ! i < 31" "i \<notin> set is" "bits_ok bits is"
    using 2(3) by (auto simp: bits_ok_def)
  note sl = slice_value [OF i(2,3)]
  have run: "slice_levels bits is (a div 2 ^ ?n) (v[i := a mod 2 ^ ?n]) = (a', v')"
    using 2(2) by (simp add: sl)
  have "v' ! i = a mod 2 ^ ?n" using slice_levels_other [OF run] i(1,4) 2(4) by simp
  moreover note 2(1) [of "a mod 2 ^ ?n" "a div 2 ^ ?n", unfolded sl, OF refl run i(5)] 2(4)
  ultimately show ?case
    by (auto simp: power_add zdiv_zmult2_eq)
qed

lemma unslice_cong:
  "(\<And>i. i \<in> set is \<Longrightarrow> v ! i = w ! i) \<Longrightarrow> unslice bits is v a = unslice bits is w a"
  by (induction "is") auto

lemma vec_resize_length [simp]: "length (vec_resize n d xs) = n"
  by (simp add: vec_resize_def)


section \<open>The contract of an address mapper\<close>

definition total_bits :: "linear_mapper \<Rightarrow> nat" where
  "total_bits m = sum_list (map nat (m_addr_bits m))"

text \<open>
  What \<^verbatim>\<open>setup\<close> produces for an organization whose last two levels are row and column, with
  at least four transactions per row.
\<close>

definition mapper_wf :: "linear_mapper \<Rightarrow> bool" where
  "mapper_wf m \<longleftrightarrow> 3 \<le> m_num_levels m \<and> length (m_addr_bits m) = m_num_levels m
     \<and> list_all (\<lambda>b. 0 \<le> b \<and> b < 31) (m_addr_bits m)
     \<and> m_col_bits_idx m = m_num_levels m - 1 \<and> m_row_bits_idx m = m_num_levels m - 2
     \<and> 2 \<le> m_addr_bits m ! m_col_bits_idx m"

text \<open>
  A mapper returns a vector with every level in the range of its bits, and addresses of
  the device that get the same vector belong to the same transaction.
\<close>

locale addr_mapping =
  fixes apply_map :: "linear_mapper \<Rightarrow> Request \<Rightarrow> Request result"
  assumes apply_returns: "mapper_wf m \<Longrightarrow> \<exists>v. apply_map m r = Inr (r\<lparr>addr_vec := v\<rparr>)"
    and apply_bounds:
      "mapper_wf m \<Longrightarrow> 0 \<le> addr r \<Longrightarrow> addr r < 2 ^ (m_tx_offset m + total_bits m) \<Longrightarrow>
       apply_map m r = Inr r' \<Longrightarrow>
       length (addr_vec r') = m_num_levels m
       \<and> (\<forall>i < m_num_levels m. 0 \<le> addr_vec r' ! i \<and> addr_vec r' ! i < 2 ^ nat (m_addr_bits m ! i))"
    and apply_inj:
      "mapper_wf m \<Longrightarrow> 0 \<le> addr r \<Longrightarrow> addr r < 2 ^ (m_tx_offset m + total_bits m) \<Longrightarrow>
       0 \<le> addr q \<Longrightarrow> addr q < 2 ^ (m_tx_offset m + total_bits m) \<Longrightarrow>
       apply_map m r = Inr r' \<Longrightarrow> apply_map m q = Inr q' \<Longrightarrow> addr_vec r' = addr_vec q' \<Longrightarrow>
       addr r div 2 ^ m_tx_offset m = addr q div 2 ^ m_tx_offset m"
begin

lemma apply_vec:
  assumes "mapper_wf m" and "apply_map m r = Inr r'"
  shows "addr r' = addr r \<and> type_id r' = type_id r \<and> source_id r' = source_id r"
  using apply_returns [OF assms(1), of r] assms(2) by auto

text \<open>Distinct transactions of the device get distinct locations.\<close>

lemma apply_distinct:
  assumes "mapper_wf m" and "0 \<le> addr r" and "addr r < 2 ^ (m_tx_offset m + total_bits m)"
    and "0 \<le> addr q" and "addr q < 2 ^ (m_tx_offset m + total_bits m)"
  shows "\<exists>r' q'. apply_map m r = Inr r' \<and> apply_map m q = Inr q'
     \<and> (addr_vec r' = addr_vec q' \<longrightarrow> addr r div 2 ^ m_tx_offset m = addr q div 2 ^ m_tx_offset m)"
  using apply_returns [OF assms(1), of r] apply_returns [OF assms(1), of q] apply_inj [OF assms] by blast

end


section \<open>The three mappings\<close>

lemma order_sum:
  assumes "distinct is" and "set is = {..<length bits}"
  shows "sum_list (map (\<lambda>i. nat (bits ! i)) is) = sum_list (map nat bits)"
proof -
  have "sum_list (map (\<lambda>i. nat (bits ! i)) is) = (\<Sum>i < length bits. nat (bits ! i))"
    using assms by (simp add: sum_list_distinct_conv_sum_set)
  also have "\<dots> = sum_list (map nat bits)"
    by (simp add: sum_list_sum_nth atLeast0LessThan)
  finally show ?thesis .
qed

lemma tx_small:
  assumes "0 \<le> a" and "a < 2 ^ (t + n)"
  shows "(drop_bit t a) div 2 ^ n = (0::int)"
proof -
  have "a div 2 ^ (t + n) = 0" using assms by simp
  then show ?thesis by (simp add: drop_bit_eq_div power_add zdiv_zmult2_eq)
qed

text \<open>The two mappings that only slice, for an order that visits every level once.\<close>

definition order_ok :: "linear_mapper \<Rightarrow> nat list \<Rightarrow> bool" where
  "order_ok m is \<longleftrightarrow> distinct is \<and> set is = {..<length (m_addr_bits m)}"

definition slicing ::
  "(linear_mapper \<Rightarrow> nat list) \<Rightarrow> (linear_mapper \<Rightarrow> Request \<Rightarrow> Request result) \<Rightarrow> bool" where
  "slicing order app \<longleftrightarrow> (\<forall>m r. mapper_wf m \<longrightarrow> order_ok m (order m)
     \<and> app m r = Inr (r\<lparr>addr_vec := snd (slice_levels (m_addr_bits m) (order m)
          (drop_bit (m_tx_offset m) (addr r)) (vec_resize (m_num_levels m) (-1) (addr_vec r)))\<rparr>))"

lemma slicing_correct:
  assumes sl: "slicing order app" and wf: "mapper_wf m" and app: "app m r = Inr r'"
    and a: "0 \<le> addr r" "addr r < 2 ^ (m_tx_offset m + total_bits m)"
  shows "unslice (m_addr_bits m) (order m) (addr_vec r') 0 = addr r div 2 ^ m_tx_offset m"
    "length (addr_vec r') = m_num_levels m"
    "\<forall>i < m_num_levels m. 0 \<le> addr_vec r' ! i \<and> addr_vec r' ! i < 2 ^ nat (m_addr_bits m ! i)"
proof -
  let ?b = "m_addr_bits m" and ?is = "order m"
  obtain a' v' where run: "slice_levels ?b ?is (drop_bit (m_tx_offset m) (addr r))
      (vec_resize (m_num_levels m) (-1) (addr_vec r)) = (a', v')"
    by fastforce
  have ord: "order_ok m ?is" and v': "addr_vec r' = v'"
    using sl wf app run by (auto simp: slicing_def)
  have ok: "bits_ok ?b ?is"
    using ord wf by (auto simp: bits_ok_def order_ok_def mapper_wf_def list_all_length)
  have len: "length (vec_resize (m_num_levels m) (-1) (addr_vec r)) = length ?b"
    using wf by (simp add: mapper_wf_def)
  note c = slice_levels_correct [OF run ok len]
  have z: "a' = 0"
    using c a tx_small order_sum [of ?is ?b] ord by (simp add: order_ok_def total_bits_def)
  show "unslice ?b ?is (addr_vec r') 0 = addr r div 2 ^ m_tx_offset m"
    using conjunct1 [OF c] unfolding z v' by (simp add: drop_bit_eq_div)
  show "length (addr_vec r') = m_num_levels m"
    using slice_levels_other [OF run] v' by simp
  show "\<forall>i < m_num_levels m. 0 \<le> addr_vec r' ! i \<and> addr_vec r' ! i < 2 ^ nat (?b ! i)"
    using c v' ord wf by (auto simp: order_ok_def mapper_wf_def)
qed

lemma slicing_mapping: "slicing order app \<Longrightarrow> addr_mapping app"
proof (unfold_locales, goal_cases)
  case (1 m r)
  then show ?case by (auto simp: slicing_def)
next
  case (2 m r r')
  then show ?case using slicing_correct [of order app m r r'] by blast
next
  case (3 m r q r' q')
  then show ?case
    using slicing_correct(1) [of order app m r r'] slicing_correct(1) [of order app m q q'] by simp
qed

lemma ChRaBaRoCo_slicing: "slicing (\<lambda>m. rev [0..<length (m_addr_bits m)]) ChRaBaRoCo_apply"
  by (auto simp: slicing_def order_ok_def ChRaBaRoCo_apply_def mapper_wf_def list_all_length Let_def
      split: prod.splits)

lemma RoBaRaCoCh_slicing:
  "slicing (\<lambda>m. 0 # (length (m_addr_bits m) - 1) # [1..<Suc (m_row_bits_idx m)]) RoBaRaCoCh_apply"
proof -
  have "order_ok m (0 # (length (m_addr_bits m) - 1) # [1..<Suc (m_row_bits_idx m)])"
    if "mapper_wf m" for m
    using that by (auto simp: order_ok_def mapper_wf_def)
  moreover have "list_all (\<lambda>b. 0 \<le> b) (m_addr_bits m)" if "mapper_wf m" for m
    using that by (simp add: mapper_wf_def list_all_length)
  ultimately show ?thesis
    by (simp add: slicing_def RoBaRaCoCh_apply_def Let_def split_beta del: upt.simps upt_conv_Cons)
qed

interpretation chra: addr_mapping ChRaBaRoCo_apply
  by (rule slicing_mapping [OF ChRaBaRoCo_slicing])

interpretation roba: addr_mapping RoBaRaCoCh_apply
  by (rule slicing_mapping [OF RoBaRaCoCh_slicing])


subsection \<open>The permutation of the banks\<close>

lemma xor_levels_keep:
  "col \<notin> set lvls \<Longrightarrow>
   length (xor_levels bits col lvls idx v) = length v \<and> xor_levels bits col lvls idx v ! col = v ! col"
  by (induction bits col lvls idx v rule: xor_levels.induct) (auto simp: Let_def)

definition in_bits :: "int list \<Rightarrow> int list \<Rightarrow> bool" where
  "in_bits bits v \<longleftrightarrow> (\<forall>i < length v. 0 \<le> v ! i \<and> v ! i < 2 ^ nat (bits ! i))"

lemma in_bits_update:
  assumes "in_bits bits v" and "0 \<le> x" and "x < 2 ^ nat (bits ! l)"
  shows "in_bits bits (v[l := x])"
  unfolding in_bits_def
proof (intro allI impI)
  fix i assume "i < length (v[l := x])"
  with assms show "0 \<le> v[l := x] ! i \<and> v[l := x] ! i < 2 ^ nat (bits ! i)"
    by (cases "i = l") (auto simp: in_bits_def)
qed

lemma xor_bounds: "0 \<le> x \<Longrightarrow> x < 2 ^ n \<Longrightarrow> 0 \<le> y \<Longrightarrow> y < 2 ^ n \<Longrightarrow> 0 \<le> x XOR y \<and> x XOR y < (2::int) ^ n"
  by (simp add: XOR_upper)

lemma xor_cancel: "x XOR k = y XOR k \<longleftrightarrow> x = (y::int)"
proof
  assume "x XOR k = y XOR k"
  then have "(x XOR k) XOR k = (y XOR k) XOR k" by simp
  then show "x = y" by (simp add: xor.assoc)
qed simp

lemma xor_levels_bounds:
  "list_all (\<lambda>b. 0 \<le> b \<and> b < 31) bits \<Longrightarrow> in_bits bits v \<Longrightarrow>
   length v = length bits \<Longrightarrow> set lvls \<subseteq> {..<length v} \<Longrightarrow> in_bits bits (xor_levels bits col lvls idx v)"
proof (induction lvls arbitrary: idx v)
  case Nil
  then show ?case by simp
next
  case (Cons lvl lvls)
  let ?n = "nat (bits ! lvl)"
  let ?mask = "drop_bit idx (v ! col) AND low_mask ?n"
  have l: "lvl < length v" using Cons.prems(4) by simp
  have n: "?n < 31" using Cons.prems(1,3) l by (simp add: list_all_length nat_less_iff)
  have mask: "0 \<le> ?mask" "?mask < 2 ^ ?n" using n by (simp_all add: and_low_mask)
  have "0 \<le> v ! lvl XOR ?mask \<and> v ! lvl XOR ?mask < 2 ^ ?n"
    using Cons.prems(2) l mask by (intro xor_bounds) (auto simp: in_bits_def)
  then have "in_bits bits (v[lvl := v ! lvl XOR ?mask])"
    using Cons.prems(2) by (intro in_bits_update) auto
  with Cons show ?case by (simp add: Let_def)
qed

lemma list_update_cancel:
  assumes "length v = length w" and "lvl < length v" and "v[lvl := v ! lvl XOR k] = w[lvl := w ! lvl XOR (k::int)]"
  shows "v = w"
proof (rule nth_equalityI [OF assms(1)])
  fix i assume "i < length v"
  have "v[lvl := v ! lvl XOR k] ! i = w[lvl := w ! lvl XOR k] ! i" using assms(3) by simp
  then show "v ! i = w ! i"
    using assms(1,2) \<open>i < length v\<close> by (cases "i = lvl") (auto simp: xor_cancel)
qed

lemma xor_levels_inj:
  "xor_levels bits col lvls idx v = xor_levels bits col lvls idx w \<Longrightarrow> col \<notin> set lvls \<Longrightarrow>
   set lvls \<subseteq> {..<length v} \<Longrightarrow> length v = length w \<Longrightarrow> v ! col = w ! col \<Longrightarrow> v = w"
proof (induction lvls arbitrary: idx v w)
  case Nil
  then show ?case by simp
next
  case (Cons lvl lvls)
  show ?case
  proof (cases "0 < bits ! lvl")
    case False
    with Cons show ?thesis by simp
  next
    case True
    let ?k = "drop_bit idx (v ! col) AND low_mask (nat (bits ! lvl))"
    have eq: "xor_levels bits col lvls (idx + nat (bits ! lvl)) (v[lvl := v ! lvl XOR ?k])
        = xor_levels bits col lvls (idx + nat (bits ! lvl)) (w[lvl := w ! lvl XOR ?k])"
      using Cons.prems(1,5) True by (simp add: Let_def)
    have "v[lvl := v ! lvl XOR ?k] = w[lvl := w ! lvl XOR ?k]"
      by (rule Cons.IH [OF eq]) (use Cons.prems(2-5) in simp_all)
    then show ?thesis using Cons.prems(3,4) by (intro list_update_cancel [of v w lvl ?k]) simp_all
  qed
qed


text \<open>The vector of \<^verbatim>\<open>MOP4CLXOR\<close> before the permutation determines the transaction.\<close>

definition mop_index :: "linear_mapper \<Rightarrow> int list \<Rightarrow> int" where
  "mop_index m v =
     (let bits = m_addr_bits m; col = m_col_bits_idx m; row = m_row_bits_idx m
      in v ! col mod 4 + 4 * unslice bits [0..<row] v
           (v ! col div 4 + 2 ^ nat (bits ! col - 2) * v ! row))"

lemma mop_total_bits:
  assumes "mapper_wf m"
  shows "total_bits m = 2 + sum_list (map (\<lambda>i. nat (m_addr_bits m ! i)) [0..<m_row_bits_idx m])
      + nat (m_addr_bits m ! m_col_bits_idx m - 2) + nat (m_addr_bits m ! m_row_bits_idx m)"
proof -
  let ?b = "m_addr_bits m" and ?row = "m_row_bits_idx m" and ?col = "m_col_bits_idx m"
  have n: "length ?b = Suc (Suc ?row)" "?col = Suc ?row" "2 \<le> ?b ! ?col"
    using assms by (auto simp: mapper_wf_def)
  have "total_bits m = sum_list (map (\<lambda>i. nat (?b ! i)) [0..<Suc (Suc ?row)])"
    unfolding total_bits_def n(1) [symmetric] by (simp add: order_sum atLeast0LessThan)
  with n show ?thesis by (simp add: nat_diff_distrib)
qed

lemma div_less_bound:
  fixes a m n :: int
  assumes "0 < m" and "a < m * n"
  shows "a div m < n"
proof (rule ccontr)
  assume "\<not> a div m < n"
  then have "m * n \<le> m * (a div m)" using assms(1) by (intro mult_left_mono) simp_all
  also have "\<dots> \<le> a" using assms(1) by (simp add: minus_mod_eq_mult_div [symmetric])
  finally show False using assms(2) by simp
qed

lemma mop_column:
  fixes b x y :: int
  assumes "2 \<le> b" and "b < 31"
  defines "c \<equiv> x mod 4 + 4 * (y mod 2 ^ nat (b - 2)) :: int"
  shows "0 \<le> c" "c < 2 ^ nat b" "c mod 4 = x mod 4" "c div 4 = y mod 2 ^ nat (b - 2)"
    "to_int (x mod 4 + shl_i64 (y mod 2 ^ nat (b - 2)) 2) = c"
proof -
  let ?k = "nat (b - 2)"
  have "nat b = 2 + ?k" using assms(1) by linarith
  then have pw: "(2::int) ^ nat b = 4 * 2 ^ ?k" by (simp add: power_add)
  have "(2::int) ^ nat b < 2 ^ 31" using assms(1,2) by (intro power_strict_increasing) auto
  moreover have y: "0 \<le> y mod 2 ^ ?k" "y mod 2 ^ ?k \<le> 2 ^ ?k - 1"
    using pos_mod_bound [of "2 ^ ?k" y] by simp_all
  moreover have "0 \<le> x mod 4" "x mod 4 < 4" by simp_all
  ultimately have c: "0 \<le> c" "c < 4 * 2 ^ ?k" "c < 2 ^ 31" and "y mod 2 ^ ?k < 2 ^ 31"
    unfolding c_def pw by linarith+
  then have c4: "y mod 2 ^ ?k * 2 ^ 2 < 2 ^ 63" by simp
  show "0 \<le> c" "c < 2 ^ nat b" using c pw by simp_all
  show "c mod 4 = x mod 4" "c div 4 = y mod 2 ^ ?k" by (simp_all add: c_def)
  have "shl_i64 (y mod 2 ^ ?k) 2 = 4 * (y mod 2 ^ ?k)"
    using shl_i64_mult [OF y(1) c4] by simp
  then have "x mod 4 + shl_i64 (y mod 2 ^ ?k) 2 = c" by (simp add: c_def)
  then show "to_int (x mod 4 + shl_i64 (y mod 2 ^ ?k) 2) = c" using c by (simp add: to_int_small)
qed

lemma MOP4CLXOR_slice_correct:
  assumes wf: "mapper_wf m" and a: "0 \<le> a" "a < 2 ^ total_bits m"
    and len: "length v0 = m_num_levels m"
  defines "v \<equiv> MOP4CLXOR_slice m a v0"
  shows "length v = m_num_levels m" "in_bits (m_addr_bits m) v" "mop_index m v = a"
proof -
  let ?b = "m_addr_bits m" and ?row = "m_row_bits_idx m" and ?col = "m_col_bits_idx m"
  have n: "length ?b = m_num_levels m" "?col = Suc ?row" "m_num_levels m = Suc (Suc ?row)" "2 \<le> ?b ! ?col"
    and b: "\<And>i. i < m_num_levels m \<Longrightarrow> 0 \<le> ?b ! i \<and> ?b ! i < 31"
    using wf by (auto simp: mapper_wf_def list_all_length)
  let ?k = "nat (?b ! ?col - 2)"
  have low: "slice_lower_bits a 2 = (a mod 4, a div 4)" "to_int (a mod 4) = a mod 4"
    using slice_value [of 2 a] by simp_all
  obtain a2 v2 where run: "slice_levels ?b [0..<?row] (a div 4) (v0[?col := a mod 4]) = (a2, v2)"
    by fastforce
  have ok: "bits_ok ?b [0..<?row]" using b n by (auto simp: bits_ok_def)
  have "length (v0[?col := a mod 4]) = length ?b" using n len by simp
  note sl = slice_levels_correct [OF run ok this]
  have v2: "v2 ! ?col = a mod 4" "length v2 = m_num_levels m"
    using slice_levels_other [OF run] n len by simp_all
  have bc: "?b ! ?col < 31" "?k < 31" using b [of ?col] n by auto
  note c = mop_column [OF n(4) bc(1), of a a2]
  define a3 where "a3 = a2 div 2 ^ ?k"
  have v: "v = v2[?col := a mod 4 + 4 * (a2 mod 2 ^ ?k), ?row := to_int a3]"
    using run c(5) v2(1) slice_lower_bits_div_mod [OF bc(2), of a2]
    by (simp add: v_def MOP4CLXOR_slice_def low Let_def a3_def)
  let ?S = "sum_list (map (\<lambda>i. nat (?b ! i)) [0..<?row])"
  have "a3 = a div 2 ^ (2 + ?S + ?k)"
    using sl by (simp add: a3_def power_add zdiv_zmult2_eq)
  moreover have "a < 2 ^ (2 + ?S + ?k) * 2 ^ nat (?b ! ?row)"
    using a(2) mop_total_bits [OF wf] by (simp add: power_add)
  ultimately have a3: "0 \<le> a3" "a3 < 2 ^ nat (?b ! ?row)"
    using a(1) by (simp_all add: pos_imp_zdiv_nonneg_iff div_less_bound)
  have "nat (?b ! ?row) < 31" using b [of ?row] n by auto
  then have "(2::int) ^ nat (?b ! ?row) < 2 ^ 31" by (intro power_strict_increasing) auto
  then have row: "to_int a3 = a3" using a3 by (intro to_int_small) linarith+
  show len_v: "length v = m_num_levels m" using v v2 by simp
  have nth: "v ! ?col = a mod 4 + 4 * (a2 mod 2 ^ ?k)" "v ! ?row = a3" "\<And>i. i < ?row \<Longrightarrow> v ! i = v2 ! i"
    using v v2(2) n row by simp_all
  show "in_bits ?b v"
    unfolding in_bits_def
  proof (intro allI impI)
    fix i assume "i < length v"
    then consider "i < ?row" | "i = ?row" | "i = ?col" using len_v n by linarith
    then show "0 \<le> v ! i \<and> v ! i < 2 ^ nat (?b ! i)"
      using nth a3 c(1,2) conjunct1 [OF conjunct2 [OF sl]] by cases (simp_all only: set_upt, simp)
  qed
  have "unslice ?b [0..<?row] v a2 = a div 4"
    using conjunct1 [OF sl] unslice_cong [of "[0..<?row]" v v2 ?b a2] nth(3) by simp
  moreover have "a2 mod 2 ^ ?k + 2 ^ ?k * a3 = a2" by (simp add: a3_def)
  ultimately show "mop_index m v = a"
    by (simp add: mop_index_def Let_def nth(1,2) c(3,4))
qed


lemma MOP4CLXOR_run:
  assumes wf: "mapper_wf m"
  defines "s \<equiv> \<lambda>r. MOP4CLXOR_slice m (drop_bit (m_tx_offset m) (addr r))
                  (vec_resize (m_num_levels m) (-1) (addr_vec r))"
  shows "MOP4CLXOR_apply m r = Inr (r\<lparr>addr_vec := xor_levels (m_addr_bits m) (m_col_bits_idx m)
           [0..<m_col_bits_idx m] 0 (s r)\<rparr>)"
    "0 \<le> addr r \<Longrightarrow> addr r < 2 ^ (m_tx_offset m + total_bits m) \<Longrightarrow>
     length (s r) = m_num_levels m \<and> in_bits (m_addr_bits m) (s r)
     \<and> mop_index m (s r) = addr r div 2 ^ m_tx_offset m"
proof -
  have neg: "list_all (\<lambda>b. 0 \<le> b) (m_addr_bits m)" "\<not> m_addr_bits m ! m_col_bits_idx m < 2"
    using wf by (auto simp: mapper_wf_def list_all_length)
  then show "MOP4CLXOR_apply m r = Inr (r\<lparr>addr_vec := xor_levels (m_addr_bits m) (m_col_bits_idx m)
           [0..<m_col_bits_idx m] 0 (s r)\<rparr>)"
    by (simp add: MOP4CLXOR_apply_def Let_def s_def)
  assume a: "0 \<le> addr r" "addr r < 2 ^ (m_tx_offset m + total_bits m)"
  have "0 \<le> drop_bit (m_tx_offset m) (addr r)" "drop_bit (m_tx_offset m) (addr r) < 2 ^ total_bits m"
    using a by (simp_all add: drop_bit_eq_div div_less_bound power_add pos_imp_zdiv_nonneg_iff)
  from MOP4CLXOR_slice_correct [OF wf this, of "vec_resize (m_num_levels m) (-1) (addr_vec r)"]
  show "length (s r) = m_num_levels m \<and> in_bits (m_addr_bits m) (s r)
     \<and> mop_index m (s r) = addr r div 2 ^ m_tx_offset m"
    by (simp add: s_def drop_bit_eq_div)
qed

interpretation mop: addr_mapping MOP4CLXOR_apply
proof (unfold_locales, goal_cases)
  case (1 m r)
  then show ?case using MOP4CLXOR_run(1) by blast
next
  case (2 m r r')
  let ?s = "MOP4CLXOR_slice m (drop_bit (m_tx_offset m) (addr r))
      (vec_resize (m_num_levels m) (-1) (addr_vec r))"
  let ?x = "xor_levels (m_addr_bits m) (m_col_bits_idx m) [0..<m_col_bits_idx m] 0 ?s"
  have s: "length ?s = m_num_levels m" "in_bits (m_addr_bits m) ?s"
    using MOP4CLXOR_run(2) [OF 2(1-3)] by simp_all
  have "in_bits (m_addr_bits m) ?x"
    using s 2(1) by (intro xor_levels_bounds) (auto simp: mapper_wf_def)
  moreover have "length ?x = m_num_levels m" using s(1) xor_levels_keep [of "m_col_bits_idx m"] by simp
  moreover have "addr_vec r' = ?x" using MOP4CLXOR_run(1) [OF 2(1), of r] 2(4) by simp
  ultimately show ?case by (simp add: in_bits_def)
next
  case (3 m r q r' q')
  let ?s = "\<lambda>r. MOP4CLXOR_slice m (drop_bit (m_tx_offset m) (addr r))
      (vec_resize (m_num_levels m) (-1) (addr_vec r))"
  let ?x = "xor_levels (m_addr_bits m) (m_col_bits_idx m) [0..<m_col_bits_idx m] 0"
  have s: "length (?s r) = m_num_levels m" "length (?s q) = m_num_levels m"
    "mop_index m (?s r) = addr r div 2 ^ m_tx_offset m" "mop_index m (?s q) = addr q div 2 ^ m_tx_offset m"
    using MOP4CLXOR_run(2) [OF 3(1-3)] MOP4CLXOR_run(2) [OF 3(1,4,5)] by simp_all
  have eq: "?x (?s r) = ?x (?s q)"
    using MOP4CLXOR_run(1) [OF 3(1), of r] MOP4CLXOR_run(1) [OF 3(1), of q] 3(6-8) by simp
  have c: "m_col_bits_idx m \<notin> set [0..<m_col_bits_idx m]" by simp
  have "?s r ! m_col_bits_idx m = ?s q ! m_col_bits_idx m"
    using xor_levels_keep [OF c] eq by metis
  moreover have "set [0..<m_col_bits_idx m] \<subseteq> {..<length (?s r)}" using s 3(1) by (auto simp: mapper_wf_def)
  ultimately have "?s r = ?s q" using xor_levels_inj [OF eq c] s by simp
  with s show ?case by simp
qed


section \<open>Properties\<close>


text \<open>
  C27. No two transactions share a location: under each mapping, addresses of the device
  with the same location differ only in the bits within a transaction.
\<close>

theorem mappers_injective:
  assumes "mapper_wf m" and "app \<in> {ChRaBaRoCo_apply, RoBaRaCoCh_apply, MOP4CLXOR_apply}"
    and "0 \<le> addr r" "addr r < 2 ^ (m_tx_offset m + total_bits m)"
    and "0 \<le> addr q" "addr q < 2 ^ (m_tx_offset m + total_bits m)"
    and "app m r = Inr r'" "app m q = Inr q'" "addr_vec r' = addr_vec q'"
  shows "addr r div 2 ^ m_tx_offset m = addr q div 2 ^ m_tx_offset m"
  using assms(2,7-9) chra.apply_inj [OF assms(1,3-6)] roba.apply_inj [OF assms(1,3-6)]
    mop.apply_inj [OF assms(1,3-6)]
  by blast


section \<open>Witnesses\<close>

text \<open>Two channels, four banks, 16 rows, 8 columns in units of a burst of 8 on 64 bits.\<close>

definition mapper_demo :: linear_mapper where
  "mapper_demo = \<lparr>m_num_levels = 4, m_addr_bits = [1, 2, 4, 3], m_tx_offset = 6,
     m_col_bits_idx = 3, m_row_bits_idx = 2\<rparr>"

lemma mapper_demo_wf: "mapper_wf mapper_demo" "total_bits mapper_demo = 10" "m_tx_offset mapper_demo = 6"
  by (simp_all add: mapper_demo_def mapper_wf_def total_bits_def)


lemma ChRaBaRoCo_demo:
  assumes "a div 64 = 192"
  shows "ChRaBaRoCo_apply mapper_demo (Request_addr a 0) = Inr ((Request_addr a 0)\<lparr>addr_vec := [0, 1, 8, 0]\<rparr>)"
proof -
  have "drop_bit 6 a = 192" using assms by (simp add: drop_bit_eq_div)
  moreover have "vec_resize 4 (-1) [] = [-1, -1, -1, -1 :: int]"
    by (simp add: vec_resize_def numeral_eq_Suc)
  moreover have "rev [0..<4] = [3, 2, 1, 0]" by (simp add: upt_rec)
  ultimately show ?thesis
    by (simp add: ChRaBaRoCo_apply_def mapper_demo_def Let_def Request_addr_def default_Request_def
        slice_lower_bits_div_mod to_int_small list_update_beyond)
qed

theorem mappers_injective_witness:
  "addr (Request_addr 12345 0) div 2 ^ m_tx_offset mapper_demo
   = addr (Request_addr 12350 0) div 2 ^ m_tx_offset mapper_demo"
  by (rule mappers_injective [OF mapper_demo_wf(1), of ChRaBaRoCo_apply "Request_addr 12345 0"
        "Request_addr 12350 0" _ _, OF _ _ _ _ _ ChRaBaRoCo_demo ChRaBaRoCo_demo])
    (simp_all add: mapper_demo_wf, simp_all add: Request_addr_def)

end
