(* ===== verification/Row_Indirection.thy ===== *)
theory Row_Indirection
  imports Addr_Mapper
begin

text \<open>
  The address mappers with a row indirection table (RIT), \<^verbatim>\<open>addr_mapper/impl/rit.cpp\<close>: a row
  swapped by a mitigation plugin is redirected to its partner. Every bank has a table from
  rows to entries; a swap inserts one entry for each of the two rows.
\<close>

section \<open>State\<close>

record RIT_entry =
  dst_row :: int
  lock :: bool

record rit_mapper = linear_mapper +
  m_rank_level :: nat
  m_bank_level :: nat
  m_row_level :: nat
  m_num_rit_entries :: int
  m_org_count :: "int list"
  m_row_indirection_table :: "(int \<rightharpoonup> RIT_entry) list"

text \<open>\<^verbatim>\<open>setup\<close> computes the same fields as the mappers without a table.\<close>

definition rit_setup :: "string list \<Rightarrow> int list \<Rightarrow> int \<Rightarrow> int \<Rightarrow> rit_mapper result" where
  "rit_setup levels counts prefetch_size channel_width =
     (case LinearMapperBase_setup levels counts prefetch_size channel_width of
        Inl e \<Rightarrow> Inl e
      | Inr m \<Rightarrow>
          Inr (linear_mapper.extend m
            \<lparr>m_rank_level = 0, m_bank_level = 0, m_row_level = 0, m_num_rit_entries = -1,
             m_org_count = counts, m_row_indirection_table = []\<rparr>))"

definition init_rit :: "string list \<Rightarrow> nat \<Rightarrow> int \<Rightarrow> rit_mapper \<Rightarrow> rit_mapper result" where
  "init_rit levels num_banks num_rit_entries m =
     (case (SpecDef_id levels ''rank'', SpecDef_id levels ''bank'', SpecDef_id levels ''row'') of
        (Inr rank, Inr bank, Inr row) \<Rightarrow>
          Inr (m\<lparr>m_num_rit_entries := num_rit_entries, m_rank_level := rank, m_bank_level := bank,
                 m_row_level := row,
                 m_row_indirection_table :=
                   m_row_indirection_table m @ replicate num_banks Map.empty\<rparr>)
      | _ \<Rightarrow> Inl Out_Of_Range)"


section \<open>Operations on the table of a bank\<close>

definition check_rit :: "(int \<rightharpoonup> RIT_entry) \<Rightarrow> int \<Rightarrow> int" where
  "check_rit t src_row = (case t src_row of Some e \<Rightarrow> dst_row e | None \<Rightarrow> -1)"

text \<open>The number of entries is compared as an unsigned number.\<close>

definition is_rit_full :: "int \<Rightarrow> (int \<rightharpoonup> RIT_entry) \<Rightarrow> bool" where
  "is_rit_full num_rit_entries t = (take_bit 64 num_rit_entries \<le> int (card (dom t)))"

text \<open>\<^verbatim>\<open>operator[]\<close> gives a row without an entry the entry that redirects it to row 0.\<close>

definition is_rit_locked :: "(int \<rightharpoonup> RIT_entry) \<Rightarrow> int \<Rightarrow> bool \<times> (int \<rightharpoonup> RIT_entry)" where
  "is_rit_locked t src_row =
     (case t src_row of
        Some e \<Rightarrow> (lock e, t)
      | None \<Rightarrow> (False, t(src_row \<mapsto> \<lparr>dst_row = 0, lock = False\<rparr>)))"

definition rit_unlock :: "(int \<rightharpoonup> RIT_entry) \<Rightarrow> (int \<rightharpoonup> RIT_entry)" where
  "rit_unlock t = (\<lambda>r. map_option (\<lambda>e. e\<lparr>lock := False\<rparr>) (t r))"

definition rit_insert_entry ::
  "int \<Rightarrow> (int \<rightharpoonup> RIT_entry) \<Rightarrow> int \<Rightarrow> int \<Rightarrow> (int \<rightharpoonup> RIT_entry) result" where
  "rit_insert_entry num_rit_entries t src dst =
     (let t1 = t(src \<mapsto> \<lparr>dst_row = dst, lock = True\<rparr>);
          t2 = t1(dst \<mapsto> \<lparr>dst_row = src, lock = True\<rparr>)
      in if take_bit 64 num_rit_entries < int (card (dom t2)) then Inl Exit_Process else Inr t2)"

definition rit_remove_entry :: "(int \<rightharpoonup> RIT_entry) \<Rightarrow> int \<Rightarrow> int \<Rightarrow> (int \<rightharpoonup> RIT_entry)" where
  "rit_remove_entry t src dst = (t(src := None))(dst := None)"

text \<open>\<open>rows\<close> is the order in which the loop visits the keys of the table.\<close>

definition get_unswap_pair ::
  "int list \<Rightarrow> (int \<rightharpoonup> RIT_entry) \<Rightarrow> int set \<Rightarrow> (int \<times> int) result" where
  "get_unswap_pair rows t exclusion_list =
     (case find (\<lambda>r. case t r of
                  None \<Rightarrow> False
                | Some e \<Rightarrow> \<not> lock e \<and> r \<notin> exclusion_list \<and> dst_row e \<notin> exclusion_list) rows of
        None \<Rightarrow> Inl Exit_Process
      | Some r \<Rightarrow> Inr (r, case t r of None \<Rightarrow> 0 | Some e \<Rightarrow> dst_row e))"


section \<open>Mapping with indirection\<close>

text \<open>The loop runs from the level above the bank up to the rank.\<close>

definition flat_bank_step :: "int list \<Rightarrow> int list \<Rightarrow> int \<times> int \<Rightarrow> nat \<Rightarrow> int \<times> int" where
  "flat_bank_step counts v acc i =
     (case acc of (bank, accumulated) \<Rightarrow>
        let dimension = accumulated * counts ! (i + 1) in (bank + v ! i * dimension, dimension))"

definition flat_bank_id :: "rit_mapper \<Rightarrow> int list \<Rightarrow> int" where
  "flat_bank_id m v =
     fst (foldl (flat_bank_step (m_org_count m) v) (v ! m_bank_level m, 1)
       (rev [m_rank_level m..<m_bank_level m]))"

definition apply_indirection :: "rit_mapper \<Rightarrow> Request \<Rightarrow> Request result" where
  "apply_indirection m req =
     (if m_num_rit_entries m = -1 then Inr req
      else case vec_at (m_row_indirection_table m) (flat_bank_id m (addr_vec req)) of
             None \<Rightarrow> Inl Out_Of_Bounds
           | Some t \<Rightarrow>
               (let dst = check_rit t (addr_vec req ! m_row_level m)
                in if dst \<noteq> -1 then Inr (req\<lparr>addr_vec := (addr_vec req)[m_row_level m := dst]\<rparr>)
                   else Inr req))"

definition with_rit ::
  "(linear_mapper \<Rightarrow> Request \<Rightarrow> Request result) \<Rightarrow> rit_mapper \<Rightarrow> Request \<Rightarrow> Request result" where
  "with_rit apply_map m req =
     (case apply_map (linear_mapper.truncate m) req of
        Inl e \<Rightarrow> Inl e
      | Inr req' \<Rightarrow> apply_indirection m req')"

definition ChRaBaRoCo_with_rit_apply :: "rit_mapper \<Rightarrow> Request \<Rightarrow> Request result" where
  "ChRaBaRoCo_with_rit_apply = with_rit ChRaBaRoCo_apply"

definition RoBaRaCoCh_with_rit_apply :: "rit_mapper \<Rightarrow> Request \<Rightarrow> Request result" where
  "RoBaRaCoCh_with_rit_apply = with_rit RoBaRaCoCh_apply"

definition MOP4CLXOR_with_rit_apply :: "rit_mapper \<Rightarrow> Request \<Rightarrow> Request result" where
  "MOP4CLXOR_with_rit_apply = with_rit MOP4CLXOR_apply"


section \<open>The pairing invariant\<close>

definition redirect :: "(int \<rightharpoonup> RIT_entry) \<Rightarrow> int \<Rightarrow> int" where
  "redirect t row = (let dst = check_rit t row in if dst \<noteq> -1 then dst else row)"

text \<open>The partner of a partner of a row is the row.\<close>

definition rit_paired :: "(int \<rightharpoonup> RIT_entry) \<Rightarrow> bool" where
  "rit_paired t \<longleftrightarrow>
     (\<forall>r e. t r = Some e \<longrightarrow>
        0 \<le> r \<and> 0 \<le> dst_row e \<and> dst_row e \<noteq> r
        \<and> (\<exists>e'. t (dst_row e) = Some e' \<and> dst_row e' = r))"

text \<open>
  The tables the operations build when they are used as intended: two different rows
  without an entry are swapped, a pair of partners is removed, all entries are unlocked.
\<close>

inductive rit_reachable :: "int \<Rightarrow> (int \<rightharpoonup> RIT_entry) \<Rightarrow> bool" for n where
  rit_start: "rit_reachable n Map.empty"
| rit_swap: "rit_reachable n t \<Longrightarrow> t src = None \<Longrightarrow> t dst = None \<Longrightarrow> src \<noteq> dst \<Longrightarrow> 0 \<le> src \<Longrightarrow> 0 \<le> dst \<Longrightarrow>
    rit_insert_entry n t src dst = Inr t' \<Longrightarrow> rit_reachable n t'"
| rit_unswap: "rit_reachable n t \<Longrightarrow> t src = Some e \<Longrightarrow> rit_reachable n (rit_remove_entry t src (dst_row e))"
| rit_epoch: "rit_reachable n t \<Longrightarrow> rit_reachable n (rit_unlock t)"

lemma rit_paired_insert:
  assumes "rit_paired t" and "t src = None" and "t dst = None" and "src \<noteq> dst" and "0 \<le> src" "0 \<le> dst"
    and "rit_insert_entry n t src dst = Inr t'"
  shows "rit_paired t'"
proof -
  have t': "t' = t(src \<mapsto> \<lparr>dst_row = dst, lock = True\<rparr>, dst \<mapsto> \<lparr>dst_row = src, lock = True\<rparr>)"
    using assms(7) by (auto simp: rit_insert_entry_def Let_def split: if_splits)
  have "dst_row e \<noteq> src \<and> dst_row e \<noteq> dst" if "t r = Some e" for r e
    using assms(1-3) that by (fastforce simp: rit_paired_def)
  with assms(1,4-6) show ?thesis
    unfolding t' rit_paired_def by (auto split: if_splits)
qed

lemma rit_paired_remove:
  assumes p: "rit_paired t" and e: "t src = Some e"
  shows "rit_paired (rit_remove_entry t src (dst_row e))"
  unfolding rit_paired_def
proof (intro allI impI)
  fix r f assume "rit_remove_entry t src (dst_row e) r = Some f"
  then have r: "r \<noteq> src" "r \<noteq> dst_row e" "t r = Some f"
    by (auto simp: rit_remove_entry_def split: if_splits)
  obtain f' where f': "t (dst_row f) = Some f'" "dst_row f' = r"
    and nn: "0 \<le> r" "0 \<le> dst_row f" "dst_row f \<noteq> r"
    using p r(3) unfolding rit_paired_def by blast
  obtain e' where e': "t (dst_row e) = Some e'" "dst_row e' = src"
    using p e unfolding rit_paired_def by blast
  have "dst_row f \<noteq> src" using f' e r(2) by auto
  moreover have "dst_row f \<noteq> dst_row e" using f' e' r(1) by auto
  ultimately show "0 \<le> r \<and> 0 \<le> dst_row f \<and> dst_row f \<noteq> r
      \<and> (\<exists>f'. rit_remove_entry t src (dst_row e) (dst_row f) = Some f' \<and> dst_row f' = r)"
    using f' nn by (simp add: rit_remove_entry_def)
qed

lemma rit_paired_unlock: "rit_paired t \<Longrightarrow> rit_paired (rit_unlock t)"
  unfolding rit_paired_def rit_unlock_def by fastforce

lemma rit_reachable_paired: "rit_reachable n t \<Longrightarrow> rit_paired t"
proof (induction rule: rit_reachable.induct)
  case rit_start
  then show ?case by (simp add: rit_paired_def)
next
  case (rit_swap t src dst t')
  then show ?case using rit_paired_insert by blast
next
  case (rit_unswap t src e)
  then show ?case using rit_paired_remove by blast
next
  case (rit_epoch t)
  then show ?case by (simp add: rit_paired_unlock)
qed


text \<open>
  Asking whether a row without an entry is locked breaks the pairing: it leaves an entry
  behind that redirects the row to row 0.
\<close>

theorem is_rit_locked_redirects:
  assumes "t row = None"
  shows "\<exists>t'. is_rit_locked t row = (False, t') \<and> redirect t row = row \<and> redirect t' row = 0"
  using assms by (simp add: is_rit_locked_def redirect_def check_rit_def)


section \<open>Witnesses\<close>

lemma rit_demo:
  "rit_reachable 4 [7 \<mapsto> \<lparr>dst_row = 9, lock = True\<rparr>, 9 \<mapsto> \<lparr>dst_row = 7, lock = True\<rparr>]"
proof (rule rit_swap [OF rit_start])
  show "rit_insert_entry 4 Map.empty 7 9
      = Inr [7 \<mapsto> \<lparr>dst_row = 9, lock = True\<rparr>, 9 \<mapsto> \<lparr>dst_row = 7, lock = True\<rparr>]"
    by (simp add: rit_insert_entry_def Let_def take_bit_eq_mod)
qed simp_all


theorem is_rit_locked_redirects_witness:
  "\<exists>t'. is_rit_locked Map.empty 5 = (False, t') \<and> redirect Map.empty 5 = 5 \<and> redirect t' 5 = 0"
  by (rule is_rit_locked_redirects) simp

end
