(* ===== verification/Processor_Memory.thy ===== *)
theory Processor_Memory
  imports Window_Queue Controller_DDR4 Dynamic_Migration Random_Translation Row_Indirection
begin

text \<open>
  The processor with its memory system. A core waits in its instruction window for the loads
  it has sent; the translation, the address mapper, the controllers and the callbacks have to
  bring every one of them back. The contracts of the translation and of the mapper are what a
  request keeps on its way.
\<close>

section \<open>Contracts of the parts between a core and a controller\<close>

locale request_translation =
  fixes translate :: "'t translate_op"
  assumes translate_keeps: "translate req t = Inr (ok, req', t') \<Longrightarrow>
    type_id req' = type_id req \<and> source_id req' = source_id req \<and> callback req' = callback req"

locale request_mapper =
  fixes mapper :: "Request \<Rightarrow> Request result"
  assumes mapper_keeps: "mapper req = Inr req' \<Longrightarrow>
    addr req' = addr req \<and> type_id req' = type_id req \<and> source_id req' = source_id req \<and> callback req' = callback req"

text \<open>
  The translations and address mappers a configuration can choose, and the virtual calls
  \<^verbatim>\<open>translate\<close> and \<^verbatim>\<open>apply\<close>. The row indirection tables are fixed here: only controller plugins
  that are not part of this model change them.
\<close>

datatype ITranslation =
    NoTranslation int
  | RandomTranslation random_tables
  | RandomTranslation2 random_tables2
  | LocalToRequester page_tables
  | DynamicMigration migration_tables

datatype IAddrMapper =
    ChRaBaRoCo linear_mapper
  | RoBaRaCoCh linear_mapper
  | MOP4CLXOR linear_mapper
  | ChRaBaRoCo_with_rit rit_mapper
  | RoBaRaCoCh_with_rit rit_mapper
  | MOP4CLXOR_with_rit rit_mapper

definition rebuild :: "('s \<Rightarrow> ITranslation) \<Rightarrow> (bool \<times> Request \<times> 's) result \<Rightarrow> (bool \<times> Request \<times> ITranslation) result" where
  "rebuild con r = bindr r (\<lambda>(ok, req, t). Inr (ok, req, con t))"

fun ITranslation_translate ::
  "int list list \<Rightarrow> (migration_tables \<Rightarrow> int list) \<Rightarrow> (migration_tables \<Rightarrow> int \<Rightarrow> int list) \<Rightarrow> ITranslation translate_op" where
  "ITranslation_translate lat iter citer req (NoTranslation t) = rebuild NoTranslation (no_translate req t)"
| "ITranslation_translate lat iter citer req (RandomTranslation t) = rebuild RandomTranslation (rt_translate req t)"
| "ITranslation_translate lat iter citer req (RandomTranslation2 t) = rebuild RandomTranslation2 (rt2_translate req t)"
| "ITranslation_translate lat iter citer req (LocalToRequester t) = rebuild LocalToRequester (lr_translate lat req t)"
| "ITranslation_translate lat iter citer req (DynamicMigration t) = rebuild DynamicMigration (dm_translate lat iter citer req t)"

fun IAddrMapper_apply :: "IAddrMapper \<Rightarrow> Request \<Rightarrow> Request result" where
  "IAddrMapper_apply (ChRaBaRoCo m) req = ChRaBaRoCo_apply m req"
| "IAddrMapper_apply (RoBaRaCoCh m) req = RoBaRaCoCh_apply m req"
| "IAddrMapper_apply (MOP4CLXOR m) req = MOP4CLXOR_apply m req"
| "IAddrMapper_apply (ChRaBaRoCo_with_rit m) req = ChRaBaRoCo_with_rit_apply m req"
| "IAddrMapper_apply (RoBaRaCoCh_with_rit m) req = RoBaRaCoCh_with_rit_apply m req"
| "IAddrMapper_apply (MOP4CLXOR_with_rit m) req = MOP4CLXOR_with_rit_apply m req"

text \<open>All of them satisfy the contracts.\<close>

definition same_request :: "Request \<Rightarrow> Request \<Rightarrow> bool" where
  "same_request req req' \<longleftrightarrow> type_id req' = type_id req \<and> source_id req' = source_id req \<and> callback req' = callback req"

lemma rebuildD: "rebuild con r = Inr (ok, req', t') \<Longrightarrow> \<exists>t. r = Inr (ok, req', t)"
  by (auto simp: rebuild_def elim!: bindrE)

lemma translations_same:
  "no_translate req n = Inr (ok, req', n') \<Longrightarrow> same_request req req'"
  "rt_translate req r = Inr (ok, req', r') \<Longrightarrow> same_request req req'"
  "rt2_translate req r2 = Inr (ok, req', r2') \<Longrightarrow> same_request req req'"
  "lr_translate lat req p = Inr (ok, req', p') \<Longrightarrow> same_request req req'"
  "dm_translate lat iter citer req m = Inr (ok, req', m') \<Longrightarrow> same_request req req'"
  by (auto simp: same_request_def no_translate_def rt_translate_def rt2_translate_def lr_translate_def dm_translate_def Let_def
      split: option.splits sum.splits prod.splits if_splits)

interpretation translation: request_translation "ITranslation_translate lat iter citer" for lat iter citer
proof
  fix req t ok req' t'
  assume "ITranslation_translate lat iter citer req t = Inr (ok, req', t')"
  then have "same_request req req'" by (cases t) (auto dest!: rebuildD intro: translations_same)
  then show "type_id req' = type_id req \<and> source_id req' = source_id req \<and> callback req' = callback req"
    by (simp add: same_request_def)
qed

lemma indirection_same:
  "apply_indirection m req = Inr req' \<Longrightarrow> same_request req req' \<and> addr req' = addr req"
  by (auto simp: apply_indirection_def same_request_def Let_def split: if_splits option.splits)

lemma linear_same:
  "ChRaBaRoCo_apply m req = Inr req' \<Longrightarrow> same_request req req' \<and> addr req' = addr req"
  "RoBaRaCoCh_apply m req = Inr req' \<Longrightarrow> same_request req req' \<and> addr req' = addr req"
  "MOP4CLXOR_apply m req = Inr req' \<Longrightarrow> same_request req req' \<and> addr req' = addr req"
  by (auto simp: same_request_def ChRaBaRoCo_apply_def RoBaRaCoCh_apply_def MOP4CLXOR_apply_def Let_def split: if_splits prod.splits)

lemma with_rit_same:
  assumes "with_rit f m req = Inr req'" and "\<And>m req'. f m req = Inr req' \<Longrightarrow> same_request req req' \<and> addr req' = addr req"
  shows "same_request req req' \<and> addr req' = addr req"
  using assms by (fastforce simp: with_rit_def same_request_def split: sum.splits dest: indirection_same)

lemma mapper_same:
  assumes "IAddrMapper_apply mp req = Inr req'"
  shows "same_request req req' \<and> addr req' = addr req"
  using assms linear_same [of _ req req'] with_rit_same [where f = ChRaBaRoCo_apply, OF _ linear_same(1)]
    with_rit_same [where f = RoBaRaCoCh_apply, OF _ linear_same(2)] with_rit_same [where f = MOP4CLXOR_apply, OF _ linear_same(3)]
  by (cases mp) (simp_all only: IAddrMapper_apply.simps ChRaBaRoCo_with_rit_apply_def RoBaRaCoCh_with_rit_apply_def MOP4CLXOR_with_rit_apply_def)

interpretation addr_mapper: request_mapper "IAddrMapper_apply mp" for mp
  by unfold_locales (use mapper_same in \<open>auto simp: same_request_def\<close>)


section \<open>Loads that are on their way\<close>

text \<open>A read of core \<open>k\<close> for address \<open>a\<close>, with a callback, is in the bag.\<close>

definition comes_back :: "Request multiset \<Rightarrow> nat \<Rightarrow> int \<Rightarrow> bool" where
  "comes_back R k a \<longleftrightarrow> (\<exists>r \<in># R. addr r = a \<and> source_id r = int k \<and> callback r \<noteq> None)"

text \<open>A core is well-formed, and every load it waits for is in the bag.\<close>

definition core_ok :: "Request multiset \<Rightarrow> nat \<Rightarrow> SimpleO3Core \<Rightarrow> bool" where
  "core_ok R k c \<longleftrightarrow> window_inv (o3_window c) \<and> o3_id c = int k
     \<and> (\<forall>a \<in> waiting (window_contents (o3_window c)). comes_back R k a)"

definition cores_ok :: "Request multiset \<Rightarrow> SimpleO3Core list \<Rightarrow> bool" where
  "cores_ok R cs \<longleftrightarrow> (\<forall>k < length cs. core_ok R k (cs ! k))"

lemma comes_back_mono: "comes_back R k a \<Longrightarrow> R \<subseteq># R' \<Longrightarrow> comes_back R' k a"
  by (auto simp: comes_back_def dest: mset_subset_eqD)

lemma core_ok_mono: "core_ok R k c \<Longrightarrow> R \<subseteq># R' \<Longrightarrow> core_ok R' k c"
  by (auto simp: core_ok_def intro: comes_back_mono)

lemma comes_back_origins [simp]: "comes_back (origins R) k a = comes_back R k a"
  by (auto simp: comes_back_def origin_def ident_def)

lemma core_ok_origins [simp]: "core_ok (origins R) k c = core_ok R k c"
  by (simp add: core_ok_def)

lemma cores_ok_origins [simp]: "cores_ok (origins R) cs = cores_ok R cs"
  by (simp add: cores_ok_def)

text \<open>What a step that keeps the window keeps.\<close>

lemma core_ok_same:
  "core_ok R k c \<Longrightarrow> o3_window c' = o3_window c \<Longrightarrow> o3_id c' = o3_id c \<Longrightarrow> core_ok R k c'"
  by (simp add: core_ok_def)

lemma fetch_inst_ok:
  assumes "core_ok R k c" "fetch_inst c = Inr c'"
  shows "core_ok R k c'"
  using assms(2) by (auto simp: fetch_inst_def intro!: core_ok_same [OF assms(1)] elim!: bindrE)

lemma core_retire_ok:
  assumes c: "core_ok R k c" and "core_retire c = Inr c'"
  shows "core_ok R k c'"
proof -
  obtain n w where w: "window_retire (o3_window c) = Inr (n, w)" and c': "o3_window c' = w" "o3_id c' = o3_id c"
    using assms(2) by (auto simp: core_retire_def Let_def elim!: bindrE split: if_splits)
  show ?thesis using window.leave_waits [OF _ w] c by (simp add: core_ok_def c')
qed

lemma not_full_room: "window_inv w \<Longrightarrow> \<not> window_is_full w \<Longrightarrow> length (window_contents w) < w_depth w"
  by (simp add: window_inv_def window_is_full_def)

lemma insert_ready_ok:
  assumes c: "core_ok R k c" and "\<not> window_is_full (o3_window c)" and w: "window_insert r a (o3_window c) = Inr w"
    and "r \<or> comes_back R k a"
  shows "core_ok R k (c\<lparr>o3_window := w\<rparr>)"
  using window.enter_waits [OF _ _ w] not_full_room assms by (auto simp: core_ok_def split: if_splits)

lemma insert_bubbles_ok: "core_ok R k c \<Longrightarrow> insert_bubbles n c = Inr (go, m, c') \<Longrightarrow> core_ok R k c'"
proof (induction n c rule: insert_bubbles.induct)
  case (1 n c)
  show ?case
  proof (cases "0 < o3_num_bubbles c \<and> \<not> (int n = w_ipc (o3_window c) \<or> window_is_full (o3_window c))")
    case True
    then obtain w where w: "window_insert True (-1) (o3_window c) = Inr w"
      and rest: "insert_bubbles (n + 1) (c\<lparr>o3_window := w, o3_num_bubbles := o3_num_bubbles c - 1\<rparr>) = Inr (go, m, c')"
      using 1(3) by (subst (asm) insert_bubbles.simps) (auto split: sum.splits)
    have "core_ok R k (c\<lparr>o3_window := w, o3_num_bubbles := o3_num_bubbles c - 1\<rparr>)"
      by (rule core_ok_same [OF insert_ready_ok [OF 1(2) _ w]]) (use True in simp_all)
    then show ?thesis using 1(1) True w rest by blast
  next
    case False
    then show ?thesis using 1(2,3) by (subst (asm) insert_bubbles.simps) (auto split: if_splits)
  qed
qed


section \<open>Callbacks\<close>

lemma core_receive_ok:
  assumes "core_receive req c = Inr c'" and c: "core_ok (add_mset (ident req) R) k c" and "source_id req = int k"
  shows "core_ok R k c'"
proof -
  obtain w where w: "window_set_ready (addr req) (o3_window c) = Inr w" and c': "o3_window c' = w" "o3_id c' = o3_id c"
    using assms(1) by (auto simp: core_receive_def Let_def elim!: bindrE split: if_splits)
  show ?thesis using window.ready_waits [OF _ w] c by (auto simp: core_ok_def c' comes_back_def ident_def)
qed

lemma core_ok_other: "core_ok (add_mset (ident req) R) k c \<Longrightarrow> source_id req \<noteq> int k \<or> callback req = None \<Longrightarrow> core_ok R k c"
  by (auto simp: core_ok_def comes_back_def ident_def)

lemma simpleO3_receive_ok:
  assumes "simpleO3_receive req f = Inr f'" and f: "cores_ok (add_mset (ident req) R) (so_cores f)"
  shows "cores_ok R (so_cores f')"
proof -
  let ?i = "nat (source_id req)"
  obtain c c' where c: "vec_at (so_cores f) (source_id req) = Some c" and c': "core_receive req c = Inr c'"
    and f': "so_cores f' = (so_cores f)[?i := c']"
    using assms(1) by (auto simp: simpleO3_receive_def elim!: bindrE)
  have i: "?i < length (so_cores f)" "c = so_cores f ! ?i" "source_id req = int ?i" using c by (auto simp: vec_at_def split: if_splits)
  have "core_ok R ?i c'" by (rule core_receive_ok [OF c' _ i(3)]) (use f i in \<open>simp add: cores_ok_def\<close>)
  moreover have "core_ok R k (so_cores f ! k)" if "k < length (so_cores f)" "k \<noteq> ?i" for k
    by (rule core_ok_other) (use f i(3) that in \<open>auto simp: cores_ok_def\<close>)
  ultimately show ?thesis using i(1) by (simp add: cores_ok_def f' nth_list_update)
qed

lemma call_back_ok: "call_back reqs f = Inr f' \<Longrightarrow> cores_ok (R + idents reqs) (so_cores f) \<Longrightarrow> cores_ok R (so_cores f')"
proof (induction reqs arbitrary: f)
  case (Cons req reqs)
  obtain f1 where f1: "(if callback req = None then Inr f else simpleO3_receive req f) = Inr f1" and rest: "call_back reqs f1 = Inr f'"
    using Cons.prems(1) by (auto elim!: bindrE)
  have "cores_ok (add_mset (ident req) (R + idents reqs)) (so_cores f)" using Cons.prems(2) by simp
  then have "cores_ok (R + idents reqs) (so_cores f1)"
    using f1 simpleO3_receive_ok [of req f f1] core_ok_other by (cases "callback req") (auto simp: cores_ok_def)
  then show ?case using Cons.IH [OF rest] by blast
qed simp


section \<open>The processor on a memory system\<close>

abbreviation in_flight :: "'d GenericDRAMSystem \<Rightarrow> Request multiset" where
  "in_flight s \<equiv> reads_in_flight (sys_controllers s)"

locale processor = row_device I dev bank_level row_open fits banks + request_translation translate + request_mapper mapper
  for I :: "'d IDRAM" and dev bank_level row_open fits banks
    and translate :: "'t translate_op" and mapper
begin

lemma send_step:
  assumes s: "sys_ok s" and send: "system_send I mapper req s = Inr (ok, s')"
  shows "sys_ok s'" and "origins (in_flight s) \<subseteq># origins (in_flight s')"
    and "ok \<Longrightarrow> is_read req \<Longrightarrow> source_id req = int k \<Longrightarrow> callback req \<noteq> None \<Longrightarrow> comes_back (in_flight s') k (addr req)"
proof -
  obtain mapped where m: "mapper req = Inr mapped" using send by (auto simp: system_send_def elim!: bindrE)
  note step = system_send_ok [OF s m send] and keeps = mapper_keeps [OF m]
  show "sys_ok s'" by (rule step(1))
  show "origins (in_flight s) \<subseteq># origins (in_flight s')" by (simp add: step(2))
  assume "ok" "is_read req" "source_id req = int k" "callback req \<noteq> None"
  then have "origin mapped \<in># origins (in_flight s')" using keeps by (simp add: step(2) is_read_def)
  moreover have "addr (origin mapped) = addr req" "source_id (origin mapped) = int k" "callback (origin mapped) \<noteq> None"
    using keeps \<open>source_id req = int k\<close> \<open>callback req \<noteq> None\<close> by (simp_all add: origin_def ident_def)
  ultimately have "comes_back (origins (in_flight s')) k (addr req)" unfolding comes_back_def by blast
  then show "comes_back (in_flight s') k (addr req)" by simp
qed

lemma core_ok_more: "core_ok (in_flight s) k c \<Longrightarrow> origins (in_flight s) \<subseteq># origins (in_flight s') \<Longrightarrow> core_ok (in_flight s') k c"
  using core_ok_mono [of "origins (in_flight s)" k c "origins (in_flight s')"] by simp

text \<open>What every step of a core keeps of the memory system, and its own invariant.\<close>

definition core_step_ok :: "nat \<Rightarrow> 'd GenericDRAMSystem \<Rightarrow> SimpleO3Core \<Rightarrow> 'd GenericDRAMSystem \<Rightarrow> bool" where
  "core_step_ok k s c' s' \<longleftrightarrow> sys_ok s' \<and> origins (in_flight s) \<subseteq># origins (in_flight s') \<and> core_ok (in_flight s') k c'"

lemma core_writeback_ok:
  assumes "core_writeback translate (system_send I mapper) c t s = Inr (c', t', s')" and s: "sys_ok s" and c: "core_ok (in_flight s) k c"
  shows "core_step_ok k s c' s'"
proof (cases "s' = s")
  case True
  have "core_ok (in_flight s) k c'"
    using assms(1) fetch_inst_ok [OF c] c by (auto simp: core_writeback_def elim!: bindrE split: if_splits prod.splits)
  then show ?thesis using s True by (simp add: core_step_ok_def)
next
  case False
  obtain req ok where send: "system_send I mapper req s = Inr (ok, s')" and c': "c' = c \<or> fetch_inst c = Inr c'"
    using assms(1) False by (auto simp: core_writeback_def llc_send_def elim!: bindrE split: if_splits prod.splits)
  have "core_ok (in_flight s') k c" by (rule core_ok_more [OF c send_step(2) [OF s send]])
  then show ?thesis using send_step(1,2) [OF s send] c' fetch_inst_ok by (auto simp: core_step_ok_def)
qed

lemma core_load_ok:
  assumes load: "core_load translate (system_send I mapper) n c t s = Inr (c', t', s')" and s: "sys_ok s" and c: "core_ok (in_flight s) k c"
  shows "core_step_ok k s c' s'"
proof (cases "o3_load_addr c = -1 \<or> (c', s') = (c, s)")
  case True
  then show ?thesis
    using load core_writeback_ok [OF _ s c] s c by (auto simp: core_load_def core_step_ok_def)
next
  case False
  let ?req0 = "Request_callback (o3_load_addr c) Type_Read (o3_id c) (Some 0)"
  obtain req t1 sent s1 where free: "\<not> window_is_full (o3_window c)"
    and tr: "translate ?req0 t = Inr (True, req, t1)" and send: "system_send I mapper req s = Inr (sent, s1)"
    and rest: "if sent then \<exists>w. window_insert False (addr req) (o3_window c) = Inr w \<and>
        (let c1 = c\<lparr>o3_window := w, o3_load_addr := -1\<rparr> in (c', t', s') = (c1, t1, s1) \<or>
          core_writeback translate (system_send I mapper) c1 t1 s1 = Inr (c', t', s')) else (c', s') = (c, s1)"
    using load False by (auto simp: core_load_def llc_send_def Let_def elim!: bindrE split: if_splits prod.splits)
  note step = send_step [OF s send]
  have c1: "core_ok (in_flight s1) k c" by (rule core_ok_more [OF c step(2)])
  show ?thesis
  proof (cases sent)
    case True
    have "is_read req" "source_id req = int k" "callback req \<noteq> None"
      using translate_keeps [OF tr] c by (simp_all add: Request_callback_def is_read_def core_ok_def)
    then have returns: "comes_back (in_flight s1) k (addr req)" using step(3) True by simp
    obtain w where w: "window_insert False (addr req) (o3_window c) = Inr w"
      and fin: "(c', s') = (c\<lparr>o3_window := w, o3_load_addr := -1\<rparr>, s1) \<or>
        core_writeback translate (system_send I mapper) (c\<lparr>o3_window := w, o3_load_addr := -1\<rparr>) t1 s1 = Inr (c', t', s')"
      using rest True by (auto simp: Let_def)
    have "core_ok (in_flight s1) k (c\<lparr>o3_window := w, o3_load_addr := -1\<rparr>)"
      by (rule core_ok_same [OF insert_ready_ok [OF c1 free w]]) (use returns in simp_all)
    then show ?thesis
      using fin core_writeback_ok [OF _ step(1)] step(1,2) by (auto simp: core_step_ok_def intro: subset_mset.trans)
  next
    case False
    then show ?thesis using rest c1 step(1,2) by (simp add: core_step_ok_def)
  qed
qed

lemma core_tick_ok:
  assumes "core_tick translate (system_send I mapper) c t s = Inr (c', t', s')" and s: "sys_ok s" and c: "core_ok (in_flight s) k c"
  shows "core_step_ok k s c' s'"
proof -
  obtain c1 go n c2 where 1: "core_retire c = Inr c1" and 2: "insert_bubbles 0 c1 = Inr (go, n, c2)"
    and 3: "if go then core_load translate (system_send I mapper) n c2 t s = Inr (c', t', s') else (c', s') = (c2, s)"
    using assms(1) by (auto simp: core_tick_def elim!: bindrE split: if_splits prod.splits)
  have "core_ok (in_flight s) k c2" by (rule insert_bubbles_ok [OF core_retire_ok [OF c 1] 2])
  then show ?thesis using 3 core_load_ok [OF _ s] s by (auto simp: core_step_ok_def split: if_splits)
qed

lemma tick_cores_ok:
  "tick_cores translate (system_send I mapper) cs t s = Inr (cs', t', s') \<Longrightarrow> sys_ok s \<Longrightarrow>
    (\<And>i. i < length cs \<Longrightarrow> core_ok (in_flight s) (k + i) (cs ! i)) \<Longrightarrow>
   sys_ok s' \<and> origins (in_flight s) \<subseteq># origins (in_flight s') \<and> length cs' = length cs
     \<and> (\<forall>i < length cs. core_ok (in_flight s') (k + i) (cs' ! i))"
proof (induction cs arbitrary: cs' t s k)
  case (Cons c cs)
  obtain c1 t1 s1 cs1 where 1: "core_tick translate (system_send I mapper) c t s = Inr (c1, t1, s1)"
    and 2: "tick_cores translate (system_send I mapper) cs t1 s1 = Inr (cs1, t', s')" and cs': "cs' = c1 # cs1"
    using Cons.prems(1) by (auto elim!: bindrE split: prod.splits)
  have step: "core_step_ok k s c1 s1" by (rule core_tick_ok [OF 1 Cons.prems(2)]) (use Cons.prems(3) [of 0] in simp)
  have "core_ok (in_flight s1) (Suc k + i) (cs ! i)" if "i < length cs" for i
    using Cons.prems(3) [of "Suc i"] that step by (auto simp: core_step_ok_def intro: core_ok_more)
  then have rest: "sys_ok s'" "origins (in_flight s1) \<subseteq># origins (in_flight s')" "length cs1 = length cs"
    "\<And>i. i < length cs \<Longrightarrow> core_ok (in_flight s') (Suc k + i) (cs1 ! i)"
    using Cons.IH [OF 2, of "Suc k"] step by (auto simp: core_step_ok_def)
  have "core_ok (in_flight s') (k + i) ((c1 # cs1) ! i)" if "i < Suc (length cs)" for i
    using that rest(4) step core_ok_more [OF _ rest(2)] by (cases i) (auto simp: core_step_ok_def)
  then show ?case using rest step by (auto simp: cs' core_step_ok_def intro: subset_mset.trans)
qed simp

text \<open>The invariant of the processor and its memory.\<close>

definition o3_ok :: "'t SimpleO3 \<times> 'd GenericDRAMSystem \<Rightarrow> bool" where
  "o3_ok w \<longleftrightarrow> sys_ok (snd w) \<and> cores_ok (in_flight (snd w)) (so_cores (fst w))"

lemma processor_tick_ok:
  assumes "processor_tick translate I mapper w = Inr w'" and "o3_ok w"
  shows "o3_ok w'"
proof -
  obtain cs t s where "tick_cores translate (system_send I mapper) (so_cores (fst w)) (so_translation (fst w)) (snd w) = Inr (cs, t, s)"
    and "so_cores (fst w') = cs" "snd w' = s"
    using assms(1) by (auto simp: processor_tick_def simpleO3_tick_def elim!: bindrE split: prod.splits)
  with tick_cores_ok [of "so_cores (fst w)" "so_translation (fst w)" "snd w" cs t s 0] assms(2) show ?thesis
    by (simp add: o3_ok_def cores_ok_def)
qed

lemma memory_tick_ok:
  assumes "memory_tick M I w = Inr w'" and "o3_ok w"
  shows "o3_ok w'"
proof -
  obtain s served f where t: "system_tick M I (snd w) = Inr (s, served)" and f: "call_back served (fst w) = Inr f" and w': "w' = (f, s)"
    using assms(1) by (auto simp: memory_tick_def elim!: bindrE split: prod.splits)
  note step = system_tick_ok [OF _ t]
  have "cores_ok (in_flight s + idents served) (so_cores (fst w))" using assms(2) step(2) by (simp add: o3_ok_def)
  then show ?thesis using call_back_ok [OF f] step(1) assms(2) by (simp add: o3_ok_def w')
qed

end


section \<open>Runs\<close>

text \<open>Cycles of the processor and of the memory, in any order.\<close>

inductive o3_run ::
  "'t translate_op \<Rightarrow> int list list \<Rightarrow> 'd IDRAM \<Rightarrow> (Request \<Rightarrow> Request result) \<Rightarrow>
    't SimpleO3 \<times> 'd GenericDRAMSystem \<Rightarrow> 't SimpleO3 \<times> 'd GenericDRAMSystem \<Rightarrow> bool"
  for translate M I mapper w0 where
  o3_start: "o3_run translate M I mapper w0 w0"
| o3_processor: "o3_run translate M I mapper w0 w \<Longrightarrow> processor_tick translate I mapper w = Inr w' \<Longrightarrow> o3_run translate M I mapper w0 w'"
| o3_memory: "o3_run translate M I mapper w0 w \<Longrightarrow> memory_tick M I w = Inr w' \<Longrightarrow> o3_run translate M I mapper w0 w'"

lemma sim_step_keeps:
  assumes "\<And>w w'. R w \<Longrightarrow> fop w = Inr w' \<Longrightarrow> R w'" "\<And>w w'. R w \<Longrightarrow> mop w = Inr w' \<Longrightarrow> R w'"
    and "sim_step fop fin mop ft mt i w = Inr (b, w')" "R w"
  shows "R w'"
  using assms(3,4) by (auto simp: sim_step_def Let_def elim!: bindrE split: if_splits intro: assms(1,2))

lemma sim_loop_keeps:
  fixes R :: "'w \<Rightarrow> bool"
  assumes keeps: "\<And>w w'. R w \<Longrightarrow> fop w = Inr w' \<Longrightarrow> R w'" "\<And>w w'. R w \<Longrightarrow> mop w = Inr w' \<Longrightarrow> R w'"
    and ret: "sim_loop fop fin mop ft mt i w = Some (Inr w')" and "R w"
  shows "R w'"
proof -
  let ?P = "\<lambda>(fop :: 'w \<Rightarrow> 'w result) (fin :: 'w \<Rightarrow> bool) (mop :: 'w \<Rightarrow> 'w result) (ft :: nat) (mt :: nat) (i :: nat) w (res :: 'w result). (\<forall>w w'. R w \<longrightarrow> fop w = Inr w' \<longrightarrow> R w') \<longrightarrow> (\<forall>w w'. R w \<longrightarrow> mop w = Inr w' \<longrightarrow> R w') \<longrightarrow>
    R w \<longrightarrow> (\<forall>w'. res = Inr w' \<longrightarrow> R w')"
  have "?P fop fin mop ft mt i w (Inr w')"
  proof (rule sim_loop.raw_induct [where P = ?P, OF _ ret], intro allI impI)
    fix loop :: "('w \<Rightarrow> 'w result) \<Rightarrow> ('w \<Rightarrow> bool) \<Rightarrow> ('w \<Rightarrow> 'w result) \<Rightarrow> nat \<Rightarrow> nat \<Rightarrow> nat \<Rightarrow> 'w \<Rightarrow> 'w result option"
      and fop fin mop ft mt i w res w'
    assume IH: "\<And>fop fin mop ft mt i w res. loop fop fin mop ft mt i w = Some res \<Longrightarrow> ?P fop fin mop ft mt i w res"
      and eq: "(case sim_step fop fin mop ft mt i w of Inl e \<Rightarrow> Some (Inl e)
        | Inr (finished, w') \<Rightarrow> if finished then Some (Inr w') else loop fop fin mop ft mt (Suc i) w') = Some res"
      and k: "\<forall>w w'. R w \<longrightarrow> fop w = Inr w' \<longrightarrow> R w'" "\<forall>w w'. R w \<longrightarrow> mop w = Inr w' \<longrightarrow> R w'" and w: "R w" and res: "res = Inr w'"
    obtain b w1 where step: "sim_step fop fin mop ft mt i w = Inr (b, w1)"
      and rest: "if b then w1 = w' else loop fop fin mop ft mt (Suc i) w1 = Some res"
      using eq res by (auto split: sum.splits prod.splits if_splits)
    have w1: "R w1" by (rule sim_step_keeps [where R = R, OF _ _ step w]) (rule k [rule_format]; assumption)+
    show "R w'"
    proof (cases b)
      case False
      then have "loop fop fin mop ft mt (Suc i) w1 = Some res" using rest by simp
      from IH [OF this, THEN mp, OF k(1), THEN mp, OF k(2), THEN mp, OF w1] res show ?thesis by simp
    qed (use rest w1 in simp)
  qed
  then show ?thesis using keeps \<open>R w\<close> by blast
qed

lemma simulate_run:
  assumes "simulate translate M I mapper ft mt w0 = Some (Inr w)"
  shows "o3_run translate M I mapper w0 w"
  by (rule sim_loop_keeps [OF _ _ assms [unfolded simulate_def]]) (auto intro: o3_run.intros)

context processor
begin

lemma o3_run_ok: "o3_run translate M I mapper w0 w \<Longrightarrow> o3_ok w0 \<Longrightarrow> o3_ok w"
  by (induction rule: o3_run.induct) (auto intro: processor_tick_ok memory_tick_ok)

end

lemma new_core_ok:
  assumes "new_SimpleO3Core (int k) ipc depth n file = Inr c" "0 < depth"
  shows "core_ok R k c"
proof -
  obtain w where w: "new_InstWindow ipc depth = Inr w" and c: "o3_window c = w" "o3_id c = int k"
    using assms(1) by (auto simp: new_SimpleO3Core_def fetch_inst_def elim!: bindrE)
  show ?thesis using new_window [OF w assms(2)] by (simp add: core_ok_def c)
qed

lemma simpleO3_init_ok:
  assumes "simpleO3_init Q files t = Inr f" "0 < override (p_inst_window_depth Q) 128"
  shows "cores_ok R (so_cores f)"
proof -
  obtain ipc n where "map_result (\<lambda>(i, file). new_SimpleO3Core (int i) ipc (override (p_inst_window_depth Q) 128) n file) (enumerate 0 files) = Inr (so_cores f)"
    using assms(1) by (auto simp: simpleO3_init_def Let_def elim!: bindrE)
  then have "list_all2 (\<lambda>x c. new_SimpleO3Core (int (fst x)) ipc (override (p_inst_window_depth Q) 128) n (snd x) = Inr c)
      (enumerate 0 files) (so_cores f)"
    by (simp add: map_result_Inr split_def)
  then show ?thesis using new_core_ok [OF _ assms(2)] by (auto simp: cores_ok_def list_all2_conv_all_nth nth_enumerate_eq)
qed

interpretation ddr4_o3: processor DDR4_ifce "ddr4_dev P n" 3 ddr4_row_open ddr4_fits n "ITranslation_translate lat iter citer" "IAddrMapper_apply mp"
  for P n lat iter citer mp
  by unfold_locales



definition demo_o3 :: simpleO3_params where
  "demo_o3 = \<lparr>p_ipc = None, p_inst_window_depth = Some 2, p_llc_latency = None, p_llc_linesize = Some 1, p_llc_associativity = None,
     p_llc_capacity_per_core = Some ''0'', p_llc_num_mshr_per_core = None, p_num_expected_insts = 1\<rparr>"

definition demo_trace :: inst_trace where
  "demo_trace = \<lparr>it_trace = [\<lparr>bubble_count = 0, load_addr = 320, store_addr = -1\<rparr>], it_trace_length = 1, it_curr_trace_idx = 0\<rparr>"

definition demo_core :: SimpleO3Core where
  "demo_core = \<lparr>o3_id = 0, o3_clk = 0, o3_trace = demo_trace,
     o3_window = \<lparr>w_ipc = 4, w_depth = 2, w_load = 0, w_head_idx = 0, w_tail_idx = 0, w_ready_list = [False, False], w_addr_list = [-1, -1]\<rparr>,
     o3_num_bubbles = 0, o3_load_addr = 320, o3_writeback_addr = -1, o3_num_expected_insts = 1, o3_last_mem_cycle = 0,
     reached_expected_num_insts = False, s_insts_retired = 0, s_cycles_recorded = 0, s_mem_access_cycles = 0\<rparr>"

lemma demo_core_new: "new_SimpleO3Core 0 4 2 1 (Some [''0 320'']) = Inr demo_core"
  by code_simp

lemma demo_llc: "\<exists>l. new_SimpleO3LLC 47 0 1 8 16 = Inr l"
proof -
  have "calc_log2 0 = Some 0" "calc_log2 1 = Some 0" by (simp_all add: calc_log2_def calc_log2_loop.simps)
  then show ?thesis by (simp add: new_SimpleO3LLC_def to_int32_def)
qed

lemma demo_o3_init: "\<exists>f. simpleO3_init demo_o3 [Some [''0 320'']] t = Inr f \<and> so_cores f = [demo_core] \<and> so_translation f = t"
proof -
  have "parse_capacity_str ''0'' = Inr 0" by code_simp
  then show ?thesis using demo_core_new demo_llc
    by (auto simp: simpleO3_init_def demo_o3_def override_def to_int32_def enumerate_eq_zip)
qed

definition demo_linear :: linear_mapper where
  "demo_linear = \<lparr>m_num_levels = 6, m_addr_bits = [0, 0, 2, 2, 14, 7], m_tx_offset = 6, m_col_bits_idx = 5, m_row_bits_idx = 4\<rparr>"

definition demo_load :: Request where
  "demo_load = (Request_callback 320 Type_Read 0 (Some 0))\<lparr>addr_vec := [0, 0, 0, 0, 0, 5]\<rparr>"

lemma demo_load_mapped: "IAddrMapper_apply (RoBaRaCoCh demo_linear) (Request_callback 320 Type_Read 0 (Some 0)) = Inr demo_load"
  by code_simp

lemma demo_load_sent:
  assumes "Organization.count (d_org d) = [1, 1, 4, 4, 2 ^ 14, 2 ^ 10]" "timings_ok (d_timing_vals d)"
  shows "\<exists>s0 s. system_init DDR4_ifce d None None Open_Row [] 1 = Inr s0
    \<and> system_send DDR4_ifce (IAddrMapper_apply (RoBaRaCoCh demo_linear)) (Request_callback 320 Type_Read 0 (Some 0)) s0 = Inr (True, s)"
proof -
  have t: "translation_of DDR4_ifce 0 = Inr 3" by (simp add: ddr4_translation)
  have hd: "vec_at (c # cs) 0 = Some c" for c :: 'x and cs by (simp add: vec_at_def)
  obtain s0 rf where s0: "system_init DDR4_ifce d None None Open_Row [] 1 = Inr s0"
    and c: "sys_controllers s0 = [\<lparr>c_clk = 0, m_channel_id = 0, pending = [], m_active_buffer = empty_ReqBuffer,
            m_priority_buffer = empty_ReqBuffer\<lparr>max_size := 512 * 3 + 32\<rparr>, m_read_buffer = empty_ReqBuffer,
            m_write_buffer = empty_ReqBuffer, m_bank_addr_idx = 3,
            m_wr_low_watermark = 1 / 5, m_wr_high_watermark = 4 / 5,
            m_is_write_mode = False, c_rows = new_row_stats 1, c_queues = new_queue_stats,
            m_refresh = rf, m_rowpolicy = Open_Row, m_plugins = []\<rparr>]"
    using demo_init [OF assms] by blast
  have "\<exists>s. system_send DDR4_ifce (IAddrMapper_apply (RoBaRaCoCh demo_linear)) (Request_callback 320 Type_Read 0 (Some 0)) s0 = Inr (True, s)"
    unfolding system_send_def demo_load_mapped
    by (simp add: c demo_load_def Request_callback_def default_Request_def t hd controller_send_def Let_def enqueue_def empty_ReqBuffer_def)
  with s0 show ?thesis by blast
qed

lemma demo_core_sends:
  assumes "system_send I mapper (Request_callback 320 Type_Read 0 (Some 0)) s0 = Inr (True, s)"
  shows "\<exists>c. core_tick (ITranslation_translate M iter citer) (system_send I mapper) demo_core (NoTranslation 0) s0 = Inr (c, NoTranslation 0, s)
    \<and> window_contents (o3_window c) = [(False, 320)]"
proof -
  have tr: "ITranslation_translate M iter citer req (NoTranslation 0) = Inr (True, req, NoTranslation 0)" for req
    by (simp add: rebuild_def no_translate_def)
  define w where "w = \<lparr>w_ipc = 4, w_depth = 2, w_load = 1, w_head_idx = 1, w_tail_idx = 0, w_ready_list = [False, False], w_addr_list = [320, -1]\<rparr>"
  have 1: "core_retire demo_core = Inr (demo_core\<lparr>o3_clk := 1\<rparr>)" by code_simp
  have 2: "insert_bubbles 0 (demo_core\<lparr>o3_clk := 1\<rparr>) = Inr (True, 0, demo_core\<lparr>o3_clk := 1\<rparr>)"
    by (subst insert_bubbles.simps) (simp add: demo_core_def)
  have 3: "fetch_inst (demo_core\<lparr>o3_clk := 1, o3_window := w, o3_load_addr := -1\<rparr>) = Inr (demo_core\<lparr>o3_clk := 1, o3_window := w\<rparr>)"
    unfolding w_def by code_simp
  have 4: "window_insert False 320 (o3_window demo_core) = Inr w" "\<not> window_is_full (o3_window demo_core)" "w_ipc (o3_window demo_core) = 4"
    "o3_load_addr demo_core = 320" "o3_id demo_core = 0" "o3_writeback_addr demo_core = -1"
    unfolding w_def by code_simp+
  have a: "addr (Request_callback 320 Type_Read 0 (Some 0)) = 320" by (simp add: Request_callback_def)
  have "core_tick (ITranslation_translate M iter citer) (system_send I mapper) demo_core (NoTranslation 0) s0 =
      Inr (demo_core\<lparr>o3_clk := 1, o3_window := w\<rparr>, NoTranslation 0, s)"
    by (simp add: core_tick_def 1 2 core_load_def 4 tr llc_send_def assms a Let_def core_writeback_def 3
        del: ITranslation_translate.simps bindr_Inr)
  moreover have "window_contents w = [(False, 320)]" by (simp add: w_def window_contents_def slot_def)
  ultimately show ?thesis by (intro exI [where x = "demo_core\<lparr>o3_clk := 1, o3_window := w\<rparr>"]) simp
qed


end
