(* ===== verification/Trace_Stall.thy ===== *)
theory Trace_Stall
  imports Processor_Memory
begin

text \<open>
  The trace frontend \<^verbatim>\<open>CustomTrace\<close> on the memory system \<^verbatim>\<open>CustomDRAMSystem\<close>: a request to a page
  of the page cache is never accepted, so the frontend repeats it forever.
\<close>

lemma sim_loop_finished:
  assumes ret: "sim_loop fop fin mop ft mt i w = Some (Inr w')"
  shows "fin w'"
proof -
  let ?P = "\<lambda>(fop :: 'w \<Rightarrow> 'w result) (fin :: 'w \<Rightarrow> bool) (mop :: 'w \<Rightarrow> 'w result) (ft :: nat) (mt :: nat) (i :: nat) w (res :: 'w result). \<forall>w'. res = Inr w' \<longrightarrow> fin w'"
  have "?P fop fin mop ft mt i w (Inr w')"
  proof (rule sim_loop.raw_induct [where P = ?P, OF _ ret], intro allI impI)
    fix loop :: "('w \<Rightarrow> 'w result) \<Rightarrow> ('w \<Rightarrow> bool) \<Rightarrow> ('w \<Rightarrow> 'w result) \<Rightarrow> nat \<Rightarrow> nat \<Rightarrow> nat \<Rightarrow> 'w \<Rightarrow> 'w result option"
      and fop fin mop ft mt i w res w'
    assume IH: "\<And>fop fin mop ft mt i w res. loop fop fin mop ft mt i w = Some res \<Longrightarrow> ?P fop fin mop ft mt i w res"
      and eq: "(case sim_step fop fin mop ft mt i w of Inl e \<Rightarrow> Some (Inl e)
        | Inr (finished, w') \<Rightarrow> if finished then Some (Inr w') else loop fop fin mop ft mt (Suc i) w') = Some res"
      and res: "res = Inr w'"
    obtain b w1 where step: "sim_step fop fin mop ft mt i w = Inr (b, w1)"
      and rest: "if b then w1 = w' else loop fop fin mop ft mt (Suc i) w1 = Some res"
      using eq res by (auto split: sum.splits prod.splits if_splits)
    show "fin w'"
    proof (cases b)
      case True
      then show ?thesis using step rest by (auto simp: sim_step_def Let_def elim!: bindrE split: if_splits simp del: bindr_Inr)
    next
      case False
      then show ?thesis using IH [of fop fin mop ft mt "Suc i" w1 res] rest res by simp
    qed
  qed
  then show ?thesis by blast
qed

text \<open>The operations that \<^verbatim>\<open>main\<close> calls for this frontend and this memory system.\<close>

definition custom_front ::
  "int list list \<Rightarrow> 'd IDRAM \<Rightarrow> (Request \<Rightarrow> Request result) \<Rightarrow> page_tables CustomTrace \<times> 'd CustomDRAMSystem \<Rightarrow> (page_tables CustomTrace \<times> 'd CustomDRAMSystem) result" where
  "custom_front lat I mapper w = CustomTrace_tick (lr_translate lat) (custom_send I mapper) (fst w) (snd w)"

definition custom_memory ::
  "int list list \<Rightarrow> 'd IDRAM \<Rightarrow> page_tables CustomTrace \<times> 'd CustomDRAMSystem \<Rightarrow> (page_tables CustomTrace \<times> 'd CustomDRAMSystem) result" where
  "custom_memory M I w = bindr (custom_tick M I (snd w)) (\<lambda>(m, served). Inr (fst w, m))"

definition custom_simulation ::
  "int list list \<Rightarrow> int list list \<Rightarrow> 'd IDRAM \<Rightarrow> (Request \<Rightarrow> Request result) \<Rightarrow> nat \<Rightarrow> nat \<Rightarrow> page_tables CustomTrace \<times> 'd CustomDRAMSystem
    \<Rightarrow> (page_tables CustomTrace \<times> 'd CustomDRAMSystem) result option" where
  "custom_simulation lat M I mapper ft mt w =
     sim_loop (custom_front lat I mapper) (\<lambda>w. CustomTrace_is_finished (fst w)) (custom_memory M I) ft mt 0 w"

lemma lr_translate_v_addr: "lr_translate lat req s = Inr (ok, req', s') \<Longrightarrow> ok \<and> v_addr req' = addr req"
  by (auto simp: lr_translate_def Let_def split: option.splits sum.splits prod.splits)

lemma count_accepted_top [simp]: "top_cache (count_accepted type s) = top_cache s"
  by (simp add: count_accepted_def)

lemma system_send_top: "system_send I mapper req s = Inr (ok, s') \<Longrightarrow> top_cache s' = top_cache s"
  by (auto simp: system_send_def Let_def elim!: bindrE split: prod.splits if_splits simp del: bindr_Inr)

lemma system_tick_top: "system_tick M I s = Inr (s', served) \<Longrightarrow> top_cache s' = top_cache s"
  by (auto simp: system_tick_def elim!: bindrE split: prod.splits simp del: bindr_Inr)

lemma custom_send_cached:
  "is_in_top_cache (drop_bit 12 (v_addr req)) s \<Longrightarrow> custom_send I mapper req s = Inr (ok, s') \<Longrightarrow> \<not> ok \<and> top_cache s' = top_cache s"
  by (auto simp: custom_send_def is_in_top_cache_def Let_def)

lemma custom_send_empty:
  "top_cache s = [] \<Longrightarrow> custom_send I mapper req s = Inr (ok, s') \<Longrightarrow> top_cache s' = [drop_bit 12 (v_addr req)]"
  by (auto simp: custom_send_def is_in_top_cache_def update_top_cache_def Let_def dest!: system_send_top)

definition page_at :: "'t CustomTrace \<Rightarrow> nat \<Rightarrow> int" where
  "page_at f k = drop_bit 12 (ce_addr (ct_trace f ! k))"

text \<open>The frontend stands at one of the first two entries, and has not sent anything or has filled the page cache with their page.\<close>

definition stalled :: "custom_entry list \<Rightarrow> page_tables CustomTrace \<times> 'd CustomDRAMSystem \<Rightarrow> bool" where
  "stalled es w \<longleftrightarrow> ct_trace (fst w) = es \<and> (ct_curr_trace_idx (fst w) = 0 \<and> top_cache (snd w) = []
     \<or> ct_curr_trace_idx (fst w) \<le> 1 \<and> top_cache (snd w) = [drop_bit 12 (ce_addr (es ! 0))])"

lemma stalled_front:
  assumes w: "stalled es w" and es: "2 \<le> length es" "drop_bit 12 (ce_addr (es ! 1)) = drop_bit 12 (ce_addr (es ! 0))"
    and tick: "custom_front lat I mapper w = Inr w'"
  shows "stalled es w'"
proof -
  obtain f m where fm: "w = (f, m)" by (cases w)
  let ?k = "ct_curr_trace_idx f"
  have k: "?k \<le> 1" "ct_trace f = es" using w by (auto simp: stalled_def fm)
  have page: "drop_bit 12 (ce_addr (es ! ?k)) = drop_bit 12 (ce_addr (es ! 0))" using k es by (cases ?k) auto
  from tick k es(1) obtain req tr sent m' where tr: "lr_translate lat (custom_request (es ! ?k)) (ct_translation f) = Inr (True, req, tr)"
    and send: "custom_send I mapper req m = Inr (sent, m')"
    and w': "ct_trace (fst w') = es" "snd w' = m'" "ct_curr_trace_idx (fst w') = (if sent then ?k + 1 else ?k)"
    by (auto simp: custom_front_def CustomTrace_tick_def fm Let_def elim!: bindrE simp del: bindr_Inr split: if_splits dest: lr_translate_v_addr)
  have "v_addr req = ce_addr (es ! ?k)" using lr_translate_v_addr [OF tr] by (simp add: custom_request_def Request_core_def)
  then have v: "drop_bit 12 (v_addr req) = drop_bit 12 (ce_addr (es ! 0))" using page by simp
  show ?thesis
  proof (cases "top_cache m = []")
    case True
    then have "?k = 0" using w by (auto simp: stalled_def fm)
    then show ?thesis using custom_send_empty [OF True send] v w' by (auto simp: stalled_def)
  next
    case False
    then have "top_cache m = [drop_bit 12 (ce_addr (es ! 0))]" using w by (auto simp: stalled_def fm)
    then have "\<not> sent" "top_cache m' = [drop_bit 12 (ce_addr (es ! 0))]" using custom_send_cached [OF _ send] v by (auto simp: is_in_top_cache_def)
    then show ?thesis using w' k by (simp add: stalled_def)
  qed
qed

lemma stalled_memory: "stalled es w \<Longrightarrow> custom_memory M I w = Inr w' \<Longrightarrow> stalled es w'"
  by (auto simp: stalled_def custom_memory_def custom_tick_def elim!: bindrE dest!: system_tick_top simp del: bindr_Inr)

text \<open>
  C19. A trace of the custom frontend that begins with two accesses to the same page never completes on
  the custom memory system, with the requester-local translation and any memory device: the
  simulation loop ends with a fault or does not end. The memory system keeps the page in its page
  cache from the first request on, and refuses every later request to it.
\<close>

theorem cached_page_stalls_trace:
  assumes "CustomTrace_init file t = Inr f" and "2 \<le> length (ct_trace f)" and "page_at f 0 = page_at f 1" and "top_cache m = []"
  shows "custom_simulation lat M I mapper ft mt (f, m) \<noteq> Some (Inr w)"
proof
  assume ret: "custom_simulation lat M I mapper ft mt (f, m) = Some (Inr w)"
  have "ct_curr_trace_idx f = 0" using assms(1) by (auto simp: CustomTrace_init_def elim!: bindrE simp del: bindr_Inr)
  then have "stalled (ct_trace f) (f, m)" using assms(4) by (simp add: stalled_def)
  from sim_loop_keeps [OF _ _ ret [unfolded custom_simulation_def], of "stalled (ct_trace f)", OF stalled_front stalled_memory this] assms(2,3)
  have "stalled (ct_trace f) w" by (auto simp: page_at_def)
  moreover have "CustomTrace_is_finished (fst w)" using sim_loop_finished [OF ret [unfolded custom_simulation_def]] .
  ultimately show False using assms(2) by (auto simp: stalled_def CustomTrace_is_finished_def)
qed

definition demo_entries :: "custom_entry list" where
  "demo_entries = [\<lparr>ce_is_write = False, ce_addr = 4096, ce_source_id = 0\<rparr>, \<lparr>ce_is_write = True, ce_addr = 4160, ce_source_id = 1\<rparr>]"

lemma demo_entries_read: "read_trace custom_line (Some [''R 4096 0'', ''W 4160 1'']) = Inr demo_entries"
  by code_simp

theorem cached_page_stalls_trace_witness:
  "\<forall>t d cs lat M I mapper w. \<exists>f. CustomTrace_init (Some [''R 4096 0'', ''W 4160 1'']) t = Inr f \<and>
    custom_simulation lat M (I :: 'd IDRAM) mapper 1 1
      (f, \<lparr>sys_clk = 0, sys_dram = d, sys_controllers = cs, s_num_read_requests = 0, s_num_write_requests = 0, s_num_other_requests = 0,
        vpn_access_counts = Map.empty, top_cache = [], total_cache_req = 0\<rparr>) \<noteq> Some (Inr w)"
proof (intro allI exI conjI)
  fix t :: page_tables and d cs lat M and I :: "'d IDRAM" and mapper w
  let ?f = "\<lparr>ct_trace = demo_entries, ct_trace_length = 2, ct_curr_trace_idx = 0, ct_translation = t, vpn_access_count = Map.empty\<rparr>"
  show init: "CustomTrace_init (Some [''R 4096 0'', ''W 4160 1'']) t = Inr ?f"
    by (simp add: CustomTrace_init_def demo_entries_read) (simp add: demo_entries_def)
  show "custom_simulation lat M I mapper 1 1
      (?f, \<lparr>sys_clk = 0, sys_dram = d, sys_controllers = cs, s_num_read_requests = 0, s_num_write_requests = 0, s_num_other_requests = 0,
        vpn_access_counts = Map.empty, top_cache = [], total_cache_req = 0\<rparr>) \<noteq> Some (Inr w)"
    by (rule cached_page_stalls_trace [OF init]) (simp_all add: demo_entries_def page_at_def drop_bit_eq_div)
qed

end
