(* ===== verification/Cache_Policies.thy ===== *)
theory Cache_Policies
  imports Prelude
begin

text \<open>
  The replacement policies of the caches of \<^verbatim>\<open>snipersim\<close>
  (\<^verbatim>\<open>common/core/memory_subsystem/cache\<close>): the lines of a set, and for each policy its state, the
  choice of a line to replace, and the update after an access. The small integers keep their
  widths. A failed \<^verbatim>\<open>LOG_ASSERT_ERROR\<close> and \<^verbatim>\<open>LOG_PRINT_ERROR\<close> end the process. The
  controller a policy may ask is the function \<^verbatim>\<open>isInLowerLevelCache\<close> computes, or \<open>None\<close> for a null pointer.
\<close>

section \<open>Cache lines\<close>

datatype cstate_t = INVALID | SHARED | SHARED_UPGRADING | EXCLUSIVE | OWNED | MODIFIED

definition readable :: "cstate_t \<Rightarrow> bool" where
  "readable s \<longleftrightarrow> s = MODIFIED \<or> s = OWNED \<or> s = SHARED \<or> s = EXCLUSIVE"

definition writable :: "cstate_t \<Rightarrow> bool" where
  "writable s \<longleftrightarrow> s = MODIFIED"

record CacheBlockInfo =
  m_tag :: "64 word"
  m_cstate :: cstate_t
  m_owner :: "64 word"
  m_used :: "8 word"
  m_options :: "8 word"

definition new_CacheBlockInfo :: CacheBlockInfo where
  "new_CacheBlockInfo = \<lparr>m_tag = NOT 0, m_cstate = INVALID, m_owner = 0, m_used = 0, m_options = 0\<rparr>"

definition isValid :: "CacheBlockInfo \<Rightarrow> bool" where
  "isValid b \<longleftrightarrow> m_tag b \<noteq> NOT 0"

definition block_invalidate :: "CacheBlockInfo \<Rightarrow> CacheBlockInfo" where
  "block_invalidate b = b\<lparr>m_tag := NOT 0, m_cstate := INVALID\<rparr>"

definition updateUsage_mask :: "8 word \<Rightarrow> CacheBlockInfo \<Rightarrow> bool \<times> CacheBlockInfo" where
  "updateUsage_mask used b = (used AND NOT (m_used b) \<noteq> 0, b\<lparr>m_used := m_used b OR used\<rparr>)"

text \<open>A shift by 64 bits or more is undefined.\<close>

definition updateUsage :: "32 word \<Rightarrow> 32 word \<Rightarrow> CacheBlockInfo \<Rightarrow> (bool \<times> CacheBlockInfo) result" where
  "updateUsage offset sz b =
     (let first = unat (drop_bit 3 offset); last = unat (drop_bit 3 (offset + sz - 1))
      in if 64 \<le> first \<or> 64 \<le> last + 1 then Inl Out_Of_Range
         else
           let first_mask = push_bit first 1 - 1 :: 64 word; last_mask = push_bit (last + 1) 1 - 1
           in Inr (updateUsage_mask (ucast (last_mask AND NOT first_mask)) b))"

definition hasOption :: "nat \<Rightarrow> CacheBlockInfo \<Rightarrow> bool" where
  "hasOption opt b \<longleftrightarrow> m_options b AND push_bit opt 1 \<noteq> 0"

definition setOption :: "nat \<Rightarrow> CacheBlockInfo \<Rightarrow> CacheBlockInfo" where
  "setOption opt b = b\<lparr>m_options := m_options b OR push_bit opt 1\<rparr>"

definition clearOption :: "nat \<Rightarrow> CacheBlockInfo \<Rightarrow> CacheBlockInfo" where
  "clearOption opt b = b\<lparr>m_options := m_options b AND NOT (push_bit opt 1)\<rparr>"

text \<open>The loops that look for an invalid line, and \<^verbatim>\<open>CacheSet::isValidReplacement\<close>.\<close>

fun first_index :: "('a \<Rightarrow> bool) \<Rightarrow> 'a list \<Rightarrow> nat option" where
  "first_index P [] = None"
| "first_index P (x # xs) = (if P x then Some 0 else map_option Suc (first_index P xs))"

abbreviation first_invalid :: "CacheBlockInfo list \<Rightarrow> nat option" where
  "first_invalid \<equiv> first_index (\<lambda>b. \<not> isValid b)"

definition isValidReplacement :: "CacheBlockInfo list \<Rightarrow> nat \<Rightarrow> bool result" where
  "isValidReplacement blocks index =
     bindr (of_opt Out_Of_Bounds (vec_at blocks (int index))) (\<lambda>b. Inr (m_cstate b \<noteq> SHARED_UPGRADING))"

type_synonym cntlr = "(CacheBlockInfo \<Rightarrow> bool) option"


section \<open>Statistics shared by the sets of a cache\<close>

record CacheSetInfoLRU =
  si_associativity :: nat
  m_access :: "64 word list"
  m_attempts :: "64 word list option"

definition new_CacheSetInfoLRU :: "nat \<Rightarrow> 8 word \<Rightarrow> CacheSetInfoLRU" where
  "new_CacheSetInfoLRU associativity num_attempts =
     \<lparr>si_associativity = associativity, m_access = replicate associativity 0,
      m_attempts = (if 1 < num_attempts then Some (replicate (unat num_attempts) 0) else None)\<rparr>"

definition si_increment :: "nat \<Rightarrow> CacheSetInfoLRU \<Rightarrow> CacheSetInfoLRU result" where
  "si_increment index si =
     (if si_associativity si \<le> index then Inl Exit_Process
      else Inr (si\<lparr>m_access := (m_access si)[index := m_access si ! index + 1]\<rparr>))"

definition incrementAttempt :: "nat \<Rightarrow> CacheSetInfoLRU \<Rightarrow> CacheSetInfoLRU result" where
  "incrementAttempt attempt si =
     (case m_attempts si of
        Some xs \<Rightarrow>
          if attempt < length xs then Inr (si\<lparr>m_attempts := Some (xs[attempt := xs ! attempt + 1])\<rparr>) else Inl Out_Of_Bounds
      | None \<Rightarrow> if attempt = 0 then Inr si else Inl Exit_Process)"


section \<open>LRU, with query-based selection\<close>

record CacheSetLRU =
  lru_num_attempts :: "8 word"
  m_lru_bits :: "8 word list"

definition new_CacheSetLRU :: "nat \<Rightarrow> 8 word \<Rightarrow> CacheSetLRU" where
  "new_CacheSetLRU associativity num_attempts = \<lparr>lru_num_attempts = num_attempts, m_lru_bits = map of_nat [0..<associativity]\<rparr>"

definition moveToMRU :: "nat \<Rightarrow> 8 word list \<Rightarrow> 8 word list result" where
  "moveToMRU accessed_index bits =
     bindr (of_opt Out_Of_Bounds (vec_at bits (int accessed_index))) (\<lambda>a.
       Inr ((map (\<lambda>x. if x < a then x + 1 else x) bits)[accessed_index := 0]))"

fun lru_search :: "8 word list \<Rightarrow> CacheBlockInfo list \<Rightarrow> nat \<Rightarrow> nat \<times> 8 word \<Rightarrow> nat" where
  "lru_search (x # bits) (b # blocks) i (index, max_bits) =
     lru_search bits blocks (Suc i)
       (if max_bits < x \<and> m_cstate b \<noteq> SHARED_UPGRADING then (i, x) else (index, max_bits))"
| "lru_search bits blocks i (index, max_bits) = index"

text \<open>The attempts: \<open>n\<close> of them are left.\<close>

fun lru_attempts ::
  "cntlr \<Rightarrow> CacheBlockInfo list \<Rightarrow> nat \<Rightarrow> nat \<Rightarrow> CacheSetLRU \<Rightarrow> CacheSetInfoLRU \<Rightarrow> (nat \<times> CacheSetLRU \<times> CacheSetInfoLRU) result" where
  "lru_attempts cntlr blocks 0 attempt s si = Inl Exit_Process"
| "lru_attempts cntlr blocks (Suc n) attempt s si =
     (let index = lru_search (m_lru_bits s) blocks 0 (0, 0)
      in if length blocks \<le> index then Inl Exit_Process
         else
           bindr (if 0 < n
                  then (case cntlr of None \<Rightarrow> Inl Exit_Process | Some isInLowerLevelCache \<Rightarrow> Inr (isInLowerLevelCache (blocks ! index)))
                  else Inr False) (\<lambda>qbs_reject.
           bindr (moveToMRU index (m_lru_bits s)) (\<lambda>bits.
             let s' = s\<lparr>m_lru_bits := bits\<rparr>
             in if qbs_reject then lru_attempts cntlr blocks n (Suc attempt) s' si
                else bindr (incrementAttempt attempt si) (\<lambda>si'. Inr (index, s', si')))))"

definition LRU_getReplacementIndex ::
  "cntlr \<Rightarrow> CacheBlockInfo list \<Rightarrow> CacheSetLRU \<Rightarrow> CacheSetInfoLRU \<Rightarrow> (nat \<times> CacheSetLRU \<times> CacheSetInfoLRU) result" where
  "LRU_getReplacementIndex cntlr blocks s si =
     (case first_invalid blocks of
        Some i \<Rightarrow> bindr (moveToMRU i (m_lru_bits s)) (\<lambda>bits. Inr (i, s\<lparr>m_lru_bits := bits\<rparr>, si))
      | None \<Rightarrow> lru_attempts cntlr blocks (unat (lru_num_attempts s)) 0 s si)"

definition LRU_updateReplacementIndex ::
  "nat \<Rightarrow> CacheSetLRU \<Rightarrow> CacheSetInfoLRU \<Rightarrow> (CacheSetLRU \<times> CacheSetInfoLRU) result" where
  "LRU_updateReplacementIndex accessed_index s si =
     bindr (of_opt Out_Of_Bounds (vec_at (m_lru_bits s) (int accessed_index))) (\<lambda>x.
     bindr (si_increment (unat x) si) (\<lambda>si'.
     bindr (moveToMRU accessed_index (m_lru_bits s)) (\<lambda>bits. Inr (s\<lparr>m_lru_bits := bits\<rparr>, si'))))"


section \<open>MRU\<close>

text \<open>The update is the same loop as \<^verbatim>\<open>CacheSetLRU::moveToMRU\<close>.\<close>

definition MRU_updateReplacementIndex :: "nat \<Rightarrow> 8 word list \<Rightarrow> 8 word list result" where
  "MRU_updateReplacementIndex accessed_index bits = moveToMRU accessed_index bits"

fun mru_search :: "CacheBlockInfo list \<Rightarrow> 8 word list \<Rightarrow> nat \<Rightarrow> nat \<Rightarrow> nat option" where
  "mru_search blocks bits 0 target = None"
| "mru_search blocks bits (Suc n) target =
     (case first_index (\<lambda>(x, b). unat x = target \<and> m_cstate b \<noteq> SHARED_UPGRADING) (zip bits blocks) of
        Some i \<Rightarrow> Some i
      | None \<Rightarrow> mru_search blocks bits n (Suc target))"

definition MRU_getReplacementIndex :: "CacheBlockInfo list \<Rightarrow> 8 word list \<Rightarrow> (nat \<times> 8 word list) result" where
  "MRU_getReplacementIndex blocks bits =
     bindr (case first_invalid blocks of
              Some i \<Rightarrow> Inr i
            | None \<Rightarrow> of_opt Exit_Process (mru_search blocks bits (length blocks) 0)) (\<lambda>i.
     bindr (MRU_updateReplacementIndex i bits) (\<lambda>bits'. Inr (i, bits')))"


section \<open>NMRU\<close>

record CacheSetNMRU =
  nm_lru_bits :: "8 word list"
  nm_replacement_pointer :: "8 word"

definition new_CacheSetNMRU :: "nat \<Rightarrow> CacheSetNMRU" where
  "new_CacheSetNMRU associativity = \<lparr>nm_lru_bits = map of_nat [0..<associativity], nm_replacement_pointer = 0\<rparr>"

definition next_way :: "nat \<Rightarrow> 8 word \<Rightarrow> 8 word" where
  "next_way associativity p = of_nat ((unat p + 1) mod associativity)"

definition NMRU_updateReplacementIndex :: "nat \<Rightarrow> CacheSetNMRU \<Rightarrow> CacheSetNMRU result" where
  "NMRU_updateReplacementIndex accessed_index s =
     bindr (moveToMRU accessed_index (nm_lru_bits s)) (\<lambda>bits. Inr (s\<lparr>nm_lru_bits := bits\<rparr>))"

fun nmru_search :: "CacheBlockInfo list \<Rightarrow> nat \<Rightarrow> CacheSetNMRU \<Rightarrow> (nat \<times> CacheSetNMRU) result" where
  "nmru_search blocks 0 s = Inl Exit_Process"
| "nmru_search blocks (Suc n) s =
     (let p = unat (nm_replacement_pointer s); s' = s\<lparr>nm_replacement_pointer := next_way (length blocks) (nm_replacement_pointer s)\<rparr>
      in bindr (of_opt Out_Of_Bounds (vec_at (nm_lru_bits s) (int p))) (\<lambda>x.
         bindr (isValidReplacement blocks p) (\<lambda>ok.
           if x \<noteq> 0 \<and> ok then bindr (NMRU_updateReplacementIndex p s') (\<lambda>s''. Inr (p, s''))
           else nmru_search blocks n s')))"

definition NMRU_getReplacementIndex :: "CacheBlockInfo list \<Rightarrow> CacheSetNMRU \<Rightarrow> (nat \<times> CacheSetNMRU) result" where
  "NMRU_getReplacementIndex blocks s =
     (case first_invalid blocks of
        Some i \<Rightarrow> bindr (NMRU_updateReplacementIndex i s) (\<lambda>s'. Inr (i, s'))
      | None \<Rightarrow> nmru_search blocks (length blocks) s)"


section \<open>NRU\<close>

record CacheSetNRU =
  nru_lru_bits :: "8 word list"
  m_num_bits_set :: "8 word"
  nru_replacement_pointer :: "8 word"

definition new_CacheSetNRU :: "nat \<Rightarrow> CacheSetNRU" where
  "new_CacheSetNRU associativity = \<lparr>nru_lru_bits = replicate associativity 0, m_num_bits_set = 0, nru_replacement_pointer = 0\<rparr>"

definition NRU_updateReplacementIndex :: "nat \<Rightarrow> CacheSetNRU \<Rightarrow> CacheSetNRU result" where
  "NRU_updateReplacementIndex accessed_index s =
     (let n = length (nru_lru_bits s); k = m_num_bits_set s + 1
      in if n \<le> accessed_index then Inl Out_Of_Bounds
         else Inr (if unat k = n then s\<lparr>nru_lru_bits := replicate n 0, m_num_bits_set := 0\<rparr>
                   else s\<lparr>nru_lru_bits := (nru_lru_bits s)[accessed_index := 1], m_num_bits_set := k\<rparr>))"

fun nru_search :: "bool \<Rightarrow> CacheBlockInfo list \<Rightarrow> nat \<Rightarrow> CacheSetNRU \<Rightarrow> (nat \<times> CacheSetNRU) result" where
  "nru_search have_zero_bit blocks 0 s = Inl Exit_Process"
| "nru_search have_zero_bit blocks (Suc n) s =
     (let p = unat (nru_replacement_pointer s); s' = s\<lparr>nru_replacement_pointer := next_way (length blocks) (nru_replacement_pointer s)\<rparr>
      in bindr (of_opt Out_Of_Bounds (vec_at (nru_lru_bits s) (int p))) (\<lambda>x.
         bindr (isValidReplacement blocks p) (\<lambda>ok.
           if (x = 0 \<or> \<not> have_zero_bit) \<and> ok then bindr (NRU_updateReplacementIndex p s') (\<lambda>s''. Inr (p, s''))
           else nru_search have_zero_bit blocks n s')))"

definition NRU_getReplacementIndex :: "CacheBlockInfo list \<Rightarrow> CacheSetNRU \<Rightarrow> (nat \<times> CacheSetNRU) result" where
  "NRU_getReplacementIndex blocks s =
     (case first_invalid blocks of
        Some i \<Rightarrow> bindr (NRU_updateReplacementIndex i s) (\<lambda>s'. Inr (i, s'))
      | None \<Rightarrow>
          let have_zero_bit = list_ex (\<lambda>(x, b). x = 0 \<and> m_cstate b \<noteq> SHARED_UPGRADING) (zip (nru_lru_bits s) blocks)
          in nru_search have_zero_bit blocks (length blocks) s)"


section \<open>PLRU\<close>

text \<open>The tree bits, which only hold 0 and 1, as truth values.\<close>

record CacheSetPLRU =
  pl_associativity :: nat
  plru_b :: "bool list"

definition new_CacheSetPLRU :: "nat \<Rightarrow> CacheSetPLRU result" where
  "new_CacheSetPLRU associativity =
     (if associativity = 4 \<or> associativity = 8 then Inr \<lparr>pl_associativity = associativity, plru_b = replicate 8 False\<rparr>
      else Inl Exit_Process)"

fun plru_write :: "(nat \<times> bool) list \<Rightarrow> bool list \<Rightarrow> bool list" where
  "plru_write [] b = b"
| "plru_write ((i, v) # ivs) b = plru_write ivs (b[i := v])"

definition plru_touched :: "nat \<Rightarrow> nat \<Rightarrow> (nat \<times> bool) list" where
  "plru_touched associativity accessed_index =
     (if associativity = 4
      then (if accessed_index = 0 then [(0, True), (1, True)]
            else if accessed_index = 1 then [(0, True), (1, False)]
            else if accessed_index = 2 then [(0, False), (2, True)]
            else if accessed_index = 3 then [(0, False), (2, False)]
            else [])
      else (if accessed_index = 0 then [(0, True), (1, True), (2, True)]
            else if accessed_index = 1 then [(0, True), (1, True), (2, False)]
            else if accessed_index = 2 then [(0, True), (1, False), (3, True)]
            else if accessed_index = 3 then [(0, True), (1, False), (3, False)]
            else if accessed_index = 4 then [(0, False), (4, True), (5, True)]
            else if accessed_index = 5 then [(0, False), (4, True), (5, False)]
            else if accessed_index = 6 then [(0, False), (4, False), (6, True)]
            else if accessed_index = 7 then [(0, False), (4, False), (6, False)]
            else []))"

definition PLRU_updateReplacementIndex :: "nat \<Rightarrow> CacheSetPLRU \<Rightarrow> CacheSetPLRU result" where
  "PLRU_updateReplacementIndex accessed_index s =
     (if pl_associativity s = 4 \<or> pl_associativity s = 8
      then Inr (s\<lparr>plru_b := plru_write (plru_touched (pl_associativity s) accessed_index) (plru_b s)\<rparr>)
      else Inl Exit_Process)"

definition plru_victim :: "nat \<Rightarrow> bool list \<Rightarrow> nat result" where
  "plru_victim associativity b =
     (if associativity = 4
      then Inr (if \<not> b ! 0 then (if \<not> b ! 1 then 0 else 1) else (if \<not> b ! 2 then 2 else 3))
      else if associativity = 8
      then Inr (if \<not> b ! 0
                then (if \<not> b ! 1 then (if \<not> b ! 2 then 0 else 1) else (if \<not> b ! 3 then 2 else 3))
                else (if \<not> b ! 4 then (if \<not> b ! 5 then 4 else 5) else (if \<not> b ! 6 then 6 else 7)))
      else Inl Exit_Process)"

definition PLRU_getReplacementIndex :: "CacheBlockInfo list \<Rightarrow> CacheSetPLRU \<Rightarrow> (nat \<times> CacheSetPLRU) result" where
  "PLRU_getReplacementIndex blocks s =
     (case first_invalid blocks of
        Some i \<Rightarrow> bindr (PLRU_updateReplacementIndex i s) (\<lambda>s'. Inr (i, s'))
      | None \<Rightarrow>
          bindr (plru_victim (pl_associativity s) (plru_b s)) (\<lambda>retValue.
          bindr (isValidReplacement blocks retValue) (\<lambda>ok.
            if \<not> ok then Inl Exit_Process
            else bindr (PLRU_updateReplacementIndex retValue s) (\<lambda>s'. Inr (retValue, s')))))"


section \<open>SRRIP, with query-based selection\<close>

record CacheSetSRRIP =
  m_rrip_max :: "8 word"
  m_rrip_insert :: "8 word"
  sr_num_attempts :: "8 word"
  m_rrip_bits :: "8 word list"
  sr_replacement_pointer :: "8 word"

definition new_CacheSetSRRIP :: "nat \<Rightarrow> 8 word \<Rightarrow> 8 word \<Rightarrow> CacheSetSRRIP" where
  "new_CacheSetSRRIP associativity rrip_numbits num_attempts =
     (let rrip_max = push_bit (unat rrip_numbits) 1 - 1
      in \<lparr>m_rrip_max = rrip_max, m_rrip_insert = rrip_max - 1, sr_num_attempts = num_attempts,
          m_rrip_bits = replicate associativity (rrip_max - 1), sr_replacement_pointer = 0\<rparr>)"

text \<open>
  The scan of the lines: \<open>n\<close> steps are left. It returns the victim, or the state after a full
  round. \<open>attempt\<close> counts the rejected victims.
\<close>

fun srrip_scan ::
  "cntlr \<Rightarrow> CacheBlockInfo list \<Rightarrow> nat \<Rightarrow> nat \<Rightarrow> CacheSetSRRIP \<Rightarrow> CacheSetInfoLRU \<Rightarrow>
    (nat option \<times> nat \<times> CacheSetSRRIP \<times> CacheSetInfoLRU) result" where
  "srrip_scan cntlr blocks 0 attempt s si = Inr (None, attempt, s, si)"
| "srrip_scan cntlr blocks (Suc n) attempt s si =
     (let p = unat (sr_replacement_pointer s);
          s' = s\<lparr>sr_replacement_pointer := next_way (length blocks) (sr_replacement_pointer s)\<rparr>
      in bindr (of_opt Out_Of_Bounds (vec_at (m_rrip_bits s) (int p))) (\<lambda>x.
           if m_rrip_max s \<le> x
           then
             bindr (if int attempt < uint (sr_num_attempts s) - 1
                    then (case cntlr of None \<Rightarrow> Inl Exit_Process
                          | Some isInLowerLevelCache \<Rightarrow>
                              bindr (of_opt Out_Of_Bounds (vec_at blocks (int p))) (\<lambda>b. Inr (isInLowerLevelCache b)))
                    else Inr False) (\<lambda>qbs_reject.
               if qbs_reject
               then srrip_scan cntlr blocks n (Suc attempt) (s\<lparr>m_rrip_bits := (m_rrip_bits s)[p := 0]\<rparr>) si
               else
                 bindr (incrementAttempt attempt si) (\<lambda>si'.
                 bindr (isValidReplacement blocks p) (\<lambda>ok.
                   if \<not> ok then Inl Exit_Process
                   else Inr (Some p, attempt, s'\<lparr>m_rrip_bits := (m_rrip_bits s)[p := m_rrip_insert s]\<rparr>, si'))))
           else srrip_scan cntlr blocks n attempt s' si))"

text \<open>The rounds: between two of them every counter below the maximum is incremented.\<close>

fun srrip_rounds ::
  "cntlr \<Rightarrow> CacheBlockInfo list \<Rightarrow> nat \<Rightarrow> nat \<Rightarrow> CacheSetSRRIP \<Rightarrow> CacheSetInfoLRU \<Rightarrow>
    (nat \<times> CacheSetSRRIP \<times> CacheSetInfoLRU) result" where
  "srrip_rounds cntlr blocks 0 attempt s si = Inl Exit_Process"
| "srrip_rounds cntlr blocks (Suc j) attempt s si =
     bindr (srrip_scan cntlr blocks (length blocks) attempt s si) (\<lambda>(found, attempt', s', si').
       case found of
         Some i \<Rightarrow> Inr (i, s', si')
       | None \<Rightarrow>
           srrip_rounds cntlr blocks j attempt'
             (s'\<lparr>m_rrip_bits := map (\<lambda>x. if x < m_rrip_max s' then x + 1 else x) (m_rrip_bits s')\<rparr>) si')"

definition SRRIP_getReplacementIndex ::
  "cntlr \<Rightarrow> CacheBlockInfo list \<Rightarrow> CacheSetSRRIP \<Rightarrow> CacheSetInfoLRU \<Rightarrow> (nat \<times> CacheSetSRRIP \<times> CacheSetInfoLRU) result" where
  "SRRIP_getReplacementIndex cntlr blocks s si =
     (case first_invalid blocks of
        Some i \<Rightarrow>
          if i < length (m_rrip_bits s) then Inr (i, s\<lparr>m_rrip_bits := (m_rrip_bits s)[i := m_rrip_insert s]\<rparr>, si)
          else Inl Out_Of_Bounds
      | None \<Rightarrow> srrip_rounds cntlr blocks (unat (m_rrip_max s) + 1) 0 s si)"

definition SRRIP_updateReplacementIndex ::
  "nat \<Rightarrow> CacheSetSRRIP \<Rightarrow> CacheSetInfoLRU \<Rightarrow> (CacheSetSRRIP \<times> CacheSetInfoLRU) result" where
  "SRRIP_updateReplacementIndex accessed_index s si =
     bindr (of_opt Out_Of_Bounds (vec_at (m_rrip_bits s) (int accessed_index))) (\<lambda>x.
     bindr (si_increment (unat x) si) (\<lambda>si'.
       Inr (if 0 < x then s\<lparr>m_rrip_bits := (m_rrip_bits s)[accessed_index := x - 1]\<rparr> else s, si')))"


section \<open>Round robin and random\<close>

text \<open>
  Both call themselves again when they meet a line that must not be replaced, and return
  \<open>None\<close> when that goes on forever. Round robin tests the line after the one it returns.
\<close>

partial_function (option) RoundRobin_getReplacementIndex ::
  "CacheBlockInfo list \<Rightarrow> 32 word \<Rightarrow> (nat \<times> 32 word) result option" where
  "RoundRobin_getReplacementIndex blocks curr_replacement_index =
     (let replacement_index =
            (if curr_replacement_index = 0 then of_nat (length blocks) - 1 else curr_replacement_index - 1)
      in case isValidReplacement blocks (unat replacement_index) of
           Inl e \<Rightarrow> Some (Inl e)
         | Inr ok \<Rightarrow>
             if \<not> ok then RoundRobin_getReplacementIndex blocks replacement_index
             else Some (Inr (unat curr_replacement_index, replacement_index)))"

text \<open>\<^verbatim>\<open>Random::next\<close> with its default limit.\<close>

definition Random_next :: "32 word \<Rightarrow> 32 word \<times> 32 word" where
  "Random_next seed = (let seed' = seed * 1103515245 + 12345 in ((seed' div 65536) mod 32768, seed'))"

partial_function (option) random_search :: "CacheBlockInfo list \<Rightarrow> 32 word \<Rightarrow> (nat \<times> 32 word) result option" where
  "random_search blocks seed =
     (case Random_next seed of (r, seed') \<Rightarrow>
        if blocks = [] then Some (Inl Div_By_Zero)
        else
          let index = unat r mod length blocks
          in case isValidReplacement blocks index of
               Inl e \<Rightarrow> Some (Inl e)
             | Inr ok \<Rightarrow> if ok then Some (Inr (index, seed')) else random_search blocks seed')"

definition Random_getReplacementIndex :: "CacheBlockInfo list \<Rightarrow> 32 word \<Rightarrow> (nat \<times> 32 word) result option" where
  "Random_getReplacementIndex blocks seed =
     (case first_invalid blocks of Some i \<Rightarrow> Some (Inr (i, seed)) | None \<Rightarrow> random_search blocks seed)"

end
