(* ===== verification/Sniper_Cache.thy ===== *)
theory Sniper_Cache
  imports Cache_Policies
begin

text \<open>
  The caches of \<^verbatim>\<open>snipersim\<close> (\<^verbatim>\<open>cache_set.cc\<close>, \<^verbatim>\<open>cache_base.cc\<close>, \<^verbatim>\<open>cache.cc\<close>,
  \<^verbatim>\<open>address_home_lookup.cc\<close>): the sets with their replacement policy, the hash functions that choose
  a set, and the operations on single lines. They decide which accesses reach the memory whose
  trace the memory simulator reads. Without fault injection, as here, a set holds no data, so
  reads and writes of a line only update its replacement policy.
\<close>

section \<open>Choice of the policy\<close>

datatype ReplacementPolicy =
  ROUND_ROBIN | LRU | LRU_QBS | NRU | MRU | NMRU | PLRU | SRRIP | SRRIP_QBS | RANDOM

definition parsePolicyType :: "string \<Rightarrow> ReplacementPolicy result" where
  "parsePolicyType policy =
     (if policy = ''round_robin'' then Inr ROUND_ROBIN
      else if policy = ''lru'' then Inr LRU
      else if policy = ''lru_qbs'' then Inr LRU_QBS
      else if policy = ''nru'' then Inr NRU
      else if policy = ''mru'' then Inr MRU
      else if policy = ''nmru'' then Inr NMRU
      else if policy = ''plru'' then Inr PLRU
      else if policy = ''srrip'' then Inr SRRIP
      else if policy = ''srrip_qbs'' then Inr SRRIP_QBS
      else if policy = ''random'' then Inr RANDOM
      else Inl Exit_Process)"

text \<open>The parameters the policies read from the configuration and the clock.\<close>

record policy_config =
  qbs_attempts :: "8 word"
  srrip_bits :: "8 word"
  time_seed :: "32 word"

definition getNumQBSAttempts :: "ReplacementPolicy \<Rightarrow> policy_config \<Rightarrow> 8 word" where
  "getNumQBSAttempts policy cfg = (if policy = LRU_QBS \<or> policy = SRRIP_QBS then qbs_attempts cfg else 1)"

datatype policy_state =
    Round_Robin_Set "32 word"
  | LRU_Set CacheSetLRU
  | NRU_Set CacheSetNRU
  | MRU_Set "8 word list"
  | NMRU_Set CacheSetNMRU
  | PLRU_Set CacheSetPLRU
  | SRRIP_Set CacheSetSRRIP
  | Random_Set "32 word"

record CacheSet =
  cs_blocks :: "CacheBlockInfo list"
  cs_blocksize :: "32 word"
  cs_policy :: policy_state

fun new_policy :: "ReplacementPolicy \<Rightarrow> policy_config \<Rightarrow> nat \<Rightarrow> policy_state result" where
  "new_policy ROUND_ROBIN cfg n = Inr (Round_Robin_Set (of_nat n - 1))"
| "new_policy LRU cfg n = Inr (LRU_Set (new_CacheSetLRU n (getNumQBSAttempts LRU cfg)))"
| "new_policy LRU_QBS cfg n = Inr (LRU_Set (new_CacheSetLRU n (getNumQBSAttempts LRU_QBS cfg)))"
| "new_policy NRU cfg n = Inr (NRU_Set (new_CacheSetNRU n))"
| "new_policy MRU cfg n = Inr (MRU_Set (map of_nat [0..<n]))"
| "new_policy NMRU cfg n = Inr (NMRU_Set (new_CacheSetNMRU n))"
| "new_policy PLRU cfg n = bindr (new_CacheSetPLRU n) (\<lambda>s. Inr (PLRU_Set s))"
| "new_policy SRRIP cfg n = Inr (SRRIP_Set (new_CacheSetSRRIP n (srrip_bits cfg) (getNumQBSAttempts SRRIP cfg)))"
| "new_policy SRRIP_QBS cfg n = Inr (SRRIP_Set (new_CacheSetSRRIP n (srrip_bits cfg) (getNumQBSAttempts SRRIP_QBS cfg)))"
| "new_policy RANDOM cfg n = Inr (Random_Set (time_seed cfg))"

definition createCacheSet :: "ReplacementPolicy \<Rightarrow> policy_config \<Rightarrow> nat \<Rightarrow> 32 word \<Rightarrow> CacheSet result" where
  "createCacheSet policy cfg associativity blocksize =
     bindr (new_policy policy cfg associativity) (\<lambda>p.
       Inr \<lparr>cs_blocks = replicate associativity new_CacheBlockInfo, cs_blocksize = blocksize, cs_policy = p\<rparr>)"

text \<open>The virtual calls. A search that never returns is the fault \<open>No_Return\<close>.\<close>

definition returned :: "'a result option \<Rightarrow> 'a result" where
  "returned x = (case x of None \<Rightarrow> Inl No_Return | Some r \<Rightarrow> r)"

fun getReplacementIndex ::
  "cntlr \<Rightarrow> CacheBlockInfo list \<Rightarrow> policy_state \<times> CacheSetInfoLRU \<Rightarrow> (nat \<times> policy_state \<times> CacheSetInfoLRU) result" where
  "getReplacementIndex cntlr blocks (Round_Robin_Set i, si) =
     bindr (returned (RoundRobin_getReplacementIndex blocks i)) (\<lambda>(k, i'). Inr (k, Round_Robin_Set i', si))"
| "getReplacementIndex cntlr blocks (LRU_Set s, si) =
     bindr (LRU_getReplacementIndex cntlr blocks s si) (\<lambda>(k, s', si'). Inr (k, LRU_Set s', si'))"
| "getReplacementIndex cntlr blocks (NRU_Set s, si) =
     bindr (NRU_getReplacementIndex blocks s) (\<lambda>(k, s'). Inr (k, NRU_Set s', si))"
| "getReplacementIndex cntlr blocks (MRU_Set bits, si) =
     bindr (MRU_getReplacementIndex blocks bits) (\<lambda>(k, bits'). Inr (k, MRU_Set bits', si))"
| "getReplacementIndex cntlr blocks (NMRU_Set s, si) =
     bindr (NMRU_getReplacementIndex blocks s) (\<lambda>(k, s'). Inr (k, NMRU_Set s', si))"
| "getReplacementIndex cntlr blocks (PLRU_Set s, si) =
     bindr (PLRU_getReplacementIndex blocks s) (\<lambda>(k, s'). Inr (k, PLRU_Set s', si))"
| "getReplacementIndex cntlr blocks (SRRIP_Set s, si) =
     bindr (SRRIP_getReplacementIndex cntlr blocks s si) (\<lambda>(k, s', si'). Inr (k, SRRIP_Set s', si'))"
| "getReplacementIndex cntlr blocks (Random_Set seed, si) =
     bindr (returned (Random_getReplacementIndex blocks seed)) (\<lambda>(k, seed'). Inr (k, Random_Set seed', si))"

fun updateReplacementIndex ::
  "nat \<Rightarrow> policy_state \<times> CacheSetInfoLRU \<Rightarrow> (policy_state \<times> CacheSetInfoLRU) result" where
  "updateReplacementIndex k (Round_Robin_Set i, si) = Inr (Round_Robin_Set i, si)"
| "updateReplacementIndex k (LRU_Set s, si) = bindr (LRU_updateReplacementIndex k s si) (\<lambda>(s', si'). Inr (LRU_Set s', si'))"
| "updateReplacementIndex k (NRU_Set s, si) = bindr (NRU_updateReplacementIndex k s) (\<lambda>s'. Inr (NRU_Set s', si))"
| "updateReplacementIndex k (MRU_Set bits, si) = bindr (MRU_updateReplacementIndex k bits) (\<lambda>bits'. Inr (MRU_Set bits', si))"
| "updateReplacementIndex k (NMRU_Set s, si) = bindr (NMRU_updateReplacementIndex k s) (\<lambda>s'. Inr (NMRU_Set s', si))"
| "updateReplacementIndex k (PLRU_Set s, si) = bindr (PLRU_updateReplacementIndex k s) (\<lambda>s'. Inr (PLRU_Set s', si))"
| "updateReplacementIndex k (SRRIP_Set s, si) = bindr (SRRIP_updateReplacementIndex k s si) (\<lambda>(s', si'). Inr (SRRIP_Set s', si'))"
| "updateReplacementIndex k (Random_Set seed, si) = Inr (Random_Set seed, si)"


section \<open>Sets\<close>

text \<open>The search runs from the last line to the first.\<close>

definition set_find :: "64 word \<Rightarrow> CacheBlockInfo list \<Rightarrow> nat option" where
  "set_find tag blocks = map_option (\<lambda>i. length blocks - 1 - i) (first_index (\<lambda>b. m_tag b = tag) (rev blocks))"

definition set_invalidate :: "64 word \<Rightarrow> CacheSet \<Rightarrow> bool \<times> CacheSet" where
  "set_invalidate tag s =
     (case set_find tag (cs_blocks s) of
        None \<Rightarrow> (False, s)
      | Some i \<Rightarrow> (True, s\<lparr>cs_blocks := (cs_blocks s)[i := block_invalidate (cs_blocks s ! i)]\<rparr>))"

text \<open>\<^verbatim>\<open>read_line\<close> and \<^verbatim>\<open>write_line\<close>, which differ only in the data they copy.\<close>

definition use_line ::
  "nat \<Rightarrow> 32 word \<Rightarrow> 32 word \<Rightarrow> bool \<Rightarrow> CacheSet \<Rightarrow> CacheSetInfoLRU \<Rightarrow> (CacheSet \<times> CacheSetInfoLRU) result" where
  "use_line line_index offset bytes update_replacement s si =
     (if cs_blocksize s < offset + bytes then Inl Exit_Process
      else if \<not> update_replacement then Inr (s, si)
      else bindr (updateReplacementIndex line_index (cs_policy s, si)) (\<lambda>(p, si'). Inr (s\<lparr>cs_policy := p\<rparr>, si')))"

text \<open>The result says whether a valid line was evicted, and what \<^verbatim>\<open>evict_block_info\<close> holds then.\<close>

definition set_insert ::
  "cntlr \<Rightarrow> CacheBlockInfo \<Rightarrow> CacheBlockInfo \<Rightarrow> CacheSet \<Rightarrow> CacheSetInfoLRU \<Rightarrow>
    (bool \<times> CacheBlockInfo \<times> CacheSet \<times> CacheSetInfoLRU) result" where
  "set_insert cntlr cache_block_info evict_block_info s si =
     bindr (getReplacementIndex cntlr (cs_blocks s) (cs_policy s, si)) (\<lambda>(index, p, si').
       if length (cs_blocks s) \<le> index then Inl Exit_Process
       else
         let old = cs_blocks s ! index
         in Inr (isValid old, if isValid old then old else evict_block_info,
                 s\<lparr>cs_blocks := (cs_blocks s)[index := cache_block_info], cs_policy := p\<rparr>, si'))"


section \<open>Addresses\<close>

definition floorLog2 :: "32 word \<Rightarrow> int" where
  "floorLog2 n0 =
     (if n0 = 0 then -1
      else
        let (p1, n1) = (if n0 AND 0xffff0000 \<noteq> 0 then (16, drop_bit 16 n0) else (0, n0));
            (p2, n2) = (if n1 AND 0x0000ff00 \<noteq> 0 then (p1 + 8, drop_bit 8 n1) else (p1, n1));
            (p3, n3) = (if n2 AND 0x000000f0 \<noteq> 0 then (p2 + 4, drop_bit 4 n2) else (p2, n2));
            (p4, n4) = (if n3 AND 0x0000000c \<noteq> 0 then (p3 + 2, drop_bit 2 n3) else (p3, n3))
        in if n4 AND 0x00000002 \<noteq> 0 then p4 + 1 else p4)"

record AddressHomeLookup =
  m_ahl_param :: nat
  m_core_list :: "int list"

definition new_AddressHomeLookup :: "nat \<Rightarrow> int list \<Rightarrow> 32 word \<Rightarrow> AddressHomeLookup result" where
  "new_AddressHomeLookup ahl_param core_list cache_block_size =
     (if sint (push_bit ahl_param 1 :: 32 word) < sint cache_block_size then Inl Exit_Process
      else Inr \<lparr>m_ahl_param = ahl_param, m_core_list = core_list\<rparr>)"

definition ahl_mask :: "AddressHomeLookup \<Rightarrow> 64 word" where
  "ahl_mask h = push_bit (m_ahl_param h) 1 - 1"

definition getHome :: "AddressHomeLookup \<Rightarrow> 64 word \<Rightarrow> int result" where
  "getHome h address =
     (if m_core_list h = [] then Inl Div_By_Zero
      else Inr (m_core_list h ! unat (drop_bit (m_ahl_param h) address mod of_nat (length (m_core_list h)))))"

definition getLinearBlock :: "AddressHomeLookup \<Rightarrow> 64 word \<Rightarrow> 64 word result" where
  "getLinearBlock h address =
     (if m_core_list h = [] then Inl Div_By_Zero
      else Inr (drop_bit (m_ahl_param h) address div of_nat (length (m_core_list h))))"

definition getLinearAddress :: "AddressHomeLookup \<Rightarrow> 64 word \<Rightarrow> 64 word result" where
  "getLinearAddress h address =
     bindr (getLinearBlock h address) (\<lambda>b. Inr (push_bit (m_ahl_param h) b OR (address AND ahl_mask h)))"

definition rng_next :: "64 word \<Rightarrow> 64 word \<times> 64 word" where
  "rng_next state = (let state' = (0x5DEECE66D * state + 0xB) AND (push_bit 48 1 - 1) in (drop_bit 16 state', state'))"

definition rng_seed :: "64 word \<Rightarrow> 64 word" where
  "rng_seed seed = push_bit 16 seed + 0x330E"

datatype hash_t =
  HASH_MASK | HASH_MOD | HASH_RNG1_MOD | HASH_RNG2_MOD | HASH_PRIME_DIS | HASH_XOR_MOD | HASH_MER_MOD

definition parseAddressHash :: "string \<Rightarrow> hash_t result" where
  "parseAddressHash hash_name =
     (if hash_name = ''mask'' then Inr HASH_MASK
      else if hash_name = ''mod'' then Inr HASH_MOD
      else if hash_name = ''rng1_mod'' then Inr HASH_RNG1_MOD
      else if hash_name = ''rng2_mod'' then Inr HASH_RNG2_MOD
      else if hash_name = ''prime_dis'' then Inr HASH_PRIME_DIS
      else if hash_name = ''xor_mod'' then Inr HASH_XOR_MOD
      else if hash_name = ''mersenne_mod'' then Inr HASH_MER_MOD
      else Inl Exit_Process)"

record CacheBase =
  m_cache_size :: "64 word"
  m_associativity :: "32 word"
  m_blocksize :: "32 word"
  m_hash :: hash_t
  m_num_sets :: "32 word"
  m_ahl :: "AddressHomeLookup option"
  m_log_blocksize :: "32 word"
  m_log_num_sets :: "32 word"

definition new_CacheBase ::
  "32 word \<Rightarrow> 32 word \<Rightarrow> 32 word \<Rightarrow> hash_t \<Rightarrow> AddressHomeLookup option \<Rightarrow> CacheBase result" where
  "new_CacheBase num_sets associativity cache_block_size hash ahl =
     (if (hash = HASH_MASK \<and> num_sets = 0) \<or> (hash = HASH_MASK \<and> uint num_sets \<noteq> 2 ^ nat (floorLog2 num_sets)) then Inl Exit_Process
      else Inr \<lparr>m_cache_size = ucast num_sets * ucast associativity * ucast cache_block_size,
                m_associativity = associativity, m_blocksize = cache_block_size, m_hash = hash, m_num_sets = num_sets,
                m_ahl = ahl, m_log_blocksize = of_int (floorLog2 cache_block_size),
                m_log_num_sets = of_int (floorLog2 num_sets)\<rparr>)"

text \<open>A remainder by zero traps. A shift by 64 bits or more is undefined.\<close>

definition word_mod :: "64 word \<Rightarrow> 64 word \<Rightarrow> 64 word result" where
  "word_mod a b = (if b = 0 then Inl Div_By_Zero else Inr (a mod b))"

definition word_shr :: "64 word \<Rightarrow> 32 word \<Rightarrow> 64 word result" where
  "word_shr a k = (if 64 \<le> unat k then Inl Out_Of_Range else Inr (drop_bit (unat k) a))"

definition hash_set :: "CacheBase \<Rightarrow> 64 word \<Rightarrow> 64 word result" where
  "hash_set c block_num =
     (let n = ucast (m_num_sets c)
      in case m_hash c of
           HASH_MASK \<Rightarrow> Inr (block_num AND ucast (m_num_sets c - 1))
         | HASH_MOD \<Rightarrow> word_mod block_num n
         | HASH_RNG1_MOD \<Rightarrow> word_mod (fst (rng_next (rng_seed block_num))) n
         | HASH_RNG2_MOD \<Rightarrow> word_mod (fst (rng_next (snd (rng_next (rng_seed block_num))))) n
         | HASH_PRIME_DIS \<Rightarrow>
             bindr (word_mod block_num n) (\<lambda>s. bindr (word_shr block_num (m_log_num_sets c)) (\<lambda>t. word_mod (3 * t + s) n))
         | HASH_XOR_MOD \<Rightarrow>
             bindr (word_mod block_num n) (\<lambda>s. bindr (word_shr block_num (m_log_num_sets c)) (\<lambda>t.
             bindr (word_mod t n) (\<lambda>t'. Inr (s XOR t'))))
         | HASH_MER_MOD \<Rightarrow> word_mod block_num (ucast (m_num_sets c - 1)))"

definition splitAddress :: "CacheBase \<Rightarrow> 64 word \<Rightarrow> (64 word \<times> 32 word) result" where
  "splitAddress c addr =
     bindr (word_shr addr (m_log_blocksize c)) (\<lambda>tag.
     bindr (case m_ahl c of None \<Rightarrow> Inr addr | Some h \<Rightarrow> getLinearAddress h addr) (\<lambda>linearAddress.
     bindr (word_shr linearAddress (m_log_blocksize c)) (\<lambda>block_num.
     bindr (hash_set c block_num) (\<lambda>set_index. Inr (tag, ucast set_index)))))"

definition block_offset :: "CacheBase \<Rightarrow> 64 word \<Rightarrow> 32 word" where
  "block_offset c addr = ucast (addr AND ucast (m_blocksize c - 1))"

definition tagToAddress :: "CacheBase \<Rightarrow> 64 word \<Rightarrow> 64 word" where
  "tagToAddress c tag = push_bit (unat (m_log_blocksize c)) tag"


section \<open>The cache\<close>

record Cache = CacheBase +
  m_enabled :: bool
  m_num_accesses :: "64 word"
  m_num_hits :: "64 word"
  m_sets :: "CacheSet list"
  m_set_info :: CacheSetInfoLRU

definition new_Cache ::
  "string \<Rightarrow> policy_config \<Rightarrow> 32 word \<Rightarrow> 32 word \<Rightarrow> 32 word \<Rightarrow> hash_t \<Rightarrow> AddressHomeLookup option \<Rightarrow> Cache result" where
  "new_Cache replacement_policy cfg num_sets associativity cache_block_size hash ahl =
     bindr (new_CacheBase num_sets associativity cache_block_size hash ahl) (\<lambda>base.
     bindr (parsePolicyType replacement_policy) (\<lambda>policy.
     bindr (map_result (\<lambda>_. createCacheSet policy cfg (unat associativity) cache_block_size) [0..<unat num_sets]) (\<lambda>sets.
       Inr (CacheBase.extend base
         \<lparr>m_enabled = False, m_num_accesses = 0, m_num_hits = 0, m_sets = sets,
          m_set_info = new_CacheSetInfoLRU (unat associativity) (getNumQBSAttempts policy cfg)\<rparr>))))"

text \<open>The set of an address. \<^verbatim>\<open>invalidateSingleLine\<close> asserts that it exists, the other operations index the array.\<close>

definition locate :: "fault \<Rightarrow> Cache \<Rightarrow> 64 word \<Rightarrow> (64 word \<times> nat \<times> CacheSet) result" where
  "locate outside c addr =
     bindr (splitAddress (CacheBase.truncate c) addr) (\<lambda>(tag, set_index).
     bindr (of_opt outside (vec_at (m_sets c) (uint set_index))) (\<lambda>s. Inr (tag, unat set_index, s)))"

definition invalidateSingleLine :: "64 word \<Rightarrow> Cache \<Rightarrow> (bool \<times> Cache) result" where
  "invalidateSingleLine addr c =
     bindr (locate Exit_Process c addr) (\<lambda>(tag, i, s).
       case set_invalidate tag s of (found, s') \<Rightarrow> Inr (found, c\<lparr>m_sets := (m_sets c)[i := s']\<rparr>))"

definition accessSingleLine :: "64 word \<Rightarrow> 32 word \<Rightarrow> bool \<Rightarrow> Cache \<Rightarrow> (CacheBlockInfo option \<times> Cache) result" where
  "accessSingleLine addr bytes update_replacement c =
     bindr (locate Out_Of_Bounds c addr) (\<lambda>(tag, i, s).
       case set_find tag (cs_blocks s) of
         None \<Rightarrow> Inr (None, c)
       | Some line_index \<Rightarrow>
           bindr (use_line line_index (block_offset (CacheBase.truncate c) addr) bytes update_replacement s (m_set_info c)) (\<lambda>(s', si).
             Inr (Some (cs_blocks s ! line_index), c\<lparr>m_sets := (m_sets c)[i := s'], m_set_info := si\<rparr>)))"

definition insertSingleLine ::
  "64 word \<Rightarrow> CacheBlockInfo \<Rightarrow> cntlr \<Rightarrow> Cache \<Rightarrow> (bool \<times> 64 word \<times> CacheBlockInfo \<times> Cache) result" where
  "insertSingleLine addr evict_block_info cntlr c =
     bindr (locate Out_Of_Bounds c addr) (\<lambda>(tag, i, s).
     bindr (set_insert cntlr (new_CacheBlockInfo\<lparr>m_tag := tag\<rparr>) evict_block_info s (m_set_info c)) (\<lambda>(eviction, evict_info, s', si).
       Inr (eviction, tagToAddress (CacheBase.truncate c) (m_tag evict_info), evict_info,
            c\<lparr>m_sets := (m_sets c)[i := s'], m_set_info := si\<rparr>)))"

definition peekSingleLine :: "64 word \<Rightarrow> Cache \<Rightarrow> CacheBlockInfo option result" where
  "peekSingleLine addr c =
     bindr (locate Out_Of_Bounds c addr) (\<lambda>(tag, i, s). Inr (map_option (\<lambda>k. cs_blocks s ! k) (set_find tag (cs_blocks s))))"

definition updateCounters :: "bool \<Rightarrow> Cache \<Rightarrow> Cache" where
  "updateCounters cache_hit c =
     (if m_enabled c
      then c\<lparr>m_num_accesses := m_num_accesses c + 1, m_num_hits := m_num_hits c + (if cache_hit then 1 else 0)\<rparr>
      else c)"

definition updateHits :: "64 word \<Rightarrow> Cache \<Rightarrow> Cache" where
  "updateHits hits c =
     (if m_enabled c then c\<lparr>m_num_accesses := m_num_accesses c + hits, m_num_hits := m_num_hits c + hits\<rparr> else c)"

definition cache_enable :: "bool \<Rightarrow> Cache \<Rightarrow> Cache" where
  "cache_enable on c = c\<lparr>m_enabled := on\<rparr>"


section \<open>Local operations of the cache controller\<close>

text \<open>
  The operations of \<^verbatim>\<open>CacheCntlr\<close> that work on the controller's own cache only. The block
  information a pointer refers to is found again by its address. Using a null pointer is the
  fault \<open>Runtime_Error\<close>.
\<close>

datatype mem_op_t = READ | READ_EX | WRITE

definition getCacheState :: "64 word \<Rightarrow> Cache \<Rightarrow> cstate_t result" where
  "getCacheState address c =
     bindr (peekSingleLine address c) (\<lambda>info. Inr (case info of None \<Rightarrow> INVALID | Some b \<Rightarrow> m_cstate b))"

definition setCacheState :: "64 word \<Rightarrow> cstate_t \<Rightarrow> Cache \<Rightarrow> Cache result" where
  "setCacheState address cstate c =
     bindr (locate Out_Of_Bounds c address) (\<lambda>(tag, i, s).
       case set_find tag (cs_blocks s) of
         None \<Rightarrow> Inl Runtime_Error
       | Some k \<Rightarrow>
           Inr (c\<lparr>m_sets := (m_sets c)[i := s\<lparr>cs_blocks := (cs_blocks s)[k := (cs_blocks s ! k)\<lparr>m_cstate := cstate\<rparr>]\<rparr>]\<rparr>))"

definition operationPermissibleinCache :: "64 word \<Rightarrow> mem_op_t \<Rightarrow> Cache \<Rightarrow> bool result" where
  "operationPermissibleinCache address mem_op_type c =
     bindr (getCacheState address c) (\<lambda>cstate.
       Inr (case mem_op_type of READ \<Rightarrow> readable cstate | READ_EX \<Rightarrow> writable cstate | WRITE \<Rightarrow> writable cstate))"

definition retrieveCacheBlock :: "64 word \<Rightarrow> bool \<Rightarrow> Cache \<Rightarrow> Cache result" where
  "retrieveCacheBlock address update_replacement c =
     bindr (accessSingleLine address (m_blocksize c) update_replacement c) (\<lambda>(info, c').
       if info = None then Inl Exit_Process else Inr c')"

text \<open>The first part of \<^verbatim>\<open>insertCacheBlock\<close>, up to the handling of the evicted line.\<close>

definition insert_local ::
  "64 word \<Rightarrow> cstate_t \<Rightarrow> cntlr \<Rightarrow> Cache \<Rightarrow> (bool \<times> 64 word \<times> CacheBlockInfo \<times> Cache) result" where
  "insert_local address cstate cntlr c =
     bindr (getCacheState address c) (\<lambda>old_cstate.
       if old_cstate \<noteq> INVALID then Inl Exit_Process
       else
         bindr (insertSingleLine address new_CacheBlockInfo cntlr c) (\<lambda>(eviction, evict_address, evict_block_info, c').
         bindr (setCacheState address cstate c') (\<lambda>c''. Inr (eviction, evict_address, evict_block_info, c''))))"

end
