(* ===== verification/Policy_Lemmas.thy ===== *)
theory Policy_Lemmas
  imports Sniper_Cache
begin

text \<open>
  The replacement policies against what they promise: LRU keeps the ways in the order of their last
  use and replaces the last one, tree PLRU never replaces one of the ways used last, SRRIP finds a
  way to replace.
\<close>

section \<open>Searches\<close>

lemma first_index_SomeD: "first_index P xs = Some i \<Longrightarrow> i < length xs \<and> P (xs ! i) \<and> (\<forall>j < i. \<not> P (xs ! j))"
  by (induction xs arbitrary: i) (auto split: if_splits simp: less_Suc_eq_0_disj)

lemma first_index_None: "first_index P xs = None \<longleftrightarrow> (\<forall>x \<in> set xs. \<not> P x)"
  by (induction xs) auto


section \<open>LRU\<close>

lemma unat_8: "unat (x :: 8 word) < 256"
  using unsigned_less [of x] by simp

text \<open>The ways, most recently used first, and the counters that represent this order.\<close>

definition recency :: "nat list \<Rightarrow> 8 word list \<Rightarrow> bool" where
  "recency r bits \<longleftrightarrow> distinct r \<and> set r = {..<length bits} \<and> (\<forall>k < length r. unat (bits ! (r ! k)) = k)"

definition use_way :: "nat \<Rightarrow> nat list \<Rightarrow> nat list" where
  "use_way w r = w # remove1 w r"

lemma recency_length: "recency r bits \<Longrightarrow> length r = length bits"
  using distinct_card [of r] by (auto simp: recency_def)

lemma recency_initial: "n \<le> 256 \<Longrightarrow> recency [0..<n] (map of_nat [0..<n])"
  by (auto simp: recency_def unat_of_nat)

lemma recency_perm: "recency r bits \<Longrightarrow> set (use_way w r) = insert w {..<length bits}"
  by (auto simp: use_way_def recency_def set_remove1_eq)

lemma moveToMRU_recency:
  assumes r: "recency r bits" and w: "w < length bits"
  shows "\<exists>bits'. moveToMRU w bits = Inr bits' \<and> length bits' = length bits \<and> recency (use_way w r) bits'"
proof -
  obtain xs ys where split: "r = xs @ w # ys" "w \<notin> set xs" using r w split_list_first [of w r] by (auto simp: recency_def)
  have dist: "distinct xs" "distinct ys" "w \<notin> set ys" "set xs \<inter> set ys = {}" using r by (auto simp: recency_def split)
  have pos: "unat (bits ! (r ! k)) = k" if "k < length r" for k using r that by (simp add: recency_def)
  have at: "unat (bits ! w) = length xs" using pos [of "length xs"] by (simp add: split nth_append)
  have before: "unat (bits ! (xs ! k)) = k" if "k < length xs" for k using pos [of k] that by (simp add: split nth_append)
  have after: "unat (bits ! (ys ! k)) = Suc (length xs + k)" if "k < length ys" for k
    using pos [of "Suc (length xs + k)"] that by (simp add: split nth_append)
  have small: "v < length bits" if "v \<in> set xs \<union> set ys" for v using r that by (auto simp: recency_def split)
  let ?bits = "(map (\<lambda>x. if x < bits ! w then x + 1 else x) bits)[w := 0]"
  have "unat (?bits ! ((w # xs @ ys) ! k)) = k" if "k < length r" for k
  proof (cases k)
    case 0
    then show ?thesis using w by simp
  next
    case (Suc j)
    show ?thesis
    proof (cases "j < length xs")
      case True
      let ?v = "xs ! j"
      have v: "?v \<noteq> w" "?v < length bits" using True split(2) small [of ?v] by auto
      have "bits ! ?v < bits ! w" using before [OF True] at True by (simp add: word_less_nat_alt)
      moreover have "unat (bits ! ?v + 1) = Suc j"
        using before [OF True] at True unat_8 [of "bits ! w"] by (simp add: unat_word_ariths)
      ultimately show ?thesis using v True Suc by (simp add: nth_append)
    next
      case False
      let ?v = "ys ! (j - length xs)"
      have len: "j - length xs < length ys" using False that Suc by (auto simp: split)
      have v: "?v \<noteq> w" "?v < length bits" using len dist(3) small [of ?v] nth_mem [OF len] by auto
      have "\<not> bits ! ?v < bits ! w" using after [OF len] at by (simp add: word_less_nat_alt)
      then show ?thesis using v False Suc after [OF len] by (simp add: nth_append)
    qed
  qed
  then have "recency (w # xs @ ys) ?bits" using r dist split by (auto simp: recency_def)
  moreover have "use_way w r = w # xs @ ys" using split by (simp add: use_way_def remove1_append)
  ultimately show ?thesis using w by (simp add: moveToMRU_def)
qed

text \<open>The least recently used way that may be replaced, not counting the most recent one.\<close>

definition may_replace :: "CacheBlockInfo list \<Rightarrow> nat \<Rightarrow> bool" where
  "may_replace blocks w \<longleftrightarrow> m_cstate (blocks ! w) \<noteq> SHARED_UPGRADING"

definition least_recent :: "CacheBlockInfo list \<Rightarrow> nat list \<Rightarrow> nat" where
  "least_recent blocks r = (case find (may_replace blocks) (rev (tl r)) of Some w \<Rightarrow> w | None \<Rightarrow> 0)"

lemma may_replace_Cons [simp]: "may_replace (b # blocks) 0 \<longleftrightarrow> m_cstate b \<noteq> SHARED_UPGRADING" "may_replace (b # blocks) (Suc k) = may_replace blocks k"
  by (simp_all add: may_replace_def)

text \<open>The search with the largest counter it has seen.\<close>

fun lru_best :: "8 word list \<Rightarrow> CacheBlockInfo list \<Rightarrow> nat \<Rightarrow> nat \<times> 8 word \<Rightarrow> nat \<times> 8 word" where
  "lru_best (x # bits) (b # blocks) i (index, m) =
     lru_best bits blocks (Suc i) (if m < x \<and> m_cstate b \<noteq> SHARED_UPGRADING then (i, x) else (index, m))"
| "lru_best bits blocks i (index, m) = (index, m)"

lemma lru_search_best: "lru_search bits blocks i im = fst (lru_best bits blocks i im)"
  by (induction bits blocks i im rule: lru_best.induct) auto

lemma lru_best_ge: "snd im \<le> snd (lru_best bits blocks i im)"
  by (induction bits blocks i im rule: lru_best.induct) (auto split: if_splits)

lemma lru_best_max:
  "length bits = length blocks \<Longrightarrow> k < length bits \<Longrightarrow> may_replace blocks k \<Longrightarrow> bits ! k \<le> snd (lru_best bits blocks i im)"
proof (induction bits blocks i im arbitrary: k rule: lru_best.induct)
  case (1 x bits b blocks i index m)
  show ?case
  proof (cases k)
    case 0
    then have "x \<le> snd (if m < x \<and> m_cstate b \<noteq> SHARED_UPGRADING then (i, x) else (index, m))" using 1(4) by auto
    with lru_best_ge [of _ bits blocks "Suc i"] show ?thesis using 0 by (auto intro: order_trans)
  next
    case (Suc j)
    then show ?thesis using 1(1) [of j] 1(2-4) by simp
  qed
qed simp_all

lemma lru_best_from:
  "length bits = length blocks \<Longrightarrow> lru_best bits blocks i im = im \<or>
    (\<exists>k < length bits. lru_best bits blocks i im = (i + k, bits ! k) \<and> may_replace blocks k \<and> snd im < bits ! k)"
proof (induction bits blocks i im rule: lru_best.induct)
  case (1 x bits b blocks i index m)
  let ?im = "if m < x \<and> m_cstate b \<noteq> SHARED_UPGRADING then (i, x) else (index, m)"
  consider "lru_best bits blocks (Suc i) ?im = ?im" |
    k where "k < length bits" "lru_best bits blocks (Suc i) ?im = (Suc i + k, bits ! k)" "may_replace blocks k" "snd ?im < bits ! k"
    using 1 by auto
  then show ?case
  proof cases
    case 1
    then show ?thesis by (auto simp: Ex_less_Suc2)
  next
    case (2 k)
    then have "m < bits ! k" by (auto split: if_splits)
    with 2 show ?thesis by (intro disjI2 exI [of _ "Suc k"]) simp
  qed
qed simp_all

lemma find_skip: "\<forall>y \<in> set ys. \<not> P y \<Longrightarrow> find P (ys @ zs) = find P zs"
  by (induction ys) auto

lemma recency_at: "recency r bits \<Longrightarrow> w < length bits \<Longrightarrow> unat (bits ! w) < length r \<and> r ! unat (bits ! w) = w"
  by (auto simp: recency_def lessThan_def set_conv_nth set_eq_iff) (metis mem_Collect_eq)+

lemma lru_search_recency:
  assumes r: "recency r bits" and len: "length blocks = length bits"
  shows "lru_search bits blocks 0 (0, 0) = least_recent blocks r"
proof -
  note max = lru_best_max [OF len [symmetric], of _ 0 "(0, 0)"]
  have pos: "unat (bits ! (r ! k)) = k" "r ! k < length bits" if "k < length r" for k
    using r that nth_mem [OF that] by (auto simp: recency_def)
  consider "lru_best bits blocks 0 (0, 0) = (0, 0)" |
    k where "k < length bits" "lru_best bits blocks 0 (0, 0) = (k, bits ! k)" "may_replace blocks k" "0 < bits ! k"
    using lru_best_from [OF len [symmetric], of 0 "(0, 0)"] by auto
  then show ?thesis
  proof cases
    case 1
    have "\<not> may_replace blocks (r ! Suc k)" if "Suc k < length r" for k
      using max [of "r ! Suc k"] pos [OF that] 1 by auto
    then have "find (may_replace blocks) (rev (tl r)) = None" by (auto simp: find_None_iff in_set_conv_nth nth_tl)
    then show ?thesis by (simp add: least_recent_def lru_search_best 1)
  next
    case (2 k)
    define p where "p = unat (bits ! k)"
    have p: "p < length r" "r ! p = k" "0 < p" using recency_at [OF r 2(1)] 2(4) by (auto simp: p_def unat_gt_0)
    have later: "\<not> may_replace blocks (r ! q)" if "p < q" "q < length r" for q
      using max [of "r ! q"] pos [OF that(2)] that(1) by (auto simp: 2(2) word_le_nat_alt p_def)
    have "tl r = take (p - 1) (tl r) @ tl r ! (p - 1) # drop (Suc (p - 1)) (tl r)" by (rule id_take_nth_drop) (use p in simp)
    then have "tl r = take (p - 1) (tl r) @ k # drop p (tl r)" using p by (simp add: nth_tl)
    then have "rev (tl r) = rev (take (p - 1) (tl r) @ k # drop p (tl r))" by (rule arg_cong)
    then have "rev (tl r) = rev (drop p (tl r)) @ k # rev (take (p - 1) (tl r))" by (simp only: rev_append rev.simps append_assoc append_Cons append_Nil)
    moreover have "\<forall>w \<in> set (rev (drop p (tl r))). \<not> may_replace blocks w"
      using later by (auto simp: in_set_conv_nth nth_tl)
    ultimately have "find (may_replace blocks) (rev (tl r)) = Some k" using 2(3) by (simp only: find_skip find.simps if_True)
    then show ?thesis by (simp add: least_recent_def lru_search_best 2(2))
  qed
qed

text \<open>The calls of a set with LRU replacement, and the same calls on the order of use.\<close>

datatype policy_call = Touch nat | Replace "CacheBlockInfo list"

fun call_ok :: "nat \<Rightarrow> policy_call \<Rightarrow> bool" where
  "call_ok n (Touch w) \<longleftrightarrow> w < n"
| "call_ok n (Replace blocks) \<longleftrightarrow> length blocks = n"

fun lru_call :: "policy_call \<Rightarrow> CacheSetLRU \<times> CacheSetInfoLRU \<Rightarrow> (nat option \<times> CacheSetLRU \<times> CacheSetInfoLRU) result" where
  "lru_call (Touch w) (s, si) = bindr (LRU_updateReplacementIndex w s si) (\<lambda>(s', si'). Inr (None, s', si'))"
| "lru_call (Replace blocks) (s, si) = bindr (LRU_getReplacementIndex None blocks s si) (\<lambda>(w, s', si'). Inr (Some w, s', si'))"

fun lru_calls :: "policy_call list \<Rightarrow> CacheSetLRU \<times> CacheSetInfoLRU \<Rightarrow> (nat option list \<times> CacheSetLRU \<times> CacheSetInfoLRU) result" where
  "lru_calls [] st = Inr ([], st)"
| "lru_calls (x # xs) st = bindr (lru_call x st) (\<lambda>(out, st1). bindr (lru_calls xs st1) (\<lambda>(outs, st2). Inr (out # outs, st2)))"

fun recency_call :: "policy_call \<Rightarrow> nat list \<Rightarrow> nat option \<times> nat list" where
  "recency_call (Touch w) r = (None, use_way w r)"
| "recency_call (Replace blocks) r =
     (let w = (case first_invalid blocks of Some i \<Rightarrow> i | None \<Rightarrow> least_recent blocks r) in (Some w, use_way w r))"

fun recency_calls :: "policy_call list \<Rightarrow> nat list \<Rightarrow> nat option list \<times> nat list" where
  "recency_calls [] r = ([], r)"
| "recency_calls (x # xs) r =
     (case recency_call x r of (out, r1) \<Rightarrow> case recency_calls xs r1 of (outs, r2) \<Rightarrow> (out # outs, r2))"

definition lru_inv :: "nat \<Rightarrow> nat list \<Rightarrow> CacheSetLRU \<times> CacheSetInfoLRU \<Rightarrow> bool" where
  "lru_inv n r st \<longleftrightarrow> recency r (m_lru_bits (fst st)) \<and> length (m_lru_bits (fst st)) = n \<and> lru_num_attempts (fst st) = 1
     \<and> si_associativity (snd st) = n \<and> m_attempts (snd st) = None"

lemma find_member: "find P xs = Some x \<Longrightarrow> x \<in> set xs"
  by (induction xs) (auto split: if_splits)

lemma least_recent_bound:
  assumes "recency r bits" "0 < length bits"
  shows "least_recent blocks r < length bits"
proof (cases "find (may_replace blocks) (rev (tl r))")
  case None
  then show ?thesis using assms by (simp add: least_recent_def)
next
  case (Some w)
  then have "w \<in> set r" using find_member [OF Some] by (cases r) simp_all
  then show ?thesis using assms Some by (simp add: least_recent_def recency_def)
qed

lemma lru_call_refines:
  assumes inv: "lru_inv n r st" and ok: "call_ok n x" and "0 < n"
  shows "\<exists>st'. lru_call x st = Inr (fst (recency_call x r), st') \<and> lru_inv n (snd (recency_call x r)) st'"
proof -
  obtain s si where st: "st = (s, si)" by (cases st)
  have r: "recency r (m_lru_bits s)" "length (m_lru_bits s) = n" using inv by (simp_all add: lru_inv_def st)
  have move: "\<exists>bits. moveToMRU w (m_lru_bits s) = Inr bits \<and> lru_inv n (use_way w r) (s\<lparr>m_lru_bits := bits\<rparr>, si)" if "w < n" for w
    using moveToMRU_recency [OF r(1), of w] that inv by (auto simp: lru_inv_def st)
  show ?thesis
  proof (cases x)
    case (Touch w)
    have "unat (m_lru_bits s ! w) < n" using recency_at [OF r(1), of w] ok r(2) recency_length [OF r(1)] by (simp add: Touch)
    then show ?thesis
      using move [of w] inv ok r(2) by (auto simp: st Touch LRU_updateReplacementIndex_def si_increment_def lru_inv_def)
  next
    case (Replace blocks)
    have len: "length blocks = n" using ok by (simp add: Replace)
    show ?thesis
    proof (cases "first_invalid blocks")
      case None
      have w: "least_recent blocks r < n" using least_recent_bound [OF r(1)] r(2) assms(3) by simp
      obtain bits where "moveToMRU (least_recent blocks r) (m_lru_bits s) = Inr bits" "lru_inv n (use_way (least_recent blocks r) r) (s\<lparr>m_lru_bits := bits\<rparr>, si)"
        using move [OF w] by blast
      then show ?thesis
        using inv len w r lru_search_recency [OF r(1), of blocks]
        by (simp add: Replace st LRU_getReplacementIndex_def None lru_inv_def incrementAttempt_def Let_def)
    next
      case (Some i)
      then show ?thesis using move [of i] first_index_SomeD [OF Some] len by (auto simp: Replace st LRU_getReplacementIndex_def)
    qed
  qed
qed

lemma lru_calls_refine:
  "lru_inv n r st \<Longrightarrow> list_all (call_ok n) xs \<Longrightarrow> 0 < n \<Longrightarrow>
    \<exists>st'. lru_calls xs st = Inr (fst (recency_calls xs r), st') \<and> lru_inv n (snd (recency_calls xs r)) st'"
proof (induction xs arbitrary: r st)
  case (Cons x xs)
  obtain st1 where st1: "lru_call x st = Inr (fst (recency_call x r), st1)" "lru_inv n (snd (recency_call x r)) st1"
    using lru_call_refines [OF Cons.prems(1) _ Cons.prems(3), of x] Cons.prems(2) by (simp only: list.pred_inject) blast
  obtain st2 where "lru_calls xs st1 = Inr (fst (recency_calls xs (snd (recency_call x r))), st2)"
    "lru_inv n (snd (recency_calls xs (snd (recency_call x r)))) st2"
    using Cons.IH [OF st1(2)] Cons.prems(2,3) by (simp only: list.pred_inject) blast
  then show ?case using st1(1) by (intro exI [where x = st2]) (simp add: split_beta)
qed simp


definition full_set :: "CacheBlockInfo list" where
  "full_set = map (\<lambda>t. new_CacheBlockInfo\<lparr>m_tag := t, m_cstate := SHARED\<rparr>) [10, 11, 12, 13]"

lemma demo_recency:
  "recency_calls [Touch 3, Touch 1, Replace full_set, Touch 0, Replace full_set] [0..<4] = ([None, None, Some 2, None, Some 3], [3, 0, 2, 1])"
  by code_simp



section \<open>Tree PLRU\<close>

text \<open>The number of tree bits on the path of a way that point to it.\<close>

definition pointing :: "nat \<Rightarrow> nat \<Rightarrow> bool list \<Rightarrow> nat" where
  "pointing n w b = length (filter (\<lambda>(i, v). b ! i \<noteq> v) (plru_touched n w))"

definition tree_depth :: "nat \<Rightarrow> nat" where
  "tree_depth n = (if n = 4 then 2 else 3)"

lemma ways_8: "(w :: nat) < 8 \<Longrightarrow> w = 0 \<or> w = 1 \<or> w = 2 \<or> w = 3 \<or> w = 4 \<or> w = 5 \<or> w = 6 \<or> w = 7"
  by auto

lemma ways_4: "(w :: nat) < 4 \<Longrightarrow> w = 0 \<or> w = 1 \<or> w = 2 \<or> w = 3"
  by auto

lemma pointing_self:
  assumes "n = 4 \<or> n = 8" "w < n" "length b = 8"
  shows "pointing n w (plru_write (plru_touched n w) b) = 0"
  using assms(1)
proof
  assume n: "n = 4"
  from ways_4 [of w] assms(2) have "w = 0 \<or> w = 1 \<or> w = 2 \<or> w = 3" by (simp add: n)
  then show ?thesis unfolding n using assms(3) by (elim disjE) (simp_all add: pointing_def plru_touched_def)
next
  assume n: "n = 8"
  from ways_8 [of w] assms(2) have "w = 0 \<or> w = 1 \<or> w = 2 \<or> w = 3 \<or> w = 4 \<or> w = 5 \<or> w = 6 \<or> w = 7" by (simp add: n)
  then show ?thesis unfolding n using assms(3) by (elim disjE) (simp_all add: pointing_def plru_touched_def)
qed

lemma pointing_other:
  assumes "n = 4 \<or> n = 8" "w < n" "v < n" "length b = 8"
  shows "pointing n w (plru_write (plru_touched n v) b) \<le> Suc (pointing n w b)"
  using assms(1)
proof
  assume n: "n = 4"
  have "w = 0 \<or> w = 1 \<or> w = 2 \<or> w = 3" "v = 0 \<or> v = 1 \<or> v = 2 \<or> v = 3" using assms(2,3) ways_4 by (simp_all add: n)
  then show ?thesis unfolding n using assms(4) by (elim disjE) (simp_all add: pointing_def plru_touched_def)
next
  assume n: "n = 8"
  have "w = 0 \<or> w = 1 \<or> w = 2 \<or> w = 3 \<or> w = 4 \<or> w = 5 \<or> w = 6 \<or> w = 7"
    "v = 0 \<or> v = 1 \<or> v = 2 \<or> v = 3 \<or> v = 4 \<or> v = 5 \<or> v = 6 \<or> v = 7" using assms(2,3) ways_8 by (simp_all add: n)
  then show ?thesis unfolding n using assms(4) by (elim disjE) (simp_all add: pointing_def plru_touched_def)
qed

lemma pointing_victim:
  assumes "n = 4 \<or> n = 8" "plru_victim n b = Inr w"
  shows "w < n" and "pointing n w b = tree_depth n"
proof -
  have "w < n \<and> pointing n w b = tree_depth n" using assms(1)
  proof
    assume n: "n = 4"
    show ?thesis using assms(2) unfolding n by (auto simp: plru_victim_def pointing_def plru_touched_def tree_depth_def split: if_splits)
  next
    assume n: "n = 8"
    show ?thesis
    proof (cases "b ! 0")
      case True
      then show ?thesis using assms(2) unfolding n
        by (cases "b ! 4"; cases "b ! 5"; cases "b ! 6"; simp add: plru_victim_def pointing_def plru_touched_def tree_depth_def; clarsimp)
    next
      case False
      then show ?thesis using assms(2) unfolding n
        by (cases "b ! 1"; cases "b ! 2"; cases "b ! 3"; simp add: plru_victim_def pointing_def plru_touched_def tree_depth_def; clarsimp)
    qed
  qed
  then show "w < n" "pointing n w b = tree_depth n" by simp_all
qed

fun plru_uses :: "nat list \<Rightarrow> CacheSetPLRU \<Rightarrow> CacheSetPLRU result" where
  "plru_uses [] s = Inr s"
| "plru_uses (w # ws) s = bindr (PLRU_updateReplacementIndex w s) (plru_uses ws)"

definition plru_inv :: "nat \<Rightarrow> nat list \<Rightarrow> CacheSetPLRU \<Rightarrow> bool" where
  "plru_inv n ws s \<longleftrightarrow> pl_associativity s = n \<and> length (plru_b s) = 8 \<and>
     (\<forall>w k. k < length ws \<longrightarrow> ws ! k = w \<longrightarrow> pointing n w (plru_b s) \<le> length ws - Suc k)"

lemma plru_write_length [simp]: "length (plru_write ivs b) = length b"
  by (induction ivs b rule: plru_write.induct) simp_all

lemma plru_inv_use:
  assumes n: "n = 4 \<or> n = 8" and inv: "plru_inv n ws s" and ws: "list_all (\<lambda>w. w < n) ws" "v < n"
  shows "\<exists>s'. PLRU_updateReplacementIndex v s = Inr s' \<and> plru_inv n (ws @ [v]) s'"
proof -
  let ?b = "plru_write (plru_touched n v) (plru_b s)"
  have len: "length (plru_b s) = 8" "pl_associativity s = n" using inv by (simp_all add: plru_inv_def)
  have "pointing n ((ws @ [v]) ! k) ?b \<le> length (ws @ [v]) - Suc k" if "k < length (ws @ [v])" for k
  proof (cases "k < length ws")
    case True
    then have "pointing n (ws ! k) ?b \<le> Suc (pointing n (ws ! k) (plru_b s))" "pointing n (ws ! k) (plru_b s) \<le> length ws - Suc k"
      using pointing_other [OF n _ ws(2) len(1)] ws(1) inv by (auto simp: list_all_length plru_inv_def)
    then show ?thesis using True by (simp add: nth_append)
  next
    case False
    then have "k = length ws" using that by simp
    then show ?thesis using pointing_self [OF n ws(2) len(1)] by simp
  qed
  then show ?thesis using n len by (auto simp: PLRU_updateReplacementIndex_def plru_inv_def)
qed

lemma plru_uses_inv:
  assumes n: "n = 4 \<or> n = 8"
  shows "plru_inv n us s \<Longrightarrow> list_all (\<lambda>w. w < n) (us @ ws) \<Longrightarrow> \<exists>s'. plru_uses ws s = Inr s' \<and> plru_inv n (us @ ws) s'"
proof (induction ws arbitrary: us s)
  case (Cons w ws)
  obtain s1 where s1: "PLRU_updateReplacementIndex w s = Inr s1" "plru_inv n (us @ [w]) s1"
    using plru_inv_use [OF n Cons.prems(1), of w] Cons.prems(2) by auto
  show ?case using Cons.IH [OF s1(2)] Cons.prems(2) s1(1) by simp
qed simp

text \<open>
  C21. Tree PLRU protects recent lines. In a full set of 4 or 8 ways with no line waiting for an
  upgrade, after any sequence of uses, the replacement returns a way of the set that is not
  among the last 2 (4 ways) or 3 (8 ways) uses.
\<close>

theorem plru_protects_recent:
  assumes n: "n = 4 \<or> n = 8" and ws: "list_all (\<lambda>w. w < n) ws"
    and blocks: "length blocks = n" "list_all (\<lambda>b. isValid b \<and> m_cstate b \<noteq> SHARED_UPGRADING) blocks"
  shows "\<exists>s0 s v s'. new_CacheSetPLRU n = Inr s0 \<and> plru_uses ws s0 = Inr s \<and> PLRU_getReplacementIndex blocks s = Inr (v, s')
    \<and> v < n \<and> v \<notin> set (drop (length ws - (if n = 4 then 2 else 3)) ws)"
proof -
  obtain s0 where s0: "new_CacheSetPLRU n = Inr s0" "plru_inv n [] s0" using n by (auto simp: new_CacheSetPLRU_def plru_inv_def)
  obtain s where s: "plru_uses ws s0 = Inr s" "plru_inv n ws s" using plru_uses_inv [OF n s0(2), of ws] ws by auto
  have len: "length (plru_b s) = 8" "pl_associativity s = n" using s(2) by (simp_all add: plru_inv_def)
  obtain v where v: "plru_victim n (plru_b s) = Inr v" using n by (auto simp: plru_victim_def)
  note vic = pointing_victim [OF n v]
  have "first_invalid blocks = None" using blocks(2) by (auto simp: first_index_None list_all_iff)
  moreover have "isValidReplacement blocks v = Inr True" using blocks vic(1) by (simp add: isValidReplacement_def list_all_length)
  moreover obtain s' where "PLRU_updateReplacementIndex v s = Inr s'" using n len by (auto simp: PLRU_updateReplacementIndex_def)
  ultimately have get: "PLRU_getReplacementIndex blocks s = Inr (v, s')" using v len(2) by (simp add: PLRU_getReplacementIndex_def)
  have "v \<notin> set (drop (length ws - tree_depth n) ws)"
  proof
    assume "v \<in> set (drop (length ws - tree_depth n) ws)"
    then obtain k where k: "k < length ws - (length ws - tree_depth n)" "ws ! (length ws - tree_depth n + k) = v"
      by (auto simp: in_set_conv_nth)
    moreover have "length ws - tree_depth n + k < length ws" using k(1) by simp
    ultimately have "pointing n v (plru_b s) \<le> length ws - Suc (length ws - tree_depth n + k)"
      using s(2) unfolding plru_inv_def by blast
    then show False using vic(2) k by (auto simp: tree_depth_def split: if_splits)
  qed
  then show ?thesis using s0(1) s(1) get vic(1) by (auto simp: tree_depth_def)
qed

theorem plru_protects_recent_witness:
  "\<exists>s0 s v s'. new_CacheSetPLRU 4 = Inr s0 \<and> plru_uses [0, 1, 3, 1] s0 = Inr s \<and> PLRU_getReplacementIndex full_set s = Inr (v, s')
    \<and> v < 4 \<and> v \<noteq> 3 \<and> v \<noteq> 1"
  using plru_protects_recent [of 4 "[0, 1, 3, 1]" full_set] by (simp add: full_set_def isValid_def)


section \<open>SRRIP\<close>

definition srrip_ok :: "nat \<Rightarrow> CacheSetSRRIP \<Rightarrow> bool" where
  "srrip_ok n s \<longleftrightarrow> length (m_rrip_bits s) = n \<and> unat (sr_replacement_pointer s) < n \<and> sr_num_attempts s = 1"

lemma next_way_unat:
  assumes "n \<le> 256" "0 < n"
  shows "unat (next_way n p) = (unat p + 1) mod n"
proof -
  have "(unat p + 1) mod n < 256" using mod_less_divisor [OF assms(2), of "unat p + 1"] assms(1) by linarith
  then show ?thesis by (simp add: next_way_def unat_of_nat)
qed

lemma vec_at_uint [simp]: "unat w < length xs \<Longrightarrow> vec_at xs (uint w) = Some (xs ! unat w)"
  using vec_at_nat [of "unat w" xs] by simp

lemma srrip_scan_spec:
  assumes blocks: "length blocks = n" "list_all (\<lambda>b. m_cstate b \<noteq> SHARED_UPGRADING) blocks" and n: "0 < n" "n \<le> 256"
    and si: "m_attempts si = None"
  shows "srrip_ok n s \<Longrightarrow> p = unat (sr_replacement_pointer s) \<Longrightarrow>
    (if \<forall>j < k. m_rrip_bits s ! ((p + j) mod n) < m_rrip_max s
     then \<exists>q. srrip_scan cntlr blocks k 0 s si = Inr (None, 0, s\<lparr>sr_replacement_pointer := q\<rparr>, si) \<and> unat q < n
     else \<exists>j < k. \<exists>s'. m_rrip_max s \<le> m_rrip_bits s ! ((p + j) mod n) \<and> srrip_scan cntlr blocks k 0 s si = Inr (Some ((p + j) mod n), 0, s', si))"
proof (induction k arbitrary: s p)
  case 0
  then show ?case by (auto simp: srrip_ok_def intro!: exI [of _ "sr_replacement_pointer s"])
next
  case (Suc k)
  have p: "p < n" "length (m_rrip_bits s) = n" using Suc.prems by (simp_all add: srrip_ok_def)
  let ?q = "next_way n (sr_replacement_pointer s)"
  have q: "unat ?q = Suc p mod n" using next_way_unat [OF n(2,1)] Suc.prems(2) by simp
  show ?case
  proof (cases "m_rrip_max s \<le> m_rrip_bits s ! p")
    case True
    have "isValidReplacement blocks p = Inr True" using blocks p(1) by (simp add: isValidReplacement_def list_all_length)
    then have "\<exists>s'. srrip_scan cntlr blocks (Suc k) 0 s si = Inr (Some p, 0, s', si)"
      using True p Suc.prems si by (simp add: Let_def srrip_ok_def incrementAttempt_def del: bindr_Inr)
    moreover have "\<not> (\<forall>j < Suc k. m_rrip_bits s ! ((p + j) mod n) < m_rrip_max s)" using True p(1) by auto
    ultimately show ?thesis using True p(1) by (auto intro!: exI [of _ 0])
  next
    case False
    let ?s = "s\<lparr>sr_replacement_pointer := ?q\<rparr>"
    have ok: "srrip_ok n ?s" using Suc.prems(1) q n(1) by (simp add: srrip_ok_def)
    have step: "srrip_scan cntlr blocks (Suc k) 0 s si = srrip_scan cntlr blocks k 0 ?s si"
      using False p Suc.prems blocks(1) by (simp add: Let_def del: bindr_Inr)
    have shift: "(Suc p mod n + j) mod n = (p + Suc j) mod n" for j by (simp add: mod_add_left_eq)
    have "(\<forall>j < Suc k. m_rrip_bits s ! ((p + j) mod n) < m_rrip_max s) \<longleftrightarrow>
        (\<forall>j < k. m_rrip_bits s ! ((p + Suc j) mod n) < m_rrip_max s)"
      using False p(1) by (simp add: All_less_Suc2 not_le del: add_Suc_right)
    moreover have "p' = Suc p mod n \<Longrightarrow> unat (sr_replacement_pointer ?s) = p'" for p' using q by simp
    note Suc.IH [OF ok this [OF refl, symmetric]]
    ultimately show ?thesis
      by (auto simp: shift step simp del: srrip_scan.simps add_Suc_right split: if_splits)
  qed
qed

lemma all_ways: 
  assumes "p < (n :: nat)"
  shows "(\<forall>j < n. P ((p + j) mod n)) \<longleftrightarrow> (\<forall>w < n. P w)"
proof
  assume *: "\<forall>j < n. P ((p + j) mod n)"
  show "\<forall>w < n. P w"
  proof (intro allI impI)
    fix w assume w: "w < n"
    have "(p + (w + n - p) mod n) mod n = w" using w assms by (simp add: mod_add_right_eq)
    then show "P w" using * [rule_format, of "(w + n - p) mod n"] assms by auto
  qed
qed (use assms in auto)

lemma srrip_rounds_spec:
  assumes blocks: "length blocks = n" "list_all (\<lambda>b. m_cstate b \<noteq> SHARED_UPGRADING) blocks" and n: "0 < n" "n \<le> 256"
    and si: "m_attempts si = None"
  shows "srrip_ok n s \<Longrightarrow> w < n \<Longrightarrow> unat (m_rrip_max s) \<le> unat (m_rrip_bits s ! w) + j \<Longrightarrow>
    \<exists>v s'. srrip_rounds cntlr blocks (Suc j) 0 s si = Inr (v, s', si) \<and> v < n \<and>
      (\<forall>u < n. m_rrip_bits s ! u \<le> m_rrip_bits s ! v \<or> m_rrip_max s \<le> m_rrip_bits s ! v)"
proof (induction j arbitrary: s)
  case (0 s)
  let ?p = "unat (sr_replacement_pointer s)"
  have p: "?p < n" using 0 by (simp add: srrip_ok_def)
  have "\<not> (\<forall>u < n. m_rrip_bits s ! u < m_rrip_max s)" using 0 by (auto simp: word_less_nat_alt not_less)
  then have "\<not> (\<forall>i < n. m_rrip_bits s ! ((?p + i) mod n) < m_rrip_max s)" using all_ways [OF p, of "\<lambda>u. m_rrip_bits s ! u < m_rrip_max s"] by simp
  with srrip_scan_spec [OF assms 0(1) refl, of n cntlr] obtain i s' where "m_rrip_max s \<le> m_rrip_bits s ! ((?p + i) mod n)"
    "srrip_scan cntlr blocks n 0 s si = Inr (Some ((?p + i) mod n), 0, s', si)" by (auto split: if_splits)
  then show ?case using n(1) blocks(1) by (auto simp del: srrip_scan.simps)
next
  case (Suc j s)
  let ?p = "unat (sr_replacement_pointer s)"
  have p: "?p < n" "length (m_rrip_bits s) = n" using Suc by (simp_all add: srrip_ok_def)
  note scan = srrip_scan_spec [OF assms Suc.prems(1) refl, of n cntlr]
  show ?case
  proof (cases "\<forall>u < n. m_rrip_bits s ! u < m_rrip_max s")
    case False
    then have "\<not> (\<forall>i < n. m_rrip_bits s ! ((?p + i) mod n) < m_rrip_max s)" using all_ways [OF p(1), of "\<lambda>u. m_rrip_bits s ! u < m_rrip_max s"] by simp
    with scan obtain i s' where "m_rrip_max s \<le> m_rrip_bits s ! ((?p + i) mod n)"
      "srrip_scan cntlr blocks n 0 s si = Inr (Some ((?p + i) mod n), 0, s', si)" by (auto split: if_splits)
    then show ?thesis using n(1) blocks(1) by (auto simp del: srrip_scan.simps)
  next
    case True
    then have "\<forall>i < n. m_rrip_bits s ! ((?p + i) mod n) < m_rrip_max s" using n(1) by auto
    with scan obtain q where q: "srrip_scan cntlr blocks n 0 s si = Inr (None, 0, s\<lparr>sr_replacement_pointer := q\<rparr>, si)" "unat q < n" by auto
    let ?s = "s\<lparr>sr_replacement_pointer := q, m_rrip_bits := map (\<lambda>x. if x < m_rrip_max s then x + 1 else x) (m_rrip_bits s)\<rparr>"
    have up: "unat (m_rrip_bits ?s ! u) = Suc (unat (m_rrip_bits s ! u))" if "u < n" for u
    proof -
      have "unat (m_rrip_bits s ! u) < unat (m_rrip_max s)" using True that by (simp add: word_less_nat_alt)
      then show ?thesis using that p(2) True unat_8 [of "m_rrip_max s"] by (simp add: unat_word_ariths)
    qed
    have "srrip_ok n ?s" using Suc.prems(1) q(2) by (simp add: srrip_ok_def)
    moreover have "unat (m_rrip_max ?s) \<le> unat (m_rrip_bits ?s ! w) + j" using Suc.prems(2,3) up by simp
    ultimately obtain v s' where v: "srrip_rounds cntlr blocks (Suc j) 0 ?s si = Inr (v, s', si)" "v < n"
      and best: "\<forall>u < n. m_rrip_bits ?s ! u \<le> m_rrip_bits ?s ! v \<or> m_rrip_max ?s \<le> m_rrip_bits ?s ! v"
      using Suc.IH [of ?s] Suc.prems(2) by blast
    have "m_rrip_bits s ! u \<le> m_rrip_bits s ! v" if "u < n" for u
      using best [rule_format, OF that] up [OF that] up [OF v(2)] True that by (auto simp: word_le_nat_alt word_less_nat_alt)
    moreover have "srrip_rounds cntlr blocks (Suc (Suc j)) 0 s si = Inr (v, s', si)"
      using v(1) q(1) blocks(1) by (simp del: srrip_scan.simps srrip_rounds.simps add: srrip_rounds.simps(2) [of _ _ "Suc j"])
    ultimately show ?thesis using v(2) by blast
  qed
qed



end
