(* ===== verification/Policy_Contract.thy ===== *)
theory Policy_Contract
  imports Policy_Lemmas
begin

text \<open>
  What a set relies on its replacement policy for: while no line waits for an upgrade, the choice
  of a line and the update after an access return, the line chosen is one of the set, and the
  state stays well formed. The laws hold for the eight policies of \<^verbatim>\<open>createCacheSet\<close>.
\<close>

section \<open>The contract\<close>

abbreviation settled :: "CacheBlockInfo list \<Rightarrow> bool" where
  "settled \<equiv> list_all (\<lambda>b. m_cstate b \<noteq> SHARED_UPGRADING)"

text \<open>A sequence of calls of a policy: the ways it picks, and its state at the end.\<close>

fun policy_calls ::
  "(cntlr \<Rightarrow> CacheBlockInfo list \<Rightarrow> 'st \<Rightarrow> (nat \<times> 'st) result) \<Rightarrow> (nat \<Rightarrow> 'st \<Rightarrow> 'st result) \<Rightarrow> cntlr \<Rightarrow> policy_call list \<Rightarrow> 'st \<Rightarrow> (nat list \<times> 'st) result" where
  "policy_calls pick touch cntlr [] st = Inr ([], st)"
| "policy_calls pick touch cntlr (Touch k # xs) st = bindr (touch k st) (policy_calls pick touch cntlr xs)"
| "policy_calls pick touch cntlr (Replace blocks # xs) st =
     bindr (pick cntlr blocks st) (\<lambda>(k, st1). bindr (policy_calls pick touch cntlr xs st1) (\<lambda>(ks, st2). Inr (k # ks, st2)))"

fun call_settled :: "nat \<Rightarrow> policy_call \<Rightarrow> bool" where
  "call_settled n (Touch k) \<longleftrightarrow> k < n"
| "call_settled n (Replace blocks) \<longleftrightarrow> length blocks = n \<and> settled blocks"

locale replacement =
  fixes policy_ok :: "nat \<Rightarrow> 'p \<Rightarrow> bool" and info_ok :: "nat \<Rightarrow> 'i \<Rightarrow> bool"
    and pick :: "cntlr \<Rightarrow> CacheBlockInfo list \<Rightarrow> 'p \<times> 'i \<Rightarrow> (nat \<times> 'p \<times> 'i) result"
    and touch :: "nat \<Rightarrow> 'p \<times> 'i \<Rightarrow> ('p \<times> 'i) result"
  assumes pick_ok: "policy_ok n p \<Longrightarrow> info_ok n si \<Longrightarrow> length blocks = n \<Longrightarrow> settled blocks \<Longrightarrow>
      \<exists>k p' si'. pick cntlr blocks (p, si) = Inr (k, p', si') \<and> k < n \<and> policy_ok n p' \<and> info_ok n si'"
    and touch_ok: "policy_ok n p \<Longrightarrow> info_ok n si \<Longrightarrow> k < n \<Longrightarrow>
      \<exists>p' si'. touch k (p, si) = Inr (p', si') \<and> policy_ok n p' \<and> info_ok n si'"
begin

lemma calls_ok:
  "policy_ok n p \<Longrightarrow> info_ok n si \<Longrightarrow> list_all (call_settled n) xs \<Longrightarrow>
    \<exists>outs st. policy_calls pick touch cntlr xs (p, si) = Inr (outs, st) \<and> list_all (\<lambda>k. k < n) outs"
proof (induction xs arbitrary: p si)
  case (Cons x xs)
  show ?case
  proof (cases x)
    case (Touch k)
    then obtain p' si' where step: "touch k (p, si) = Inr (p', si')" "policy_ok n p'" "info_ok n si'" using touch_ok [OF Cons.prems(1,2), of k] Cons.prems(3) by auto
    from Cons.IH [OF this(2,3)] Cons.prems(3) show ?thesis using step(1) by (auto simp: Touch)
  next
    case (Replace blocks)
    then obtain k p' si' where step: "pick cntlr blocks (p, si) = Inr (k, p', si')" "k < n" "policy_ok n p'" "info_ok n si'"
      using pick_ok [OF Cons.prems(1,2), of blocks cntlr] Cons.prems(3) by auto
    from Cons.IH [OF this(3,4)] Cons.prems(3) show ?thesis using step(1,2) by (auto simp: Replace)
  qed
qed simp

end


section \<open>The policies keep it\<close>

definition info_ok :: "nat \<Rightarrow> CacheSetInfoLRU \<Rightarrow> bool" where
  "info_ok n si \<longleftrightarrow> si_associativity si = n \<and> m_attempts si = None"

definition ordered :: "nat \<Rightarrow> 8 word list \<Rightarrow> bool" where
  "ordered n bits \<longleftrightarrow> length bits = n \<and> (\<exists>r. recency r bits)"

lemma ordered_move: "ordered n bits \<Longrightarrow> k < n \<Longrightarrow> \<exists>bits'. moveToMRU k bits = Inr bits' \<and> ordered n bits'"
  using moveToMRU_recency by (fastforce simp: ordered_def)

lemma ordered_small: "ordered n bits \<Longrightarrow> k < n \<Longrightarrow> unat (bits ! k) < n"
  using recency_at recency_length by (fastforce simp: ordered_def)

lemma ordered_position:
  assumes "ordered n bits" "j < n"
  shows "\<exists>k < n. unat (bits ! k) = j"
proof -
  obtain r where r: "recency r bits" "length bits = n" using assms(1) by (auto simp: ordered_def)
  have "j < length r" using recency_length [OF r(1)] r(2) assms(2) by simp
  then have "r ! j \<in> {..<n}" "unat (bits ! (r ! j)) = j" using r nth_mem [of j r] by (auto simp: recency_def)
  then show ?thesis by auto
qed

lemma settled_replacement: "settled blocks \<Longrightarrow> k < length blocks \<Longrightarrow> isValidReplacement blocks k = Inr True"
  by (simp add: isValidReplacement_def list_all_length)

lemma first_invalid_bound: "first_invalid blocks = Some i \<Longrightarrow> i < length blocks"
  using first_index_SomeD by blast

subsection \<open>LRU, MRU and NMRU\<close>

lemma lru_choose:
  assumes "ordered n (m_lru_bits s)" "lru_num_attempts s = 1" "info_ok n si" "length blocks = n" "0 < n"
  shows "\<exists>k s' si'. LRU_getReplacementIndex cntlr blocks s si = Inr (k, s', si') \<and> k < n
    \<and> ordered n (m_lru_bits s') \<and> lru_num_attempts s' = 1 \<and> info_ok n si'"
proof (cases "first_invalid blocks")
  case None
  obtain r where r: "recency r (m_lru_bits s)" "length (m_lru_bits s) = n" using assms(1) by (auto simp: ordered_def)
  let ?k = "lru_search (m_lru_bits s) blocks 0 (0, 0)"
  have k: "?k < n" using lru_search_recency [OF r(1), of blocks] least_recent_bound [OF r(1), of blocks] assms(4,5) r(2) by simp
  then show ?thesis using ordered_move [OF assms(1) k] assms None by (auto simp: LRU_getReplacementIndex_def Let_def info_ok_def incrementAttempt_def)
next
  case (Some i)
  then show ?thesis using ordered_move [OF assms(1), of i] first_invalid_bound [OF Some] assms by (auto simp: LRU_getReplacementIndex_def)
qed

lemma lru_touch:
  assumes "ordered n (m_lru_bits s)" "lru_num_attempts s = 1" "info_ok n si" "k < n"
  shows "\<exists>s' si'. LRU_updateReplacementIndex k s si = Inr (s', si') \<and> ordered n (m_lru_bits s') \<and> lru_num_attempts s' = 1 \<and> info_ok n si'"
  using ordered_move [OF assms(1,4)] ordered_small [OF assms(1,4)] assms
  by (auto simp: LRU_updateReplacementIndex_def si_increment_def info_ok_def ordered_def)

lemma mru_choose:
  assumes "ordered n bits" "length blocks = n" "settled blocks" "0 < n"
  shows "\<exists>k bits'. MRU_getReplacementIndex blocks bits = Inr (k, bits') \<and> k < n \<and> ordered n bits'"
proof (cases "first_invalid blocks")
  case None
  let ?P = "\<lambda>(x, b). unat (x :: 8 word) = 0 \<and> m_cstate b \<noteq> SHARED_UPGRADING"
  have len: "length bits = n" using assms(1) by (simp add: ordered_def)
  obtain w where w: "w < n" "unat (bits ! w) = 0" using ordered_position [OF assms(1,4)] by auto
  have "(bits ! w, blocks ! w) \<in> set (zip bits blocks)" using w len assms(2) by (auto simp: set_zip)
  then have "first_index ?P (zip bits blocks) \<noteq> None" using w assms(2,3) by (auto simp: first_index_None list_all_length)
  then obtain i where i: "first_index ?P (zip bits blocks) = Some i" by blast
  have "i < n" using first_index_SomeD [OF i] len assms(2) by simp
  moreover obtain m where "n = Suc m" using assms(4) by (cases n) auto
  then have "mru_search blocks bits (length blocks) 0 = Some i" using i assms(2) by simp
  ultimately show ?thesis using ordered_move [OF assms(1), of i] None by (auto simp: MRU_getReplacementIndex_def MRU_updateReplacementIndex_def)
next
  case (Some i)
  then show ?thesis using ordered_move [OF assms(1), of i] first_invalid_bound [OF Some] assms
    by (auto simp: MRU_getReplacementIndex_def MRU_updateReplacementIndex_def)
qed

lemma nmru_search_ok:
  assumes blocks: "length blocks = n" "settled blocks" and n: "0 < n" "n \<le> 256"
  shows "ordered n (nm_lru_bits s) \<Longrightarrow> unat (nm_replacement_pointer s) < n \<Longrightarrow>
    \<exists>j < m. nm_lru_bits s ! ((unat (nm_replacement_pointer s) + j) mod n) \<noteq> 0 \<Longrightarrow>
    \<exists>k s'. nmru_search blocks m s = Inr (k, s') \<and> k < n \<and> ordered n (nm_lru_bits s') \<and> unat (nm_replacement_pointer s') < n"
proof (induction m arbitrary: s)
  case (Suc m)
  let ?p = "unat (nm_replacement_pointer s)" and ?q = "next_way n (nm_replacement_pointer s)"
  have q: "unat ?q = Suc ?p mod n" using next_way_unat [OF n(2,1)] by simp
  then have q_less: "unat ?q < n" using n(1) by simp
  have p: "vec_at (nm_lru_bits s) (uint (nm_replacement_pointer s)) = Some (nm_lru_bits s ! ?p)" "isValidReplacement blocks ?p = Inr True"
    using Suc.prems(1,2) blocks settled_replacement by (simp_all add: ordered_def)
  show ?case
  proof (cases "nm_lru_bits s ! ?p = 0")
    case True
    then obtain j where j: "Suc j < Suc m" "nm_lru_bits s ! ((?p + Suc j) mod n) \<noteq> 0"
      using Suc.prems(2,3) by (metis Nat.add_0_right mod_less not0_implies_Suc)
    then have "nm_lru_bits s ! ((unat ?q + j) mod n) \<noteq> 0" by (simp add: q mod_add_left_eq)
    then show ?thesis using Suc.IH [of "s\<lparr>nm_replacement_pointer := ?q\<rparr>"] Suc.prems(1) j(1) True p blocks(1) n(1)
      by (auto simp: q Let_def)
  next
    case False
    then show ?thesis using ordered_move [OF Suc.prems(1,2)] p blocks(1) q_less Suc.prems(2)
      by (auto simp: Let_def NMRU_updateReplacementIndex_def)
  qed
qed simp

lemma nmru_choose:
  assumes s: "ordered n (nm_lru_bits s)" "unat (nm_replacement_pointer s) < n" and n: "2 \<le> n" "n \<le> 256"
    and blocks: "length blocks = n" "settled blocks"
  shows "\<exists>k s'. NMRU_getReplacementIndex blocks s = Inr (k, s') \<and> k < n \<and> ordered n (nm_lru_bits s') \<and> unat (nm_replacement_pointer s') < n"
proof (cases "first_invalid blocks")
  case None
  let ?P = "\<lambda>k. nm_lru_bits s ! k = 0"
  obtain w where w: "w < n" "unat (nm_lru_bits s ! w) = 1" using ordered_position [OF s(1), of 1] n(1) by auto
  then have "\<not> ?P w" by auto
  with w(1) have "\<exists>j < n. \<not> ?P ((unat (nm_replacement_pointer s) + j) mod n)" using all_ways [OF s(2), of ?P] by blast
  then show ?thesis using nmru_search_ok [OF blocks _ n(2) s, of n] n(1) None blocks(1) by (simp add: NMRU_getReplacementIndex_def)
next
  case (Some i)
  then show ?thesis using ordered_move [OF s(1), of i] first_invalid_bound [OF Some] blocks s(2)
    by (auto simp: NMRU_getReplacementIndex_def NMRU_updateReplacementIndex_def)
qed

subsection \<open>NRU and PLRU\<close>

definition nru_ok :: "nat \<Rightarrow> CacheSetNRU \<Rightarrow> bool" where
  "nru_ok n s \<longleftrightarrow> length (nru_lru_bits s) = n \<and> unat (nru_replacement_pointer s) < n"

lemma nru_touch: "nru_ok n s \<Longrightarrow> k < n \<Longrightarrow> \<exists>s'. NRU_updateReplacementIndex k s = Inr s' \<and> nru_ok n s'"
  by (simp add: NRU_updateReplacementIndex_def nru_ok_def Let_def)

lemma nru_search_ok:
  assumes blocks: "length blocks = n" "settled blocks" and n: "0 < n" "n \<le> 256"
  shows "nru_ok n s \<Longrightarrow> \<exists>j < m. nru_lru_bits s ! ((unat (nru_replacement_pointer s) + j) mod n) = 0 \<or> \<not> z \<Longrightarrow>
    \<exists>k s'. nru_search z blocks m s = Inr (k, s') \<and> k < n \<and> nru_ok n s'"
proof (induction m arbitrary: s)
  case (Suc m)
  let ?p = "unat (nru_replacement_pointer s)" and ?q = "next_way n (nru_replacement_pointer s)"
  let ?s = "s\<lparr>nru_replacement_pointer := ?q\<rparr>"
  have q: "unat ?q = Suc ?p mod n" using next_way_unat [OF n(2,1)] by simp
  then have s: "nru_ok n ?s" "?p < n" using Suc.prems(1) n(1) by (simp_all add: nru_ok_def)
  have p: "vec_at (nru_lru_bits s) (uint (nru_replacement_pointer s)) = Some (nru_lru_bits s ! ?p)" "isValidReplacement blocks ?p = Inr True"
    using Suc.prems(1) blocks settled_replacement by (simp_all add: nru_ok_def)
  show ?case
  proof (cases "nru_lru_bits s ! ?p = 0 \<or> \<not> z")
    case False
    then obtain j where j: "Suc j < Suc m" "nru_lru_bits s ! ((?p + Suc j) mod n) = 0"
      using Suc.prems(2) s(2) by (metis Nat.add_0_right mod_less not0_implies_Suc)
    then have "nru_lru_bits ?s ! ((unat (nru_replacement_pointer ?s) + j) mod n) = 0" by (simp add: q mod_add_left_eq)
    then show ?thesis using Suc.IH [OF s(1)] j(1) False p blocks(1) by (auto simp: Let_def)
  next
    case True
    then show ?thesis using nru_touch [OF s] s(2) p blocks(1) by (auto simp: Let_def)
  qed
qed simp

lemma nru_choose:
  assumes s: "nru_ok n s" and n: "0 < n" "n \<le> 256" and blocks: "length blocks = n" "settled blocks"
  shows "\<exists>k s'. NRU_getReplacementIndex blocks s = Inr (k, s') \<and> k < n \<and> nru_ok n s'"
proof (cases "first_invalid blocks")
  case None
  let ?z = "list_ex (\<lambda>(x, b). x = 0 \<and> m_cstate b \<noteq> SHARED_UPGRADING) (zip (nru_lru_bits s) blocks)"
  have "\<exists>j < n. nru_lru_bits s ! ((unat (nru_replacement_pointer s) + j) mod n) = 0 \<or> \<not> ?z"
  proof (cases ?z)
    case True
    then obtain w where w: "w < n" "nru_lru_bits s ! w = 0" using s blocks(1) by (auto simp: list_ex_iff set_zip nru_ok_def)
    have "unat (nru_replacement_pointer s) < n" using s by (simp add: nru_ok_def)
    from all_ways [OF this, of "\<lambda>w. nru_lru_bits s ! w \<noteq> 0"] w show ?thesis by blast
  qed (use n(1) in auto)
  from nru_search_ok [OF blocks n s this] show ?thesis using None blocks(1) by (simp add: NRU_getReplacementIndex_def)
next
  case (Some i)
  then show ?thesis using nru_touch [OF s, of i] first_invalid_bound [OF Some] blocks by (auto simp: NRU_getReplacementIndex_def)
qed

definition plru_ok :: "nat \<Rightarrow> CacheSetPLRU \<Rightarrow> bool" where
  "plru_ok n s \<longleftrightarrow> (n = 4 \<or> n = 8) \<and> pl_associativity s = n \<and> length (plru_b s) = 8"

lemma plru_touch: "plru_ok n s \<Longrightarrow> \<exists>s'. PLRU_updateReplacementIndex k s = Inr s' \<and> plru_ok n s'"
  by (auto simp: PLRU_updateReplacementIndex_def plru_ok_def)

lemma plru_choose:
  assumes s: "plru_ok n s" and blocks: "length blocks = n" "settled blocks"
  shows "\<exists>k s'. PLRU_getReplacementIndex blocks s = Inr (k, s') \<and> k < n \<and> plru_ok n s'"
proof (cases "first_invalid blocks")
  case None
  have n: "n = 4 \<or> n = 8" "pl_associativity s = n" using s by (simp_all add: plru_ok_def)
  obtain v where v: "plru_victim n (plru_b s) = Inr v" using n by (auto simp: plru_victim_def)
  then have "v < n" by (rule pointing_victim(1) [OF n(1)])
  then show ?thesis using plru_touch [OF s, of v] settled_replacement [OF blocks(2), of v] blocks(1) None v n(2)
    by (auto simp: PLRU_getReplacementIndex_def)
next
  case (Some i)
  then show ?thesis using plru_touch [OF s, of i] first_invalid_bound [OF Some] blocks by (auto simp: PLRU_getReplacementIndex_def)
qed

subsection \<open>SRRIP\<close>

definition srrip_wf :: "nat \<Rightarrow> CacheSetSRRIP \<Rightarrow> bool" where
  "srrip_wf n s \<longleftrightarrow> srrip_ok n s \<and> unat (m_rrip_max s) < n \<and> m_rrip_insert s \<le> m_rrip_max s \<and> (\<forall>x \<in> set (m_rrip_bits s). x \<le> m_rrip_max s)"

lemma srrip_wf_write: "srrip_wf n s \<Longrightarrow> v \<le> m_rrip_max s \<Longrightarrow> srrip_wf n (s\<lparr>m_rrip_bits := (m_rrip_bits s)[k := v]\<rparr>)"
  using set_update_subset_insert [of "m_rrip_bits s" k v] by (auto simp: srrip_wf_def srrip_ok_def)

lemma srrip_wf_next: "srrip_wf n s \<Longrightarrow> 0 < n \<Longrightarrow> n \<le> 256 \<Longrightarrow> srrip_wf n (s\<lparr>sr_replacement_pointer := next_way n p\<rparr>)"
  by (simp add: srrip_wf_def srrip_ok_def next_way_unat)

lemma srrip_scan_wf:
  assumes "length blocks = n" "0 < n" "n \<le> 256"
  shows "srrip_scan cntlr blocks m attempt s si = Inr (found, attempt', s', si') \<Longrightarrow> srrip_wf n s \<Longrightarrow> srrip_wf n s'"
proof (induction m arbitrary: attempt s)
  case (Suc m)
  let ?p = "unat (sr_replacement_pointer s)" and ?s = "s\<lparr>sr_replacement_pointer := next_way n (sr_replacement_pointer s)\<rparr>"
  note next_ok = srrip_wf_next [OF Suc.prems(2) assms(2,3)]
  have "srrip_wf n (s\<lparr>m_rrip_bits := (m_rrip_bits s)[?p := 0]\<rparr>)" by (rule srrip_wf_write [OF Suc.prems(2)]) simp
  moreover have "srrip_wf n (?s\<lparr>m_rrip_bits := (m_rrip_bits ?s)[?p := m_rrip_insert s]\<rparr>)"
    by (rule srrip_wf_write [OF next_ok]) (use Suc.prems(2) in \<open>simp add: srrip_wf_def\<close>)
  ultimately show ?case using Suc.prems(1) next_ok Suc.IH assms(1)
    by (auto simp: Let_def elim!: bindrE split: if_splits option.splits simp del: bindr_Inr)
qed simp

lemma srrip_rounds_wf:
  assumes "length blocks = n" "0 < n" "n \<le> 256"
  shows "srrip_rounds cntlr blocks m attempt s si = Inr (v, s', si') \<Longrightarrow> srrip_wf n s \<Longrightarrow> srrip_wf n s'"
proof (induction m arbitrary: attempt s si)
  case (Suc m)
  from Suc.prems(1) obtain found attempt1 s1 si1 where scan: "srrip_scan cntlr blocks n attempt s si = Inr (found, attempt1, s1, si1)"
    by (auto simp: assms(1) elim!: bindrE simp del: bindr_Inr)
  note s1 = srrip_scan_wf [OF assms scan Suc.prems(2)]
  let ?s = "s1\<lparr>m_rrip_bits := map (\<lambda>x. if x < m_rrip_max s1 then x + 1 else x) (m_rrip_bits s1)\<rparr>"
  have "x + 1 \<le> y" if "x < y" for x y :: "8 word" using that by (rule inc_le)
  then have "srrip_wf n ?s" using s1 by (auto simp: srrip_wf_def srrip_ok_def)
  then show ?case using Suc.prems(1) Suc.IH s1 by (cases found) (auto simp: assms(1) scan)
qed simp

lemma srrip_choose:
  assumes s: "srrip_wf n s" and si: "info_ok n si" and n: "0 < n" "n \<le> 256" and blocks: "length blocks = n" "settled blocks"
  shows "\<exists>k s'. SRRIP_getReplacementIndex cntlr blocks s si = Inr (k, s', si) \<and> k < n \<and> srrip_wf n s'"
proof (cases "first_invalid blocks")
  case None
  have "srrip_ok n s" "m_attempts si = None" using s si by (simp_all add: srrip_wf_def info_ok_def)
  from srrip_rounds_spec [OF blocks n this(2,1) n(1), of "unat (m_rrip_max s)" cntlr] obtain v s'
    where v: "srrip_rounds cntlr blocks (Suc (unat (m_rrip_max s))) 0 s si = Inr (v, s', si)" "v < n" by auto
  then show ?thesis using srrip_rounds_wf [OF blocks(1) n v(1) s] None by (simp add: SRRIP_getReplacementIndex_def del: srrip_rounds.simps)
next
  case (Some i)
  have "m_rrip_insert s \<le> m_rrip_max s" "length (m_rrip_bits s) = n" using s by (simp_all add: srrip_wf_def srrip_ok_def)
  then show ?thesis using srrip_wf_write [OF s, of "m_rrip_insert s" i] first_invalid_bound [OF Some] Some blocks
    by (simp add: SRRIP_getReplacementIndex_def)
qed

lemma srrip_touch:
  assumes s: "srrip_wf n s" and si: "info_ok n si" and k: "k < n"
  shows "\<exists>s' si'. SRRIP_updateReplacementIndex k s si = Inr (s', si') \<and> srrip_wf n s' \<and> info_ok n si'"
proof -
  let ?x = "m_rrip_bits s ! k"
  have len: "length (m_rrip_bits s) = n" using s by (simp add: srrip_wf_def srrip_ok_def)
  then have x: "?x \<le> m_rrip_max s" using s k by (simp add: srrip_wf_def)
  then have "unat ?x < n" using s by (simp add: srrip_wf_def word_le_nat_alt)
  moreover have "?x - 1 \<le> m_rrip_max s" if "0 < ?x"
    using x that by (simp add: word_le_nat_alt unat_minus_one)
  ultimately show ?thesis using srrip_wf_write [OF s, of "?x - 1" k] s si k len
    by (auto simp: SRRIP_updateReplacementIndex_def si_increment_def info_ok_def)
qed

subsection \<open>Round robin and random\<close>

lemma round_robin_choose:
  assumes "unat i < n" "n \<le> 256" "length blocks = n" "settled blocks"
  shows "\<exists>k i'. returned (RoundRobin_getReplacementIndex blocks i) = Inr (k, i') \<and> k < n \<and> unat i' < n"
proof -
  let ?j = "if i = 0 then of_nat (length blocks) - 1 else i - 1"
  have "unat (of_nat n - 1 :: 32 word) = n - 1" using assms(1,2) by (simp add: unat_sub_if' unat_of_nat)
  then have "unat ?j < n" using assms(1,3) by (cases "i = 0") (simp_all add: unat_minus_one)
  then have "isValidReplacement blocks (unat ?j) = Inr True" using settled_replacement [OF assms(4), of "unat ?j"] assms(3) by blast
  then have "RoundRobin_getReplacementIndex blocks i = Some (Inr (unat i, ?j))"
    by (subst RoundRobin_getReplacementIndex.simps) (simp only: Let_def sum.case if_False not_True_eq_False)
  then show ?thesis using \<open>unat ?j < n\<close> assms(1) by (simp only: returned_def option.case) blast
qed

lemma random_choose:
  assumes "0 < n" "length blocks = n" "settled blocks"
  shows "\<exists>k seed'. returned (Random_getReplacementIndex blocks seed) = Inr (k, seed') \<and> k < n"
proof (cases "first_invalid blocks")
  case None
  obtain r seed' where r: "Random_next seed = (r, seed')" by (cases "Random_next seed")
  have "unat r mod length blocks < length blocks" using assms by auto
  then have "random_search blocks seed = Some (Inr (unat r mod length blocks, seed'))"
    using settled_replacement [OF assms(3), of "unat r mod length blocks"] r assms by (subst random_search.simps) (auto simp: Let_def)
  then show ?thesis using None assms by (auto simp: Random_getReplacementIndex_def returned_def)
next
  case (Some i)
  then show ?thesis using first_invalid_bound [OF Some] assms by (simp add: Random_getReplacementIndex_def returned_def)
qed

section \<open>All policies\<close>

fun policy_ok :: "nat \<Rightarrow> policy_state \<Rightarrow> bool" where
  "policy_ok n (Round_Robin_Set i) \<longleftrightarrow> 2 \<le> n \<and> n \<le> 256 \<and> unat i < n"
| "policy_ok n (LRU_Set s) \<longleftrightarrow> 2 \<le> n \<and> n \<le> 256 \<and> ordered n (m_lru_bits s) \<and> lru_num_attempts s = 1"
| "policy_ok n (NRU_Set s) \<longleftrightarrow> 2 \<le> n \<and> n \<le> 256 \<and> nru_ok n s"
| "policy_ok n (MRU_Set bits) \<longleftrightarrow> 2 \<le> n \<and> n \<le> 256 \<and> ordered n bits"
| "policy_ok n (NMRU_Set s) \<longleftrightarrow> 2 \<le> n \<and> n \<le> 256 \<and> ordered n (nm_lru_bits s) \<and> unat (nm_replacement_pointer s) < n"
| "policy_ok n (PLRU_Set s) \<longleftrightarrow> plru_ok n s"
| "policy_ok n (SRRIP_Set s) \<longleftrightarrow> 2 \<le> n \<and> n \<le> 256 \<and> srrip_wf n s"
| "policy_ok n (Random_Set seed) \<longleftrightarrow> 2 \<le> n \<and> n \<le> 256"

lemma policy_pick_ok:
  assumes "policy_ok n p" "info_ok n si" "length blocks = n" "settled blocks"
  shows "\<exists>k p' si'. getReplacementIndex cntlr blocks (p, si) = Inr (k, p', si') \<and> k < n \<and> policy_ok n p' \<and> info_ok n si'"
proof (cases p)
  case (Round_Robin_Set i)
  then show ?thesis using round_robin_choose [of i n blocks] assms by auto
next
  case (LRU_Set s)
  then show ?thesis using lru_choose [of n s si blocks cntlr] assms by auto
next
  case (NRU_Set s)
  then show ?thesis using nru_choose [of n s blocks] assms by auto
next
  case (MRU_Set bits)
  then show ?thesis using mru_choose [of n bits blocks] assms by auto
next
  case (NMRU_Set s)
  then show ?thesis using nmru_choose [of n s blocks] assms by auto
next
  case (PLRU_Set s)
  then show ?thesis using plru_choose [of n s blocks] assms by auto
next
  case (SRRIP_Set s)
  then show ?thesis using srrip_choose [of n s si blocks cntlr] assms by auto
next
  case (Random_Set seed)
  then show ?thesis using random_choose [of n blocks seed] assms by auto
qed

lemma policy_touch_ok:
  assumes "policy_ok n p" "info_ok n si" "k < n"
  shows "\<exists>p' si'. updateReplacementIndex k (p, si) = Inr (p', si') \<and> policy_ok n p' \<and> info_ok n si'"
proof (cases p)
  case (LRU_Set s)
  then show ?thesis using lru_touch [of n s si k] assms by auto
next
  case (NRU_Set s)
  then show ?thesis using nru_touch [of n s k] assms by auto
next
  case (MRU_Set bits)
  then show ?thesis using ordered_move [of n bits k] assms by (auto simp: MRU_updateReplacementIndex_def)
next
  case (NMRU_Set s)
  then show ?thesis using ordered_move [of n "nm_lru_bits s" k] assms by (auto simp: NMRU_updateReplacementIndex_def)
next
  case (PLRU_Set s)
  then show ?thesis using plru_touch [of n s k] assms by auto
next
  case (SRRIP_Set s)
  then show ?thesis using srrip_touch [of n s si k] assms by auto
qed (use assms in auto)

interpretation policies: replacement policy_ok info_ok getReplacementIndex updateReplacementIndex
  by unfold_locales (use policy_pick_ok policy_touch_ok in blast)+

text \<open>The configurations without query-based selection.\<close>

definition policy_fits :: "ReplacementPolicy \<Rightarrow> policy_config \<Rightarrow> nat \<Rightarrow> bool" where
  "policy_fits policy cfg n \<longleftrightarrow> 2 \<le> n \<and> n \<le> 256 \<and> getNumQBSAttempts policy cfg = 1
     \<and> (policy = SRRIP \<or> policy = SRRIP_QBS \<longrightarrow> 0 < srrip_bits cfg \<and> 2 ^ unat (srrip_bits cfg) \<le> n)"

lemma srrip_new:
  assumes "0 < b" "2 ^ unat b \<le> n" "n \<le> 256" "2 \<le> n"
  shows "srrip_wf n (new_CacheSetSRRIP n b 1)"
proof -
  have pos: "0 < unat b" using assms(1) by (simp add: word_less_nat_alt)
  have "(2 :: nat) ^ unat b \<le> 2 ^ 8" using assms(2,3) by simp
  then have "unat b \<le> 8" by (simp only: power_increasing_iff)
  then have "unat b = 8 \<or> unat b < 8" by auto
  then have top: "unat (push_bit (unat b) 1 - 1 :: 8 word) = 2 ^ unat b - 1"
  proof
    assume "unat b = 8"
    then show ?thesis by simp
  next
    assume "unat b < 8"
    then have "(2 :: nat) ^ unat b < 2 ^ 8" by (intro power_strict_increasing) simp_all
    moreover have "push_bit (unat b) 1 = (of_nat (2 ^ unat b) :: 8 word)" by (simp add: push_bit_eq_mult)
    ultimately have "unat (push_bit (unat b) 1 :: 8 word) = 2 ^ unat b" by (simp only: unat_of_nat) simp
    then show ?thesis by (metis One_nat_def power_not_zero unat_0 unat_minus_one zero_neq_numeral)
  qed
  define m where "m = (push_bit (unat b) 1 - 1 :: 8 word)"
  have "(2 :: nat) ^ 1 \<le> 2 ^ unat b" by (rule power_increasing) (use pos in simp_all)
  then have unat_m: "unat m \<noteq> 0" "unat m < n" using top [folded m_def] assms(2) by auto
  then have "m \<noteq> 0" by auto
  then have "m - 1 \<le> m" by (simp add: word_le_nat_alt unat_minus_one)
  then show ?thesis using assms(4) unat_m unfolding new_CacheSetSRRIP_def Let_def m_def [symmetric] by (simp add: srrip_wf_def srrip_ok_def)
qed

lemma new_policy_ok:
  assumes "new_policy policy cfg n = Inr p" "policy_fits policy cfg n"
  shows "policy_ok n p"
proof -
  have n: "2 \<le> n" "n \<le> 256" "getNumQBSAttempts policy cfg = 1" using assms(2) by (simp_all add: policy_fits_def)
  have "ordered n (map of_nat [0..<n])" using recency_initial [OF n(2)] by (auto simp: ordered_def)
  moreover have "unat (of_nat n - 1 :: 32 word) = n - 1" using n(1,2) by (simp add: unat_sub_if' unat_of_nat)
  moreover have "srrip_wf n (new_CacheSetSRRIP n (srrip_bits cfg) 1)" if "policy = SRRIP \<or> policy = SRRIP_QBS"
    using srrip_new [of "srrip_bits cfg" n] assms(2) that by (simp add: policy_fits_def)
  ultimately show ?thesis using assms(1) n
    by (cases policy) (auto simp: new_CacheSetLRU_def new_CacheSetNRU_def nru_ok_def new_CacheSetNMRU_def new_CacheSetPLRU_def plru_ok_def
        split: if_splits)
qed

lemma new_info_ok: "policy_fits policy cfg n \<Longrightarrow> info_ok n (new_CacheSetInfoLRU n (getNumQBSAttempts policy cfg))"
  by (simp add: info_ok_def new_CacheSetInfoLRU_def policy_fits_def)



end
