(* ===== verification/Cache_Lines.thy ===== *)
theory Cache_Lines
  imports Policy_Contract
begin

text \<open>
  A cache with its sets, tags and replacement policy against what its controller sees: a map from
  lines to coherence states, in which an insertion may displace one line of the same set.
\<close>

section \<open>Logarithms and addresses\<close>

lemma high_half:
  fixes x :: "32 word"
  assumes "unat x < 2 ^ (2 * h)"
  shows "x AND push_bit h (mask h) \<noteq> 0 \<longleftrightarrow> 2 ^ h \<le> unat x"
proof -
  have small: "i < 2 * h" if "bit x i" for i
    using assms that bit_take_bit_iff [of "2 * h" "unat x" i] by (simp add: bit_unsigned_iff take_bit_nat_eq_self)
  have "x AND push_bit h (mask h) = push_bit h (drop_bit h x)"
    by (rule bit_word_eqI) (use small in \<open>fastforce simp: bit_simps\<close>)
  moreover have "drop_bit h (push_bit h (drop_bit h x)) = drop_bit h x"
    by (rule bit_word_eqI) (use bit_imp_le_length [of x] in \<open>fastforce simp: bit_simps\<close>)
  then have "push_bit h (drop_bit h x) = 0 \<longleftrightarrow> drop_bit h x = 0" by (metis drop_bit_of_0 push_bit_of_0)
  moreover have "drop_bit h x = 0 \<longleftrightarrow> unat x div 2 ^ h = 0"
    by (metis drop_bit_eq_div unat_0 unat_drop_bit_eq unat_eq_zero)
  ultimately show ?thesis by (auto simp: div_eq_0_iff)
qed

lemma floorLog2_step:
  fixes x :: "32 word"
  assumes "unat n div 2 ^ p = unat x" "x \<noteq> 0" "unat x < 2 ^ (2 * h)" "M = push_bit h (mask h)" "a = int p" "b = int p + int h"
  shows "\<exists>q y. (if x AND M \<noteq> 0 then (b, drop_bit h x) else (a, x)) = (int q, y)
    \<and> unat n div 2 ^ q = unat y \<and> y \<noteq> 0 \<and> unat y < 2 ^ h"
proof (cases "2 ^ h \<le> unat x")
  case True
  then have "unat x div 2 ^ h \<noteq> 0" by (simp add: div_eq_0_iff)
  moreover have y: "unat (drop_bit h x) = unat x div 2 ^ h" by (rule unat_drop_bit_eq [THEN trans]) (simp add: drop_bit_eq_div)
  moreover have "unat n div 2 ^ (p + h) = unat x div 2 ^ h" using assms(1) by (simp add: power_add div_mult2_eq)
  moreover have "unat x div 2 ^ h < 2 ^ h" using assms(3) by (simp add: less_mult_imp_div_less power_add mult_2)
  ultimately show ?thesis using high_half [OF assms(3)] True assms(4-6)
    by (intro exI [of _ "p + h"] exI [of _ "drop_bit h x"]) (auto simp del: unat_drop_bit_eq)
next
  case False
  then show ?thesis using high_half [OF assms(3)] assms by (intro exI [of _ p] exI [of _ x]) auto
qed

lemma floorLog2_correct:
  assumes "n \<noteq> 0"
  shows "\<exists>k. floorLog2 n = int k \<and> 2 ^ k \<le> unat n \<and> unat n < 2 ^ Suc k"
proof -
  have bound: "unat n < 2 ^ (2 * 16)" using unsigned_less [of n] by simp
  obtain p1 n1 where 1: "(if n AND 0xffff0000 \<noteq> 0 then (16, drop_bit 16 n) else (0, n)) = (int p1, n1)"
    "unat n div 2 ^ p1 = unat n1" "n1 \<noteq> 0" "unat n1 < 2 ^ (2 * 8)"
    using floorLog2_step [of n 0 n 16 "0xffff0000" 0 16] assms bound by (auto simp: mask_eq_exp_minus_1 push_bit_eq_mult)
  obtain p2 n2 where 2: "(if n1 AND 0x0000ff00 \<noteq> 0 then (int p1 + 8, drop_bit 8 n1) else (int p1, n1)) = (int p2, n2)"
    "unat n div 2 ^ p2 = unat n2" "n2 \<noteq> 0" "unat n2 < 2 ^ (2 * 4)"
    using floorLog2_step [OF 1(2-4), of "0x0000ff00" "int p1" "int p1 + 8"] by (auto simp: mask_eq_exp_minus_1 push_bit_eq_mult)
  obtain p3 n3 where 3: "(if n2 AND 0x000000f0 \<noteq> 0 then (int p2 + 4, drop_bit 4 n2) else (int p2, n2)) = (int p3, n3)"
    "unat n div 2 ^ p3 = unat n3" "n3 \<noteq> 0" "unat n3 < 2 ^ (2 * 2)"
    using floorLog2_step [OF 2(2-4), of "0x000000f0" "int p2" "int p2 + 4"] by (auto simp: mask_eq_exp_minus_1 push_bit_eq_mult)
  obtain p4 n4 where 4: "(if n3 AND 0x0000000c \<noteq> 0 then (int p3 + 2, drop_bit 2 n3) else (int p3, n3)) = (int p4, n4)"
    "unat n div 2 ^ p4 = unat n4" "n4 \<noteq> 0" "unat n4 < 2 ^ (2 * 1)"
    using floorLog2_step [OF 3(2-4), of "0x0000000c" "int p3" "int p3 + 2"] by (auto simp: mask_eq_exp_minus_1 push_bit_eq_mult)
  obtain p5 n5 where 5: "(if n4 AND 0x00000002 \<noteq> 0 then (int p4 + 1, drop_bit 1 n4) else (int p4, n4)) = (int p5, n5)"
    "unat n div 2 ^ p5 = unat n5" "n5 \<noteq> 0" "unat n5 < 2 ^ 1"
    using floorLog2_step [OF 4(2-4), of "0x00000002" "int p4" "int p4 + 1"] by (auto simp: mask_eq_exp_minus_1 push_bit_eq_mult)
  have "floorLog2 n = fst (if n4 AND 0x00000002 \<noteq> 0 then (int p4 + 1, drop_bit 1 n4) else (int p4, n4))"
    unfolding floorLog2_def Let_def using assms by (simp only: 1(1) 2(1) 3(1) 4(1) prod.case if_False) simp
  then have "floorLog2 n = int p5" by (simp only: 5(1) fst_conv)
  moreover have "unat n5 \<noteq> 0" using 5(3) by (simp add: unat_eq_zero)
  then have "unat n5 = 1" using 5(4) by simp
  then have "unat n div 2 ^ p5 = 1" using 5(2) by simp
  then have "2 ^ p5 \<le> unat n \<and> unat n < 2 ^ Suc p5"
    using div_less_iff_less_mult [of "2 ^ p5" "unat n" 2] div_less_iff_less_mult [of "2 ^ p5" "unat n" 1] by auto
  ultimately show ?thesis by blast
qed

text \<open>The parameters of a cache under which every address has a set.\<close>

definition base_ok :: "CacheBase \<Rightarrow> bool" where
  "base_ok c \<longleftrightarrow> m_hash c \<noteq> HASH_XOR_MOD \<and> m_hash c \<noteq> HASH_MER_MOD \<and> m_num_sets c \<noteq> 0
     \<and> 0 < unat (m_log_blocksize c) \<and> unat (m_log_blocksize c) < 32 \<and> unat (m_log_num_sets c) < 32
     \<and> (case m_ahl c of None \<Rightarrow> True
        | Some h \<Rightarrow> m_core_list h \<noteq> [] \<and> unat (m_log_blocksize c) \<le> m_ahl_param h \<and> m_ahl_param h < 64)"

definition ahl_fits :: "32 word \<Rightarrow> AddressHomeLookup \<Rightarrow> bool" where
  "ahl_fits blocksize h \<longleftrightarrow> m_core_list h \<noteq> [] \<and> unat blocksize < 2 ^ Suc (m_ahl_param h) \<and> m_ahl_param h < 64"

lemma unat_32: "unat (x :: 32 word) < 4294967296"
  using unsigned_less [of x] by simp

lemma unat_widen: "unat (ucast (x :: 32 word) :: 64 word) = unat x"
  using unat_32 [of x] by (simp add: unsigned_ucast_eq take_bit_nat_eq_self)

lemma log_word:
  assumes "n \<noteq> 0"
  shows "unat (of_int (floorLog2 n) :: 32 word) < 32" "2 ^ unat (of_int (floorLog2 n) :: 32 word) \<le> unat n"
    "2 \<le> unat n \<Longrightarrow> 0 < unat (of_int (floorLog2 n) :: 32 word)"
proof -
  obtain k where k: "floorLog2 n = int k" "2 ^ k \<le> unat n" "unat n < 2 ^ Suc k" using floorLog2_correct [OF assms] by blast
  have "(2 :: nat) ^ k < 2 ^ 32" using k(2) unat_32 [of n] by simp
  then have "k < 32" by (simp only: power_strict_increasing_iff)
  then have "unat (of_int (floorLog2 n) :: 32 word) = k" by (simp add: k(1) unat_of_nat)
  then show "unat (of_int (floorLog2 n) :: 32 word) < 32" "2 ^ unat (of_int (floorLog2 n) :: 32 word) \<le> unat n"
    "2 \<le> unat n \<Longrightarrow> 0 < unat (of_int (floorLog2 n) :: 32 word)" using k \<open>k < 32\<close> by (simp_all, cases k) auto
qed

lemma new_CacheBase_ok:
  assumes "new_CacheBase num_sets associativity blocksize hash ahl = Inr c" and "hash \<noteq> HASH_XOR_MOD" "hash \<noteq> HASH_MER_MOD"
    and "num_sets \<noteq> 0" "2 \<le> unat blocksize" "case ahl of None \<Rightarrow> True | Some h \<Rightarrow> ahl_fits blocksize h"
  shows "base_ok c"
proof -
  have bs: "blocksize \<noteq> 0" using assms(5) by auto
  have "unat (of_int (floorLog2 blocksize) :: 32 word) \<le> m_ahl_param h" if "ahl = Some h" for h
  proof -
    have "(2 :: nat) ^ unat (of_int (floorLog2 blocksize) :: 32 word) < 2 ^ Suc (m_ahl_param h)"
      using log_word(2) [OF bs] assms(6) that by (simp add: ahl_fits_def)
    then show ?thesis by (simp only: power_strict_increasing_iff)
  qed
  then show ?thesis using assms log_word [OF bs] log_word(1) [OF assms(4)]
    by (auto simp: new_CacheBase_def base_ok_def ahl_fits_def split: if_splits option.splits)
qed

lemma word_mod_less: "b \<noteq> 0 \<Longrightarrow> \<exists>r. word_mod a b = Inr r \<and> r < b"
  by (simp add: word_mod_def word_mod_less_divisor word_greater_zero_iff)

lemma word_shr_ok: "unat k < 64 \<Longrightarrow> word_shr a k = Inr (drop_bit (unat k) a)"
  by (simp add: word_shr_def)

lemma hash_set_ok:
  assumes "base_ok c"
  shows "\<exists>i. hash_set c b = Inr i \<and> i < ucast (m_num_sets c)"
proof -
  let ?n = "ucast (m_num_sets c) :: 64 word"
  have "unat ?n \<noteq> 0" using assms by (simp add: base_ok_def unat_widen unat_eq_zero)
  then have n: "?n \<noteq> 0" by auto
  have "unat (b AND ucast (m_num_sets c - 1)) \<le> unat (ucast (m_num_sets c - 1) :: 64 word)"
    using word_and_le2 [of b "ucast (m_num_sets c - 1)"] word_and_le1 [of b "ucast (m_num_sets c - 1)"] by (simp add: word_le_nat_alt)
  also have "\<dots> = unat (m_num_sets c) - 1" using assms by (simp add: base_ok_def unat_minus_one unat_widen)
  also have "\<dots> < unat ?n" using assms by (simp add: base_ok_def unat_widen unat_gt_0)
  finally have "b AND ucast (m_num_sets c - 1) < ?n" by (simp add: word_less_nat_alt)
  moreover have "unat (m_log_num_sets c) < 64" using assms by (simp add: base_ok_def)
  ultimately show ?thesis using assms word_mod_less [OF n] word_shr_ok
    by (cases "m_hash c") (auto simp: hash_set_def base_ok_def Let_def word_mod_def n word_mod_less_divisor word_greater_zero_iff)
qed

text \<open>The line of an address: its set and its tag.\<close>

definition line_of :: "CacheBase \<Rightarrow> 64 word \<Rightarrow> nat \<times> 64 word" where
  "line_of c addr = (case splitAddress c addr of Inl e \<Rightarrow> (0, 0) | Inr (tag, i) \<Rightarrow> (unat i, tag))"

lemma drop_bit_not_full: "0 < k \<Longrightarrow> drop_bit k (a :: 64 word) \<noteq> NOT 0"
proof
  assume k: "0 < k" and "drop_bit k a = NOT 0"
  then have "bit (drop_bit k a) 63" by (simp add: bit_simps)
  then show False using k bit_imp_le_length [of a "k + 63"] by (simp add: bit_simps)
qed

lemma linear_ok:
  assumes "base_ok c"
  shows "\<exists>b. (case m_ahl c of None \<Rightarrow> Inr addr | Some h \<Rightarrow> getLinearAddress h addr) = Inr b"
  using assms by (auto simp: base_ok_def getLinearAddress_def getLinearBlock_def split: option.splits)

lemma split_ok:
  assumes "base_ok c"
  shows "\<exists>i. splitAddress c addr = Inr (drop_bit (unat (m_log_blocksize c)) addr, i) \<and> unat i < unat (m_num_sets c)"
proof -
  obtain b where b: "(case m_ahl c of None \<Rightarrow> Inr addr | Some h \<Rightarrow> getLinearAddress h addr) = Inr b" using linear_ok [OF assms] by blast
  have shr: "word_shr x (m_log_blocksize c) = Inr (drop_bit (unat (m_log_blocksize c)) x)" for x
    by (rule word_shr_ok) (use assms in \<open>simp add: base_ok_def\<close>)
  obtain i where i: "hash_set c (drop_bit (unat (m_log_blocksize c)) b) = Inr i" "i < ucast (m_num_sets c)" using hash_set_ok [OF assms] by blast
  then have less: "unat i < unat (m_num_sets c)" using unat_widen [of "m_num_sets c"] by (simp add: word_less_nat_alt)
  then have "unat (ucast i :: 32 word) = unat i" using unat_32 [of "m_num_sets c"] by (simp add: unsigned_ucast_eq take_bit_nat_eq_self)
  then show ?thesis using b shr i(1) less by (simp add: splitAddress_def)
qed

lemma line_of_ok:
  assumes "base_ok c"
  shows "fst (line_of c addr) < unat (m_num_sets c)" "snd (line_of c addr) \<noteq> NOT 0"
    "snd (line_of c addr) = drop_bit (unat (m_log_blocksize c)) addr"
    "\<exists>i. splitAddress c addr = Inr (snd (line_of c addr), i) \<and> unat i = fst (line_of c addr)"
proof -
  have l: "0 < unat (m_log_blocksize c)" using assms by (simp add: base_ok_def)
  obtain i where "splitAddress c addr = Inr (drop_bit (unat (m_log_blocksize c)) addr, i)" "unat i < unat (m_num_sets c)"
    using split_ok [OF assms] by blast
  then show "fst (line_of c addr) < unat (m_num_sets c)" "snd (line_of c addr) \<noteq> NOT 0"
    "snd (line_of c addr) = drop_bit (unat (m_log_blocksize c)) addr"
    "\<exists>i. splitAddress c addr = Inr (snd (line_of c addr), i) \<and> unat i = fst (line_of c addr)"
    using drop_bit_not_full [OF l, of addr] by (simp_all add: line_of_def)
qed

text \<open>The address rebuilt from a tag lies in the same line.\<close>

lemma drop_clear:
  fixes a :: "64 word"
  assumes "l \<le> p"
  shows "drop_bit p (push_bit l (drop_bit l a)) = drop_bit p a"
  by (rule bit_word_eqI) (use assms in \<open>auto simp: bit_simps dest: bit_imp_le_length\<close>)

lemma drop_linear:
  fixes a :: "64 word"
  assumes "l \<le> p"
  shows "drop_bit l (push_bit p b OR (push_bit l (drop_bit l a) AND m)) = drop_bit l (push_bit p b OR (a AND m))"
  by (rule bit_word_eqI) (use assms in \<open>auto simp: bit_simps dest: bit_imp_le_length\<close>)

lemma line_of_canonical:
  assumes "base_ok c"
  shows "line_of c (tagToAddress c (snd (line_of c addr))) = line_of c addr"
proof -
  let ?l = "unat (m_log_blocksize c)"
  have l: "?l < 64" using assms by (simp add: base_ok_def)
  have "splitAddress c (push_bit ?l (drop_bit ?l addr)) = splitAddress c addr"
  proof (cases "m_ahl c")
    case None
    then show ?thesis by (simp add: splitAddress_def word_shr_def drop_clear)
  next
    case (Some h)
    then have "?l \<le> m_ahl_param h" "m_core_list h \<noteq> []" using assms by (simp_all add: base_ok_def)
    then show ?thesis using Some l
      by (simp add: splitAddress_def word_shr_def drop_clear drop_linear getLinearAddress_def getLinearBlock_def del: drop_bit_push_bit drop_bit_or)
  qed
  then show ?thesis by (simp add: line_of_ok(3) [OF assms] tagToAddress_def) (simp add: line_of_def)
qed


section \<open>Contents of a set\<close>

definition distinct_tags :: "CacheBlockInfo list \<Rightarrow> bool" where
  "distinct_tags blocks \<longleftrightarrow> (\<forall>j < length blocks. \<forall>k < length blocks. m_tag (blocks ! j) = m_tag (blocks ! k) \<longrightarrow> m_tag (blocks ! j) \<noteq> NOT 0 \<longrightarrow> j = k)"

definition content :: "CacheBlockInfo list \<Rightarrow> 64 word \<Rightarrow> cstate_t option" where
  "content blocks tag = (if tag = NOT 0 then None else map_option (\<lambda>k. m_cstate (blocks ! k)) (set_find tag blocks))"

lemma set_find_Some:
  assumes "set_find tag blocks = Some k"
  shows "k < length blocks \<and> m_tag (blocks ! k) = tag"
proof -
  obtain i where i: "first_index (\<lambda>b. m_tag b = tag) (rev blocks) = Some i" "k = length blocks - 1 - i"
    using assms by (auto simp: set_find_def)
  show ?thesis using first_index_SomeD [OF i(1)] i(2) by (auto simp: rev_nth)
qed

lemma set_find_None: "set_find tag blocks = None \<longleftrightarrow> (\<forall>b \<in> set blocks. m_tag b \<noteq> tag)"
  by (simp add: set_find_def first_index_None)

lemma content_iff:
  assumes "distinct_tags blocks"
  shows "content blocks tag = Some s \<longleftrightarrow> tag \<noteq> NOT 0 \<and> (\<exists>k < length blocks. m_tag (blocks ! k) = tag \<and> m_cstate (blocks ! k) = s)"
proof (cases "set_find tag blocks")
  case None
  then show ?thesis using set_find_None [of tag blocks] by (auto simp: content_def)
next
  case (Some k)
  note k = set_find_Some [OF Some]
  have "j = k" if "tag \<noteq> NOT 0" "j < length blocks" "m_tag (blocks ! j) = tag" for j
    using assms [unfolded distinct_tags_def, rule_format, of j k] k that by simp
  then show ?thesis using k by (auto simp: content_def Some)
qed

lemma content_None: "tag \<noteq> NOT 0 \<Longrightarrow> content blocks tag = None \<longleftrightarrow> (\<forall>k < length blocks. m_tag (blocks ! k) \<noteq> tag)"
  unfolding all_set_conv_all_nth [of blocks "\<lambda>b. m_tag b \<noteq> tag", symmetric] set_find_None [symmetric] by (simp add: content_def)

lemma distinct_tags_update:
  assumes "distinct_tags blocks" "k < length blocks" "m_tag b = NOT 0 \<or> (\<forall>j < length blocks. j \<noteq> k \<longrightarrow> m_tag (blocks ! j) \<noteq> m_tag b)"
  shows "distinct_tags (blocks[k := b])"
  unfolding distinct_tags_def
proof (intro allI impI)
  fix i j assume ij: "i < length (blocks[k := b])" "j < length (blocks[k := b])"
    "m_tag (blocks[k := b] ! i) = m_tag (blocks[k := b] ! j)" "m_tag (blocks[k := b] ! i) \<noteq> NOT 0"
  consider "i = k" "j = k" | "i = k" "j \<noteq> k" | "i \<noteq> k" "j = k" | "i \<noteq> k" "j \<noteq> k" by blast
  then show "i = j"
  proof cases
    case 2
    then have "m_tag b \<noteq> NOT 0" "m_tag (blocks ! j) = m_tag b" using ij(3,4) assms(2) by simp_all
    then show ?thesis using assms(3) ij(2) 2 by simp
  next
    case 3
    then have "m_tag b \<noteq> NOT 0" "m_tag (blocks ! i) = m_tag b" using ij(3,4) assms(2) by simp_all
    then show ?thesis using assms(3) ij(1) 3 by simp
  next
    case 4
    then have "m_tag (blocks ! i) = m_tag (blocks ! j)" "m_tag (blocks ! i) \<noteq> NOT 0" "i < length blocks" "j < length blocks" using ij by simp_all
    then show ?thesis using assms(1) unfolding distinct_tags_def by blast
  qed simp
qed

lemma content_update:
  assumes dist: "distinct_tags blocks" and k: "k < length blocks"
    and b: "m_tag b = NOT 0 \<or> (\<forall>j < length blocks. j \<noteq> k \<longrightarrow> m_tag (blocks ! j) \<noteq> m_tag b)"
  shows "content (blocks[k := b]) = (\<lambda>tag. if tag = NOT 0 then None else if tag = m_tag b then Some (m_cstate b)
    else if tag = m_tag (blocks ! k) then None else content blocks tag)"
proof
  fix tag
  note new = content_iff [OF distinct_tags_update [OF assms]]
  have "content (blocks[k := b]) tag = Some s \<longleftrightarrow> (if tag = NOT 0 then None else if tag = m_tag b then Some (m_cstate b)
    else if tag = m_tag (blocks ! k) then None else content blocks tag) = Some s" for s
    unfolding new using k b dist by (auto simp: content_iff [OF dist] nth_list_update distinct_tags_def split: if_splits)
  then show "content (blocks[k := b]) tag = (if tag = NOT 0 then None else if tag = m_tag b then Some (m_cstate b)
    else if tag = m_tag (blocks ! k) then None else content blocks tag)" by (metis option.exhaust)
qed


section \<open>The invariant of a cache\<close>

definition stable :: "cstate_t \<Rightarrow> bool" where
  "stable s \<longleftrightarrow> s \<noteq> INVALID \<and> s \<noteq> SHARED_UPGRADING"

text \<open>A line may stand at a way of the set \<open>i\<close>: it is invalid, or in a stable state and in its own set.\<close>

definition block_ok :: "CacheBase \<Rightarrow> nat \<Rightarrow> CacheBlockInfo \<Rightarrow> bool" where
  "block_ok base i b \<longleftrightarrow>
     (if m_tag b = NOT 0 then m_cstate b \<noteq> SHARED_UPGRADING
      else stable (m_cstate b) \<and> line_of base (tagToAddress base (m_tag b)) = (i, m_tag b))"

definition blocks_ok :: "CacheBase \<Rightarrow> nat \<Rightarrow> CacheBlockInfo list \<Rightarrow> bool" where
  "blocks_ok base i blocks \<longleftrightarrow> length blocks = unat (m_associativity base) \<and> distinct_tags blocks \<and> list_all (block_ok base i) blocks"

definition set_ok :: "CacheBase \<Rightarrow> nat \<Rightarrow> CacheSet \<Rightarrow> bool" where
  "set_ok base i s \<longleftrightarrow> blocks_ok base i (cs_blocks s) \<and> policy_ok (unat (m_associativity base)) (cs_policy s) \<and> cs_blocksize s = m_blocksize base"

definition cache_ok :: "Cache \<Rightarrow> bool" where
  "cache_ok c \<longleftrightarrow> base_ok (CacheBase.truncate c) \<and> length (m_sets c) = unat (m_num_sets c)
     \<and> info_ok (unat (m_associativity c)) (m_set_info c) \<and> (\<forall>i < length (m_sets c). set_ok (CacheBase.truncate c) i (m_sets c ! i))"

definition lines :: "Cache \<Rightarrow> nat \<times> 64 word \<Rightarrow> cstate_t option" where
  "lines c l = (if fst l < length (m_sets c) then content (cs_blocks (m_sets c ! fst l)) (snd l) else None)"

abbreviation line :: "Cache \<Rightarrow> 64 word \<Rightarrow> nat \<times> 64 word" where
  "line c \<equiv> line_of (CacheBase.truncate c)"

lemma blocks_ok_settled: "blocks_ok base i blocks \<Longrightarrow> settled blocks"
  by (auto simp: blocks_ok_def block_ok_def stable_def list_all_iff split: if_splits)

lemma blocks_ok_update:
  assumes "blocks_ok base i blocks" "k < length blocks" "block_ok base i b"
    "m_tag b = NOT 0 \<or> (\<forall>j < length blocks. j \<noteq> k \<longrightarrow> m_tag (blocks ! j) \<noteq> m_tag b)"
  shows "blocks_ok base i (blocks[k := b])"
proof -
  have "distinct_tags (blocks[k := b])" using distinct_tags_update [OF _ assms(2,4)] assms(1) by (simp add: blocks_ok_def)
  moreover have "list_all (block_ok base i) (blocks[k := b])"
    using assms(1,3) set_update_subset_insert [of blocks k b] by (auto simp: blocks_ok_def list_all_iff)
  ultimately show ?thesis using assms(1) by (simp add: blocks_ok_def)
qed

lemma content_stable:
  assumes "blocks_ok base i blocks" "content blocks tag = Some s"
  shows "stable s" "line_of base (tagToAddress base tag) = (i, tag)"
proof -
  obtain k where "tag \<noteq> NOT 0" "k < length blocks" "m_tag (blocks ! k) = tag" "m_cstate (blocks ! k) = s"
    using assms content_iff [of blocks tag s] by (auto simp: blocks_ok_def)
  moreover from this have "block_ok base i (blocks ! k)" using assms(1) by (simp add: blocks_ok_def list_all_length)
  ultimately show "stable s" "line_of base (tagToAddress base tag) = (i, tag)" by (auto simp: block_ok_def)
qed

lemma cache_ok_update:
  assumes "cache_ok c" "i < length (m_sets c)" "set_ok (CacheBase.truncate c) i s" "info_ok (unat (m_associativity c)) si"
  shows "cache_ok (c\<lparr>m_sets := (m_sets c)[i := s], m_set_info := si\<rparr>)"
  using assms by (auto simp: cache_ok_def nth_list_update CacheBase.truncate_def)

lemma cache_ok_set:
  assumes "cache_ok c" "i < length (m_sets c)" "set_ok (CacheBase.truncate c) i s"
  shows "cache_ok (c\<lparr>m_sets := (m_sets c)[i := s]\<rparr>)"
  using assms by (auto simp: cache_ok_def nth_list_update CacheBase.truncate_def)

lemma lines_update:
  assumes "i < length (m_sets c)" "m_sets c' = (m_sets c)[i := s]"
  shows "lines c' = (\<lambda>l. if fst l = i then content (cs_blocks s) (snd l) else lines c l)"
  using assms by (auto simp: lines_def nth_list_update)

lemma lines_keep:
  assumes "i < length (m_sets c)" "m_sets c' = (m_sets c)[i := s]" "cs_blocks s = cs_blocks (m_sets c ! i)"
  shows "lines c' = lines c"
  using assms by (auto simp: lines_def nth_list_update)

lemma truncate_sets [simp]: "CacheBase.truncate (c\<lparr>m_sets := x\<rparr>) = CacheBase.truncate c"
  "CacheBase.truncate (c\<lparr>m_set_info := y\<rparr>) = CacheBase.truncate c"
  by (simp_all add: CacheBase.truncate_def)

lemma locate_ok:
  assumes "cache_ok c" "line c addr = (i, tag)"
  shows "locate e c addr = Inr (tag, i, m_sets c ! i)" "i < length (m_sets c)" "tag \<noteq> NOT 0"
    "set_ok (CacheBase.truncate c) i (m_sets c ! i)" "lines c (i, tag) = content (cs_blocks (m_sets c ! i)) tag"
proof -
  have base: "base_ok (CacheBase.truncate c)" "m_num_sets (CacheBase.truncate c) = m_num_sets c"
    using assms(1) by (simp_all add: cache_ok_def CacheBase.truncate_def)
  note l = line_of_ok [OF base(1), of addr, unfolded assms(2) fst_conv snd_conv base(2)]
  show i: "i < length (m_sets c)" using l(1) assms(1) by (simp add: cache_ok_def)
  then show "locate e c addr = Inr (tag, i, m_sets c ! i)" using l(4) by (auto simp: locate_def)
  show "tag \<noteq> NOT 0" by (rule l(2))
  show "set_ok (CacheBase.truncate c) i (m_sets c ! i)" using assms(1) i by (simp add: cache_ok_def)
  show "lines c (i, tag) = content (cs_blocks (m_sets c ! i)) tag" using i by (simp add: lines_def)
qed

lemma find_content:
  assumes "tag \<noteq> NOT 0"
  shows "content blocks tag = map_option (\<lambda>k. m_cstate (blocks ! k)) (set_find tag blocks)"
  using assms by (simp add: content_def)


section \<open>The cache as a map of lines\<close>

text \<open>The operations a controller performs on its cache, and their results.\<close>

datatype cache_op =
    Get_State "64 word"
  | Permitted "64 word" mem_op_t
  | Access "64 word" "32 word" bool
  | Set_State "64 word" cstate_t
  | Insert "64 word" cstate_t cntlr
  | Invalidate "64 word"

datatype cache_out = State_Is cstate_t | Flag bool | No_Output | Evicted "(64 word \<times> cstate_t) option"

fun cache_do :: "cache_op \<Rightarrow> Cache \<Rightarrow> (cache_out \<times> Cache) result" where
  "cache_do (Get_State a) c = bindr (getCacheState a c) (\<lambda>s. Inr (State_Is s, c))"
| "cache_do (Permitted a m) c = bindr (operationPermissibleinCache a m c) (\<lambda>b. Inr (Flag b, c))"
| "cache_do (Access a bytes update_replacement) c =
     bindr (accessSingleLine a bytes update_replacement c) (\<lambda>(info, c'). Inr (Flag (info \<noteq> None), c'))"
| "cache_do (Set_State a s) c = bindr (setCacheState a s c) (\<lambda>c'. Inr (No_Output, c'))"
| "cache_do (Insert a s cntlr) c =
     bindr (insert_local a s cntlr c) (\<lambda>(eviction, e, info, c'). Inr (Evicted (if eviction then Some (e, m_cstate info) else None), c'))"
| "cache_do (Invalidate a) c = bindr (invalidateSingleLine a c) (\<lambda>(found, c'). Inr (Flag found, c'))"

fun cache_calls :: "cache_op list \<Rightarrow> Cache \<Rightarrow> (cache_out list \<times> Cache) result" where
  "cache_calls [] c = Inr ([], c)"
| "cache_calls (x # xs) c = bindr (cache_do x c) (\<lambda>(out, c1). bindr (cache_calls xs c1) (\<lambda>(outs, c2). Inr (out # outs, c2)))"

text \<open>The same operations on a map from lines to states. \<open>key\<close> gives the line of an address.\<close>

definition state_in :: "(nat \<times> 64 word \<Rightarrow> cstate_t option) \<Rightarrow> nat \<times> 64 word \<Rightarrow> cstate_t" where
  "state_in L l = (case L l of None \<Rightarrow> INVALID | Some s \<Rightarrow> s)"

inductive lines_step ::
  "(64 word \<Rightarrow> nat \<times> 64 word) \<Rightarrow> (nat \<times> 64 word \<Rightarrow> cstate_t option) \<Rightarrow> cache_op \<Rightarrow> cache_out \<Rightarrow> (nat \<times> 64 word \<Rightarrow> cstate_t option) \<Rightarrow> bool"
  for key where
  get_state: "lines_step key L (Get_State a) (State_Is (state_in L (key a))) L"
| permitted: "lines_step key L (Permitted a m)
    (Flag (state_in L (key a) = MODIFIED \<or> m = READ \<and> state_in L (key a) \<notin> {INVALID, SHARED_UPGRADING})) L"
| access: "lines_step key L (Access a bytes u) (Flag (L (key a) \<noteq> None)) L"
| set_state: "lines_step key L (Set_State a s) No_Output (L(key a \<mapsto> s))"
| insert_free: "L (key a) = None \<Longrightarrow> lines_step key L (Insert a s cntlr) (Evicted None) (L(key a \<mapsto> s))"
| insert_evict: "L (key a) = None \<Longrightarrow> L (key e) = Some v \<Longrightarrow> fst (key e) = fst (key a) \<Longrightarrow>
    lines_step key L (Insert a s cntlr) (Evicted (Some (e, v))) (L(key e := None, key a \<mapsto> s))"
| invalidate: "lines_step key L (Invalidate a) (Flag (L (key a) \<noteq> None)) (L(key a := None))"

inductive lines_run ::
  "(64 word \<Rightarrow> nat \<times> 64 word) \<Rightarrow> (nat \<times> 64 word \<Rightarrow> cstate_t option) \<Rightarrow> cache_op list \<Rightarrow> cache_out list \<Rightarrow> (nat \<times> 64 word \<Rightarrow> cstate_t option) \<Rightarrow> bool"
  for key where
  run_nil: "lines_run key L [] [] L"
| run_cons: "lines_step key L x out L1 \<Longrightarrow> lines_run key L1 xs outs L2 \<Longrightarrow> lines_run key L (x # xs) (out # outs) L2"

text \<open>
  What a controller observes: an access stays inside its block, the state of a line that is
  present changes to a stable one, and a line is inserted only when it is absent.
\<close>

fun legal :: "CacheBase \<Rightarrow> (nat \<times> 64 word \<Rightarrow> cstate_t option) \<Rightarrow> cache_op \<Rightarrow> bool" where
  "legal base L (Access a bytes u) \<longleftrightarrow> block_offset base a + bytes \<le> m_blocksize base"
| "legal base L (Set_State a s) \<longleftrightarrow> L (line_of base a) \<noteq> None \<and> stable s"
| "legal base L (Insert a s cntlr) \<longleftrightarrow> L (line_of base a) = None \<and> stable s"
| "legal base L x \<longleftrightarrow> True"

lemma getCacheState_ok:
  assumes "cache_ok c"
  shows "getCacheState a c = Inr (state_in (lines c) (line c a))"
proof -
  obtain i tag where l: "line c a = (i, tag)" by (cases "line c a")
  note at = locate_ok [OF assms l]
  show ?thesis using find_content [OF at(3), of "cs_blocks (m_sets c ! i)"]
    by (simp add: getCacheState_def peekSingleLine_def at(1) l state_in_def at(5) split: option.splits)
qed

lemma permitted_ok:
  assumes "cache_ok c"
  shows "operationPermissibleinCache a m c = Inr (state_in (lines c) (line c a) = MODIFIED \<or>
    m = READ \<and> state_in (lines c) (line c a) \<notin> {INVALID, SHARED_UPGRADING})"
  by (cases m; cases "state_in (lines c) (line c a)")
    (simp_all add: operationPermissibleinCache_def getCacheState_ok [OF assms] readable_def writable_def)

lemma access_ok:
  assumes ok: "cache_ok c" and bytes: "block_offset (CacheBase.truncate c) a + bytes \<le> m_blocksize c"
  shows "\<exists>info c'. accessSingleLine a bytes u c = Inr (info, c') \<and> (info \<noteq> None \<longleftrightarrow> lines c (line c a) \<noteq> None)
    \<and> cache_ok c' \<and> lines c' = lines c \<and> CacheBase.truncate c' = CacheBase.truncate c"
proof -
  obtain i tag where l: "line c a = (i, tag)" by (cases "line c a")
  note at = locate_ok [OF ok l]
  let ?s = "m_sets c ! i"
  show ?thesis
  proof (cases "set_find tag (cs_blocks ?s)")
    case None
    then show ?thesis using find_content [OF at(3), of "cs_blocks ?s"] ok by (simp add: accessSingleLine_def at(1) l at(5))
  next
    case (Some k)
    have n: "policy_ok (unat (m_associativity c)) (cs_policy ?s)" "k < unat (m_associativity c)" "info_ok (unat (m_associativity c)) (m_set_info c)"
      "cs_blocksize ?s = m_blocksize c"
      using at(4) ok set_find_Some [OF Some] by (simp_all add: set_ok_def blocks_ok_def cache_ok_def CacheBase.truncate_def)
    obtain p si where p: "updateReplacementIndex k (cs_policy ?s, m_set_info c) = Inr (p, si)" "policy_ok (unat (m_associativity c)) p"
      "info_ok (unat (m_associativity c)) si"
      using policies.touch_ok [OF n(1,3,2)] by blast
    have "set_ok (CacheBase.truncate c) i (?s\<lparr>cs_policy := p\<rparr>)" using at(4) p(2) by (simp add: set_ok_def CacheBase.truncate_def)
    note touched = cache_ok_update [OF ok at(2) this p(3)]
    have inside: "\<not> cs_blocksize ?s < block_offset (CacheBase.truncate c) a + bytes" using bytes n(4) by simp
    have hit: "lines c (line c a) \<noteq> None" using find_content [OF at(3), of "cs_blocks ?s"] by (simp add: l at(5) Some)
    have keep: "lines (c\<lparr>m_sets := (m_sets c)[i := ?s\<lparr>cs_policy := p\<rparr>], m_set_info := si\<rparr>) = lines c" by (rule lines_keep [OF at(2), where s = "?s\<lparr>cs_policy := p\<rparr>"]) simp_all
    show ?thesis
    proof (cases u)
      case True
      then show ?thesis using p(1) inside hit touched keep by (simp add: accessSingleLine_def at(1) Some use_line_def)
    next
      case False
      then show ?thesis using inside hit ok by (simp add: accessSingleLine_def at(1) Some use_line_def)
    qed
  qed
qed

lemma setCacheState_ok:
  assumes ok: "cache_ok c" and hit: "lines c (line c a) \<noteq> None" and s: "stable s"
  shows "\<exists>c'. setCacheState a s c = Inr c' \<and> cache_ok c' \<and> lines c' = (lines c)(line c a \<mapsto> s) \<and> CacheBase.truncate c' = CacheBase.truncate c"
proof -
  obtain i tag where l: "line c a = (i, tag)" by (cases "line c a")
  note at = locate_ok [OF ok l]
  let ?s = "m_sets c ! i"
  have bl: "blocks_ok (CacheBase.truncate c) i (cs_blocks ?s)" using at(4) by (simp add: set_ok_def)
  have dist: "distinct_tags (cs_blocks ?s)" using bl by (simp add: blocks_ok_def)
  obtain k where find: "set_find tag (cs_blocks ?s) = Some k" using hit find_content [OF at(3), of "cs_blocks ?s"] by (auto simp: l at(5))
  note k = set_find_Some [OF find]
  let ?b = "(cs_blocks ?s ! k)\<lparr>m_cstate := s\<rparr>"
  have other: "m_tag ?b = NOT 0 \<or> (\<forall>j < length (cs_blocks ?s). j \<noteq> k \<longrightarrow> m_tag (cs_blocks ?s ! j) \<noteq> m_tag ?b)"
    using dist [unfolded distinct_tags_def, rule_format, of _ k] k by auto
  have "block_ok (CacheBase.truncate c) i (cs_blocks ?s ! k)" using bl k by (simp add: blocks_ok_def list_all_length)
  then have "block_ok (CacheBase.truncate c) i ?b" using s k at(3) by (simp add: block_ok_def)
  from blocks_ok_update [OF bl _ this other] k have "set_ok (CacheBase.truncate c) i (?s\<lparr>cs_blocks := (cs_blocks ?s)[k := ?b]\<rparr>)"
    using at(4) by (simp add: set_ok_def)
  note new = cache_ok_set [OF ok at(2) this]
  have "content ((cs_blocks ?s)[k := ?b]) = (content (cs_blocks ?s))(tag \<mapsto> s)"
    unfolding content_update [OF dist k [THEN conjunct1] other] using k at(3) by (auto simp: content_def)
  then have "lines (c\<lparr>m_sets := (m_sets c)[i := ?s\<lparr>cs_blocks := (cs_blocks ?s)[k := ?b]\<rparr>]\<rparr>) = (lines c)(line c a \<mapsto> s)"
    using at(2) by (auto simp: lines_def l nth_list_update fun_eq_iff)
  then show ?thesis using new by (simp add: setCacheState_def at(1) find)
qed

lemma invalidate_ok:
  assumes ok: "cache_ok c"
  shows "\<exists>c'. invalidateSingleLine a c = Inr (lines c (line c a) \<noteq> None, c') \<and> cache_ok c' \<and> lines c' = (lines c)(line c a := None)
    \<and> CacheBase.truncate c' = CacheBase.truncate c"
proof -
  obtain i tag where l: "line c a = (i, tag)" by (cases "line c a")
  note at = locate_ok [OF ok l]
  let ?s = "m_sets c ! i"
  have bl: "blocks_ok (CacheBase.truncate c) i (cs_blocks ?s)" using at(4) by (simp add: set_ok_def)
  have dist: "distinct_tags (cs_blocks ?s)" using bl by (simp add: blocks_ok_def)
  show ?thesis
  proof (cases "set_find tag (cs_blocks ?s)")
    case None
    then have "lines c (i, tag) = None" using find_content [OF at(3), of "cs_blocks ?s"] by (simp add: at(5))
    then show ?thesis using None ok by (simp add: invalidateSingleLine_def set_invalidate_def at(1) l fun_upd_idem)
  next
    case (Some k)
    note k = set_find_Some [OF Some]
    let ?b = "block_invalidate (cs_blocks ?s ! k)"
    have other: "m_tag ?b = NOT 0 \<or> (\<forall>j < length (cs_blocks ?s). j \<noteq> k \<longrightarrow> m_tag (cs_blocks ?s ! j) \<noteq> m_tag ?b)" by (simp add: block_invalidate_def)
    have "block_ok (CacheBase.truncate c) i ?b" by (simp add: block_ok_def block_invalidate_def)
    from blocks_ok_update [OF bl _ this other] k have "set_ok (CacheBase.truncate c) i (?s\<lparr>cs_blocks := (cs_blocks ?s)[k := ?b]\<rparr>)"
      using at(4) by (simp add: set_ok_def)
    note new = cache_ok_set [OF ok at(2) this]
    have "content ((cs_blocks ?s)[k := ?b]) = (content (cs_blocks ?s))(tag := None)"
      unfolding content_update [OF dist k [THEN conjunct1] other] using k by (auto simp: content_def block_invalidate_def)
    then have "lines (c\<lparr>m_sets := (m_sets c)[i := ?s\<lparr>cs_blocks := (cs_blocks ?s)[k := ?b]\<rparr>]\<rparr>) = (lines c)(line c a := None)"
      using at(2) by (auto simp: lines_def l nth_list_update fun_eq_iff)
    moreover have "lines c (line c a) \<noteq> None" using find_content [OF at(3), of "cs_blocks ?s"] by (simp add: l at(5) Some)
    ultimately show ?thesis using new by (simp add: invalidateSingleLine_def set_invalidate_def at(1) Some)
  qed
qed

text \<open>An insertion: the policy picks a way, whose line is replaced.\<close>

lemma set_find_new:
  assumes "k < length blocks" "\<forall>j < length blocks. m_tag (blocks ! j) \<noteq> m_tag b"
  shows "set_find (m_tag b) (blocks[k := b]) = Some k"
proof (cases "set_find (m_tag b) (blocks[k := b])")
  case None
  then show ?thesis using assms(1) set_update_memI [of k blocks b] by (auto simp: set_find_None)
next
  case (Some j)
  then show ?thesis using set_find_Some [OF Some] assms by (cases "j = k") auto
qed

lemma update_order:
  "(c :: Cache)\<lparr>m_set_info := si, m_sets := x\<rparr> = c\<lparr>m_sets := x, m_set_info := si\<rparr>"
  "(s :: CacheSet)\<lparr>cs_policy := p, cs_blocks := y\<rparr> = s\<lparr>cs_blocks := y, cs_policy := p\<rparr>"
  by (cases c, simp) (cases s, simp)

lemma insert_replaces:
  assumes ok: "cache_ok c" and l: "line c a = (i, tag)" and miss: "lines c (i, tag) = None"
  shows "\<exists>k p si. k < unat (m_associativity c) \<and> policy_ok (unat (m_associativity c)) p \<and> info_ok (unat (m_associativity c)) si \<and>
    insert_local a s cntlr c = (let old = cs_blocks (m_sets c ! i) ! k; info = (if isValid old then old else new_CacheBlockInfo) in
      Inr (isValid old, tagToAddress (CacheBase.truncate c) (m_tag info), info,
        c\<lparr>m_sets := (m_sets c)[i := (m_sets c ! i)\<lparr>cs_blocks := (cs_blocks (m_sets c ! i))[k := new_CacheBlockInfo\<lparr>m_tag := tag, m_cstate := s\<rparr>], cs_policy := p\<rparr>],
          m_set_info := si\<rparr>))"
proof -
  note at = locate_ok [OF ok l]
  let ?s = "m_sets c ! i" and ?n = "unat (m_associativity c)" and ?b = "new_CacheBlockInfo\<lparr>m_tag := tag\<rparr>"
  have bl: "blocks_ok (CacheBase.truncate c) i (cs_blocks ?s)" using at(4) by (simp add: set_ok_def)
  have len: "length (cs_blocks ?s) = ?n" "policy_ok ?n (cs_policy ?s)" "info_ok ?n (m_set_info c)"
    using at(4) ok by (simp_all add: set_ok_def blocks_ok_def cache_ok_def CacheBase.truncate_def)
  obtain k p si where k: "getReplacementIndex cntlr (cs_blocks ?s) (cs_policy ?s, m_set_info c) = Inr (k, p, si)" "k < ?n" "policy_ok ?n p" "info_ok ?n si"
    using policies.pick_ok [OF len(2,3,1) blocks_ok_settled [OF bl]] by blast
  let ?c = "c\<lparr>m_sets := (m_sets c)[i := ?s\<lparr>cs_blocks := (cs_blocks ?s)[k := ?b], cs_policy := p\<rparr>], m_set_info := si\<rparr>"
  have fresh: "\<forall>j < length (cs_blocks ?s). m_tag (cs_blocks ?s ! j) \<noteq> tag" using miss content_None [OF at(3)] by (simp add: at(5))
  have find: "set_find tag ((cs_blocks ?s)[k := ?b]) = Some k" using set_find_new [of k "cs_blocks ?s" ?b] fresh k(2) len(1) by simp
  have "locate Out_Of_Bounds ?c a = Inr (tag, i, ?s\<lparr>cs_blocks := (cs_blocks ?s)[k := ?b], cs_policy := p\<rparr>)"
    using at(1) [of Out_Of_Bounds] at(2) by (auto simp: locate_def vec_at_Some elim!: bindrE simp del: bindr_Inr)
  then have "setCacheState a s ?c = Inr (c\<lparr>m_sets := (m_sets c)[i := ?s\<lparr>cs_blocks := (cs_blocks ?s)[k := ?b\<lparr>m_cstate := s\<rparr>], cs_policy := p\<rparr>], m_set_info := si\<rparr>)"
    using find k(2) len(1) by (simp add: setCacheState_def update_order)
  moreover have "getCacheState a c = Inr INVALID" using getCacheState_ok [OF ok, of a] miss by (simp add: state_in_def l)
  ultimately show ?thesis using k len(1)
    by (intro exI [of _ k] exI [of _ p] exI [of _ si]) (simp add: insert_local_def insertSingleLine_def at(1) set_insert_def Let_def)
qed

lemma insert_ok:
  assumes ok: "cache_ok c" and miss: "lines c (line c a) = None" and s: "stable s"
  shows "\<exists>ev e info c'. insert_local a s cntlr c = Inr (ev, e, info, c') \<and> cache_ok c' \<and> CacheBase.truncate c' = CacheBase.truncate c \<and>
    lines_step (line c) (lines c) (Insert a s cntlr) (Evicted (if ev then Some (e, m_cstate info) else None)) (lines c')"
proof -
  obtain i tag where l: "line c a = (i, tag)" by (cases "line c a")
  note at = locate_ok [OF ok l]
  let ?s = "m_sets c ! i" and ?B = "CacheBase.truncate c" and ?b = "new_CacheBlockInfo\<lparr>m_tag := tag, m_cstate := s\<rparr>"
  have bl: "blocks_ok ?B i (cs_blocks ?s)" "length (cs_blocks ?s) = unat (m_associativity c)"
    using at(4) by (simp_all add: set_ok_def blocks_ok_def CacheBase.truncate_def)
  have dist: "distinct_tags (cs_blocks ?s)" using bl by (simp add: blocks_ok_def)
  have fresh: "\<forall>j < length (cs_blocks ?s). m_tag (cs_blocks ?s ! j) \<noteq> tag" using miss content_None [OF at(3)] by (simp add: l at(5))
  from insert_replaces [OF ok l, of s cntlr] miss obtain k p si
    where k: "k < length (cs_blocks ?s)" "policy_ok (unat (m_associativity c)) p" "info_ok (unat (m_associativity c)) si"
      and ins: "insert_local a s cntlr c = (let old = cs_blocks ?s ! k; info = (if isValid old then old else new_CacheBlockInfo) in
        Inr (isValid old, tagToAddress ?B (m_tag info), info,
          c\<lparr>m_sets := (m_sets c)[i := ?s\<lparr>cs_blocks := (cs_blocks ?s)[k := ?b], cs_policy := p\<rparr>], m_set_info := si\<rparr>))"
    unfolding l bl(2) by auto
  let ?old = "cs_blocks ?s ! k" and ?c = "c\<lparr>m_sets := (m_sets c)[i := ?s\<lparr>cs_blocks := (cs_blocks ?s)[k := ?b], cs_policy := p\<rparr>], m_set_info := si\<rparr>"
  have base: "base_ok ?B" using ok by (simp add: cache_ok_def)
  have "block_ok ?B i ?b" using line_of_canonical [OF base, of a] s at(3) by (simp add: block_ok_def l)
  moreover have other: "m_tag ?b = NOT 0 \<or> (\<forall>j < length (cs_blocks ?s). j \<noteq> k \<longrightarrow> m_tag (cs_blocks ?s ! j) \<noteq> m_tag ?b)" using fresh by simp
  ultimately have "set_ok ?B i (?s\<lparr>cs_blocks := (cs_blocks ?s)[k := ?b], cs_policy := p\<rparr>)"
    using blocks_ok_update [OF bl(1) k(1)] at(4) k(2) by (simp add: set_ok_def CacheBase.truncate_def)
  note new = cache_ok_update [OF ok at(2) this k(3)]
  have "content ((cs_blocks ?s)[k := ?b]) = (content (cs_blocks ?s))(m_tag ?old := None, tag \<mapsto> s)"
    unfolding content_update [OF dist k(1) other] using at(3) by (auto simp: content_def)
  then have L: "lines ?c = (lines c)((i, m_tag ?old) := None, (i, tag) \<mapsto> s)" using at(2) by (auto simp: lines_def nth_list_update fun_eq_iff)
  show ?thesis
  proof (cases "isValid ?old")
    case True
    then have "content (cs_blocks ?s) (m_tag ?old) = Some (m_cstate ?old)" using k(1) by (auto simp: content_iff [OF dist] isValid_def)
    then have "lines c (i, m_tag ?old) = Some (m_cstate ?old)" "line c (tagToAddress ?B (m_tag ?old)) = (i, m_tag ?old)"
      using at(2) content_stable(2) [OF bl(1)] by (simp_all add: lines_def)
    then have "lines_step (line c) (lines c) (Insert a s cntlr) (Evicted (Some (tagToAddress ?B (m_tag ?old), m_cstate ?old))) (lines ?c)"
      using lines_step.insert_evict [of "lines c" "line c" a "tagToAddress ?B (m_tag ?old)" "m_cstate ?old" s cntlr] miss by (simp add: L l)
    then show ?thesis using ins new True by (auto simp: Let_def)
  next
    case False
    then have "lines c (i, m_tag ?old) = None" using at(2) by (simp add: lines_def content_def isValid_def)
    then have "lines ?c = (lines c)((i, tag) \<mapsto> s)" by (simp add: L fun_upd_idem)
    then have "lines_step (line c) (lines c) (Insert a s cntlr) (Evicted None) (lines ?c)"
      using lines_step.insert_free [of "lines c" "line c" a s cntlr] miss by (simp add: l)
    then show ?thesis using ins new False by (auto simp: Let_def)
  qed
qed

lemma cache_do_refines:
  assumes ok: "cache_ok c" and x: "legal (CacheBase.truncate c) (lines c) x"
  shows "\<exists>out c'. cache_do x c = Inr (out, c') \<and> cache_ok c' \<and> CacheBase.truncate c' = CacheBase.truncate c \<and> lines_step (line c) (lines c) x out (lines c')"
proof (cases x)
  case (Get_State a)
  then show ?thesis using getCacheState_ok [OF ok] ok by (simp add: lines_step.get_state)
next
  case (Permitted a m)
  have "lines_step (line c) (lines c) x (Flag (state_in (lines c) (line c a) = MODIFIED \<or> m = READ \<and> state_in (lines c) (line c a) \<notin> {INVALID, SHARED_UPGRADING})) (lines c)"
    unfolding Permitted by (rule lines_step.permitted)
  then show ?thesis using permitted_ok [OF ok, of a m] ok by (simp add: Permitted)
next
  case (Access a bytes u)
  obtain info c' where "accessSingleLine a bytes u c = Inr (info, c')" "info \<noteq> None \<longleftrightarrow> lines c (line c a) \<noteq> None" "cache_ok c'"
    "lines c' = lines c" "CacheBase.truncate c' = CacheBase.truncate c"
    using access_ok [OF ok, of a bytes u] x by (auto simp: Access CacheBase.truncate_def)
  then show ?thesis using lines_step.access [of "line c" "lines c" a bytes u] by (simp add: Access)
next
  case (Set_State a s)
  then show ?thesis using setCacheState_ok [OF ok, of a s] x by (auto intro: lines_step.set_state)
next
  case (Insert a s cntlr)
  then obtain ev e info c' where "insert_local a s cntlr c = Inr (ev, e, info, c')" "cache_ok c'" "CacheBase.truncate c' = CacheBase.truncate c"
    "lines_step (line c) (lines c) x (Evicted (if ev then Some (e, m_cstate info) else None)) (lines c')"
    using insert_ok [OF ok, of a s cntlr] x by auto
  then show ?thesis by (simp add: Insert)
next
  case (Invalidate a)
  obtain c' where "invalidateSingleLine a c = Inr (lines c (line c a) \<noteq> None, c')" "cache_ok c'" "lines c' = (lines c)(line c a := None)"
    "CacheBase.truncate c' = CacheBase.truncate c" using invalidate_ok [OF ok, of a] by blast
  then show ?thesis using lines_step.invalidate [of "line c" "lines c" a] by (simp add: Invalidate)
qed

lemma cache_calls_refine:
  "cache_ok c \<Longrightarrow> \<exists>pre post outs c'. xs = pre @ post \<and> cache_calls pre c = Inr (outs, c') \<and> cache_ok c' \<and> CacheBase.truncate c' = CacheBase.truncate c
    \<and> lines_run (line c) (lines c) pre outs (lines c') \<and> (post = [] \<or> \<not> legal (CacheBase.truncate c) (lines c') (hd post))"
proof (induction xs arbitrary: c)
  case Nil
  then show ?case by (intro exI [of _ "[]"] exI [of _ c]) (simp add: lines_run.run_nil)
next
  case (Cons x xs)
  show ?case
  proof (cases "legal (CacheBase.truncate c) (lines c) x")
    case False
    then show ?thesis using Cons.prems by (intro exI [of _ "[]"] exI [of _ "x # xs"] exI [of _ c]) (simp add: lines_run.run_nil)
  next
    case True
    obtain out c1 where c1: "cache_do x c = Inr (out, c1)" "cache_ok c1" "CacheBase.truncate c1 = CacheBase.truncate c"
      "lines_step (line c) (lines c) x out (lines c1)" using cache_do_refines [OF Cons.prems True] by blast
    obtain pre post outs c' where "xs = pre @ post" "cache_calls pre c1 = Inr (outs, c')" "cache_ok c'" "CacheBase.truncate c' = CacheBase.truncate c"
      "lines_run (line c) (lines c1) pre outs (lines c')" "post = [] \<or> \<not> legal (CacheBase.truncate c) (lines c') (hd post)"
      using Cons.IH [OF c1(2)] unfolding c1(3) by blast
    then show ?thesis using c1(1) lines_run.run_cons [OF c1(4)]
      by (intro exI [of _ "x # pre"] exI [of _ post] exI [of _ "out # outs"] exI [of _ c']) simp
  qed
qed

lemma new_Cache_ok:
  assumes new: "new_Cache name cfg num_sets associativity blocksize hash ahl = Inr c"
    and policy: "parsePolicyType name = Inr policy" "policy_fits policy cfg (unat associativity)"
    and hash: "hash \<noteq> HASH_XOR_MOD" "hash \<noteq> HASH_MER_MOD" "num_sets \<noteq> 0" "2 \<le> unat blocksize"
    and ahl: "case ahl of None \<Rightarrow> True | Some h \<Rightarrow> ahl_fits blocksize h"
  shows "cache_ok c" "lines c = Map.empty" "m_associativity c = associativity"
proof -
  obtain base sets where base: "new_CacheBase num_sets associativity blocksize hash ahl = Inr base"
    and sets: "map_result (\<lambda>_. createCacheSet policy cfg (unat associativity) blocksize) [0..<unat num_sets] = Inr sets"
    and c: "c = CacheBase.extend base \<lparr>m_enabled = False, m_num_accesses = 0, m_num_hits = 0, m_sets = sets,
      m_set_info = new_CacheSetInfoLRU (unat associativity) (getNumQBSAttempts policy cfg)\<rparr>"
    using new policy(1) by (auto simp: new_Cache_def elim!: bindrE simp del: bindr_Inr)
  note base_ok = new_CacheBase_ok [OF base hash ahl]
  have b: "m_num_sets base = num_sets" "m_associativity base = associativity" "m_blocksize base = blocksize"
    using base by (auto simp: new_CacheBase_def split: if_splits)
  have trunc: "CacheBase.truncate c = base" by (simp add: c CacheBase.truncate_def CacheBase.extend_def)
  have at: "createCacheSet policy cfg (unat associativity) blocksize = Inr (sets ! i)" if "i < length sets" for i
    using sets that by (auto simp: map_result_Inr list_all2_conv_all_nth)
  have len: "length sets = unat num_sets" using sets by (auto simp: map_result_Inr list_all2_conv_all_nth)
  have set: "cs_blocks (sets ! i) = replicate (unat associativity) new_CacheBlockInfo" "set_ok base i (sets ! i)" if i: "i < length sets" for i
  proof -
    obtain p where p: "new_policy policy cfg (unat associativity) = Inr p"
      "sets ! i = \<lparr>cs_blocks = replicate (unat associativity) new_CacheBlockInfo, cs_blocksize = blocksize, cs_policy = p\<rparr>"
      using at [OF i] by (auto simp: createCacheSet_def elim!: bindrE simp del: bindr_Inr)
    then show "cs_blocks (sets ! i) = replicate (unat associativity) new_CacheBlockInfo" by simp
    show "set_ok base i (sets ! i)" using new_policy_ok [OF p(1) policy(2)]
      by (simp add: p(2) set_ok_def b blocks_ok_def distinct_tags_def block_ok_def list_all_length new_CacheBlockInfo_def)
  qed
  have c_sets: "m_sets c = sets" "m_num_sets c = num_sets" "m_associativity c = associativity"
    "m_set_info c = new_CacheSetInfoLRU (unat associativity) (getNumQBSAttempts policy cfg)" using b by (simp_all add: c CacheBase.extend_def)
  then show "cache_ok c" "m_associativity c = associativity"
    using base_ok len set(2) new_info_ok [OF policy(2)] by (simp_all add: cache_ok_def trunc)
  have "content (replicate (unat associativity) new_CacheBlockInfo) tag = None" for tag
    by (auto simp: content_def set_find_None new_CacheBlockInfo_def)
  then show "lines c = Map.empty" using set(1) by (auto simp: lines_def c_sets)
qed

lemma lines_capacity:
  assumes "cache_ok c"
  shows "card {tag. lines c (i, tag) \<noteq> None} \<le> unat (m_associativity c)"
proof (cases "i < length (m_sets c)")
  case True
  let ?b = "cs_blocks (m_sets c ! i)"
  have "blocks_ok (CacheBase.truncate c) i ?b" using assms True by (simp add: cache_ok_def set_ok_def)
  then have "length ?b = unat (m_associativity c)" by (simp add: blocks_ok_def CacheBase.truncate_def)
  moreover have "{tag. lines c (i, tag) \<noteq> None} \<subseteq> m_tag ` set ?b"
    using True by (auto simp: lines_def content_def split: if_splits dest: set_find_Some)
  then have "card {tag. lines c (i, tag) \<noteq> None} \<le> card (set ?b)" using card_mono card_image_le [of "set ?b" m_tag] by (meson List.finite_set finite_imageI order_trans)
  ultimately show ?thesis using card_length [of ?b] by simp
qed (simp add: lines_def)


definition demo_cache :: "Cache result" where
  "demo_cache = new_Cache ''plru'' \<lparr>qbs_attempts = 1, srrip_bits = 2, time_seed = 0\<rparr> 2 4 64 HASH_MASK None"

lemma demo_cache_value: "case demo_cache of Inl _ \<Rightarrow> False | Inr c \<Rightarrow> length (m_sets c) = 2"
  by code_simp


lemma demo_cache_run:
  "(case bindr demo_cache (cache_calls [Insert 0 SHARED None, Access 4 8 True, Set_State 0 MODIFIED, Permitted 32 WRITE, Invalidate 60, Get_State 0]) of
      Inl e \<Rightarrow> None | Inr (outs, c) \<Rightarrow> Some outs)
    = Some [Evicted None, Flag True, No_Output, Flag True, Flag True, State_Is INVALID]"
  by code_simp


section \<open>Outside the contract\<close>

text \<open>
  Round robin tests the line after the one it returns, so it can return a line that waits for an
  upgrade. NRU counts accesses, not set bits: two accesses to the same way of a two-way set clear
  both bits. With more SRRIP states than ways, the first hit on a new line ends the process. With
  three sets, the XOR hash yields a set that does not exist.
\<close>

lemma round_robin_replaces_upgrading:
  "RoundRobin_getReplacementIndex [new_CacheBlockInfo\<lparr>m_tag := 1, m_cstate := SHARED\<rparr>, new_CacheBlockInfo\<lparr>m_tag := 2, m_cstate := SHARED_UPGRADING\<rparr>] 1
    = Some (Inr (1, 0))"
  by (subst RoundRobin_getReplacementIndex.simps) (simp add: isValidReplacement_def vec_at_def)

lemma nru_forgets:
  "bindr (NRU_updateReplacementIndex 0 (new_CacheSetNRU 2)) (NRU_updateReplacementIndex 0) = Inr (new_CacheSetNRU 2)"
  by code_simp

lemma srrip_hit_exits:
  "(case SRRIP_getReplacementIndex None (replicate 4 new_CacheBlockInfo) (new_CacheSetSRRIP 4 3 1) (new_CacheSetInfoLRU 4 1) of
      Inl e \<Rightarrow> None | Inr (k, s, si) \<Rightarrow> Some (k, SRRIP_updateReplacementIndex k s si)) = Some (0, Inl Exit_Process)"
  by code_simp

lemma xor_mod_outside:
  "bindr (new_CacheBase 3 4 64 HASH_XOR_MOD None) (\<lambda>c. splitAddress c 0x100) = Inr (4, 3)"
  by code_simp

end
