(* ===== verification/Spec2Isabelle.thy ===== *)
theory Spec2Isabelle
  imports Trace_Stall Cache_Lines
begin

text \<open>
  Verification of the memory simulator under \<^verbatim>\<open>src/ramulator2/src\<close> and of the caches of the processor
  simulator under \<^verbatim>\<open>src/snipersim\<close>.

  \<^bold>\<open>The program.\<close> A frontend (a trace reader or the processor \<^verbatim>\<open>SimpleO3\<close>) makes memory requests. A
  translation turns virtual into physical addresses and may place pages near the core that
  uses them. The memory system maps a physical address to a channel, rank, bank, row and column
  and hands the request to the controller of the channel. A controller queues requests,
  schedules one per cycle, and issues commands to the DRAM device; a finished read is called
  back into the frontend. \<^verbatim>\<open>main.cpp\<close> interleaves the cycles of frontend and memory. The memory
  traces come from \<^verbatim>\<open>snipersim\<close>, whose caches decide which accesses reach memory: a cache is an
  array of sets, a hash chooses the set of an address, a replacement policy chooses the line of
  the set that makes room, and a cache controller keeps a coherence state with each line.

  \<^bold>\<open>The theories\<close>, in the order of their imports:

  \<^item> \<open>Prelude\<close>: the result type \<open>fault + 'a\<close> (every exception, exit, out-of-range access and
    endless loop of the source is a fault), checked vector access, random generators as
    streams.
  \<^item> \<open>Utils\<close> (\<^verbatim>\<open>base/utils\<close>): logarithms, bit slices, parsing of capacities, frequencies
    and lines, JEDEC rounding, the latency matrix. \<open>Requests\<close> (\<^verbatim>\<open>base/request\<close>): requests
    and request buffers.
  \<^item> \<open>Translation\<close>: the contract of a page allocator. \<open>Local_To_Requester\<close>, \<open>Dynamic_Migration\<close>,
    \<open>Random_Translation\<close> (\<^verbatim>\<open>translation/impl\<close>): the five translations.
  \<^item> \<open>Dram_Spec\<close>, \<open>Dram_Node\<close>, \<open>Dram_Total\<close> (\<^verbatim>\<open>dram/spec.h\<close>, \<^verbatim>\<open>dram/node.h\<close>): the vocabulary of a
    standard, the tree of nodes with its timing and state updates. A node is addressed by its path,
    so the tree is a map from paths to node records.
  \<^item> \<open>Lambdas\<close>, \<open>Power_Model\<close> (\<^verbatim>\<open>dram/lambdas\<close>): actions, prerequisites, row buffer queries, power
    counters. \<open>DDR4\<close>, \<open>DDR4_Device\<close>, \<open>DDR4_Banks\<close> (\<^verbatim>\<open>dram/impl/DDR4.cpp\<close>): the device, its
    presets and its protocol.
  \<^item> \<open>Addr_Mapper\<close>, \<open>Row_Indirection\<close> (\<^verbatim>\<open>addr_mapper/impl\<close>): the linear mappers, with and without
    row indirection tables.
  \<^item> \<open>Dram_Ifce\<close> (\<^verbatim>\<open>dram/dram.h\<close>): the device interface as a record of operations, with its DDR4
    instance. \<open>Scheduler\<close>, \<open>Maintenance\<close>, \<open>Controller\<close>, \<open>Memory_System\<close>
    (\<^verbatim>\<open>dram_controller\<close>, \<^verbatim>\<open>memory_system\<close>): the five schedulers, refresh, row policies and plugins,
    the generic controller, the generic and the custom memory system.
  \<^item> \<open>Controller_Lemmas\<close>, \<open>Controller_Host\<close>, \<open>System_Host\<close>, \<open>Controller_DDR4\<close>: what controllers
    guarantee on a device with rows (locale \<open>row_device\<close>), for one cycle, for runs of a system, and for
    the DDR4 device, which interprets the locale.
  \<^item> \<open>Traces\<close> (\<^verbatim>\<open>frontend/impl/memory_trace\<close>, \<^verbatim>\<open>main.cpp\<close>): the trace frontends and the simulation
    loop. \<open>SimpleO3\<close> (\<^verbatim>\<open>frontend/impl/processor/simpleO3\<close>): instruction window, core, cache
    pass-through, processor.
  \<^item> \<open>Window_Queue\<close>: the window implements a queue (locale \<open>inst_queue\<close>). \<open>Processor_Memory\<close>: the
    processor on its memory (locales \<open>request_translation\<close>, \<open>request_mapper\<close>, \<open>processor\<close>).
    \<open>Trace_Stall\<close>: the custom trace frontend on the custom memory system.
  \<^item> \<open>Cache_Policies\<close>, \<open>Sniper_Cache\<close> (\<^verbatim>\<open>snipersim/common/core/memory_subsystem\<close>): lines, the eight
    replacement policies (\<^verbatim>\<open>cache/cache_set_*\<close>), sets, address hashes and home lookup, the cache
    (\<^verbatim>\<open>cache/cache.cc\<close>), and the operations of \<^verbatim>\<open>CacheCntlr\<close> on its own cache. \<open>Policy_Lemmas\<close>: LRU, PLRU and
    SRRIP against what they promise. \<open>Policy_Contract\<close>: the contract of a policy (locale
    \<open>replacement\<close>), interpreted on the virtual calls over all policies. \<open>Cache_Lines\<close>: the cache as a map
    from lines to coherence states.

  \<^bold>\<open>Correspondence.\<close> A class is a record whose fields are the data members; a method is a
  definition that takes the record and returns it updated. \<^verbatim>\<open>int\<close>, \<^verbatim>\<open>Addr_t\<close> and \<^verbatim>\<open>Clk_t\<close> are
  integers, with conversions to a width written out where the source converts; \<^verbatim>\<open>size_t\<close> counters
  are natural numbers; the integers of the caches (\<^verbatim>\<open>UInt8\<close>, \<^verbatim>\<open>UInt32\<close>, \<^verbatim>\<open>UInt64\<close>, \<^verbatim>\<open>IntPtr\<close>) are words of
  their width; \<^verbatim>\<open>float\<close> and \<^verbatim>\<open>double\<close> are exact rationals. An \<^verbatim>\<open>unordered_map\<close> is a map, and the
  order in which a loop visits it is an argument. The virtual calls through \<^verbatim>\<open>ITranslation\<close> and
  \<^verbatim>\<open>IAddrMapper\<close> are a case distinction over the registered implementations.

  \<^bold>\<open>What the lemmas show.\<close> Translations: consistent tables, no two pages in one frame where that
  holds and the runs where it fails, local placement, termination under a fair generator. Device:
  every timing constraint of the standard is kept, at most one row per bank, requests reach their
  final command, every command is accepted. Mappers: injective, in bounds, redirection is an
  involution. Controllers: the best request is chosen, only the next prerequisite command is
  issued, active rows stay open, reads are conserved. Processor: the window is a queue, and no
  wakeup is lost between core, translation, mapper, controller and callback. The custom memory
  system refuses requests to cached pages forever, so a trace can stall. Caches: LRU is the order of
  use, PLRU spares the ways used last, SRRIP finds a way, no policy fails, and a cache of any policy
  is a map from lines to states whose insertions displace at most one line of the same set.

  \<^bold>\<open>Loops and fuel.\<close> Loops are structural recursion or recursion with a measure. Loops that may run
  forever (\<^verbatim>\<open>calc_log2\<close> on negative numbers, the draws of the page allocators, the
  retries of round robin and random replacement, the simulation loop) are partial functions in which not returning is \<open>None\<close>; there is no fuel.

  \<^bold>\<open>Not modelled.\<close>
  \<^item> The rest of \<^verbatim>\<open>src/snipersim\<close>: \<^verbatim>\<open>ramulator2\<close> does not call it, and its core, coherence protocol
    across caches, directories, networks, performance models, scheduler and frontends are concurrent code around
    simulated time and instrumentation libraries. Of its caches, the copied data and fault
    injection (a set stores no data without it) and the block information of the derived classes
    are left out. The contract of the caches excludes query-based selection, the two hashes that can
    leave the array of sets, and lines that wait for an upgrade.
  \<^item> The DRAM standards other than DDR4 (DDR3, DDR5, LPDDR5, GDDR6, HBM, HBM2, HBM3 and the VRR
    variants): the same node tree with other tables.
  \<^item> The plugins AQUA, Graphene, Hydra, RRS, TRR, BLISS, BlockHammer, PRAC, device configuration and trace
    recorder, the BlockHammer and PRAC controllers and the BlockHammer processor \<^verbatim>\<open>bhO3\<close>. The schedulers that
    ask BLISS, BlockHammer or PRAC take the answers as arguments.
  \<^item> Configuration, factory, logging and statistics registration (YAML and \<^verbatim>\<open>spdlog\<close> calls), the gem5
    wrapper, and the output of \<^verbatim>\<open>finalize\<close>: input and output around the model.
\<close>

end
